(* ===== verification/Kernel_Prelude.thy ===== *)
theory Kernel_Prelude
  imports Main "HOL-Library.Word"
begin

text \<open>
  The shared base of the development: names for the Rust integer types the kernel uses, the
  arithmetic of \<^verbatim>\<open>core\<close> that the sources call (\<^verbatim>\<open>saturating_*\<close>, \<^verbatim>\<open>checked_add\<close>,
  \<^verbatim>\<open>Formatter\<close> output of integers), byte-addressed physical memory with little-endian
  access, and the lemmas on words, alignment and decimal digits that several components use.
  The kernel is built with \<^verbatim>\<open>cargo build --release\<close>, so plain arithmetic wraps around:
  it is the arithmetic of \<^typ>\<open>'a::len word\<close>.
\<close>

unbundle bit_operations_syntax

named_theorems word_defs \<open>definitions of the word arithmetic of the standard library\<close>
named_theorems mem_simps \<open>reading memory after writing it\<close>

section \<open>Machine types\<close>

type_synonym u8 = "8 word"
type_synonym u16 = "16 word"
type_synonym u32 = "32 word"
type_synonym u64 = "64 word"
type_synonym usize = "64 word"
type_synonym i32 = "32 word"
type_synonym bytes = "8 word list"
type_synonym mem = "64 word \<Rightarrow> 8 word"

section \<open>Integer arithmetic of the standard library\<close>

definition saturating_add :: "'a::len word \<Rightarrow> 'a word \<Rightarrow> 'a word" where
  [word_defs]: "saturating_add a b = (if unat a + unat b < 2 ^ LENGTH('a) then a + b else - 1)"

definition saturating_sub :: "'a::len word \<Rightarrow> 'a word \<Rightarrow> 'a word" where
  [word_defs]: "saturating_sub a b = (if b \<le> a then a - b else 0)"

definition saturating_mul :: "'a::len word \<Rightarrow> 'a word \<Rightarrow> 'a word" where
  [word_defs]: "saturating_mul a b = (if unat a * unat b < 2 ^ LENGTH('a) then a * b else - 1)"

definition checked_add :: "'a::len word \<Rightarrow> 'a word \<Rightarrow> 'a word option" where
  [word_defs]: "checked_add a b = (if unat a + unat b < 2 ^ LENGTH('a) then Some (a + b) else None)"

section \<open>Byte strings and number formatting\<close>

definition str_bytes :: "string \<Rightarrow> bytes" where
  "str_bytes s = map of_char s"

definition CRLF :: bytes where
  "CRLF = [13, 10]"

fun dec_digits :: "nat \<Rightarrow> bytes" where
  "dec_digits n = (if n < 10 then [48 + of_nat n] else dec_digits (n div 10) @ [48 + of_nat (n mod 10)])"

definition hex_digit :: "nat \<Rightarrow> u8" where
  "hex_digit d = (if d < 10 then 48 + of_nat d else 87 + of_nat d)"

fun hex_digits :: "nat \<Rightarrow> bytes" where
  "hex_digits n = (if n < 16 then [hex_digit n] else hex_digits (n div 16) @ [hex_digit (n mod 16)])"

declare dec_digits.simps [simp del] hex_digits.simps [simp del]

definition zero_pad :: "nat \<Rightarrow> bytes \<Rightarrow> bytes" where
  "zero_pad w bs = replicate (w - length bs) 48 @ bs"

definition fmt_dec :: "'a::len word \<Rightarrow> bytes" where
  "fmt_dec v = dec_digits (unat v)"

definition fmt_hex :: "nat \<Rightarrow> 'a::len word \<Rightarrow> bytes" where
  "fmt_hex w v = zero_pad w (hex_digits (unat v))"

definition fmt_alt_hex :: "nat \<Rightarrow> 'a::len word \<Rightarrow> bytes" where
  "fmt_alt_hex w v = str_bytes ''0x'' @ zero_pad (w - 2) (hex_digits (unat v))"

definition encode_utf8 :: "u32 \<Rightarrow> bytes" where
  "encode_utf8 c =
     (if c < 0x80 then [ucast c]
      else if c < 0x800 then [0xC0 OR ucast (drop_bit 6 c), 0x80 OR ucast (c AND 0x3F)]
      else if c < 0x10000 then
        [0xE0 OR ucast (drop_bit 12 c), 0x80 OR ucast (drop_bit 6 c AND 0x3F), 0x80 OR ucast (c AND 0x3F)]
      else
        [0xF0 OR ucast (drop_bit 18 c), 0x80 OR ucast (drop_bit 12 c AND 0x3F),
         0x80 OR ucast (drop_bit 6 c AND 0x3F), 0x80 OR ucast (c AND 0x3F)])"

section \<open>Physical memory\<close>

definition read_bytes :: "mem \<Rightarrow> u64 \<Rightarrow> nat \<Rightarrow> bytes" where
  "read_bytes m a n = map (\<lambda>i. m (a + of_nat i)) [0..<n]"

definition write_bytes :: "mem \<Rightarrow> u64 \<Rightarrow> bytes \<Rightarrow> mem" where
  "write_bytes m a bs = (\<lambda>x. if unat (x - a) < length bs then bs ! unat (x - a) else m x)"

definition le_word :: "bytes \<Rightarrow> 'a::len word" where
  "le_word bs = foldr (\<lambda>b acc. ucast b OR push_bit 8 acc) bs 0"

definition word_le :: "nat \<Rightarrow> 'a::len word \<Rightarrow> bytes" where
  "word_le n w = map (\<lambda>i. ucast (drop_bit (8 * i) w)) [0..<n]"

definition region :: "u64 \<Rightarrow> nat \<Rightarrow> u64 set" where
  "region a n = {x. unat (x - a) < n}"

section \<open>Facts on the arithmetic\<close>

lemma unat_saturating_add:
  "unat (saturating_add a b :: 'a::len word) = min (unat a + unat b) (2 ^ LENGTH('a) - 1)"
  by (auto simp: saturating_add_def unat_word_ariths unsigned_minus_1_eq_mask mask_eq_exp_minus_1)

lemma unat_saturating_mul:
  "unat (saturating_mul a b :: 'a::len word) = min (unat a * unat b) (2 ^ LENGTH('a) - 1)"
  by (auto simp: saturating_mul_def unat_word_ariths unsigned_minus_1_eq_mask mask_eq_exp_minus_1)

lemma unat_saturating_sub: "unat (saturating_sub a b) = unat a - unat b"
  by (auto simp: saturating_sub_def unat_sub word_le_nat_alt)

lemma checked_add_SomeD:
  "checked_add a b = Some c \<Longrightarrow> unat c = unat a + unat b"
  by (auto simp: checked_add_def unat_word_ariths split: if_splits)

lemma checked_add_None_iff:
  "checked_add a b = None \<longleftrightarrow> 2 ^ LENGTH('a) \<le> unat a + unat (b :: 'a::len word)"
  by (auto simp: checked_add_def)

text \<open>Widening keeps the value.\<close>

lemma unat_ucast_u8: "unat (ucast (x :: u8) :: u64) = unat x"
  by (simp add: unsigned_ucast_eq take_bit_nat_eq_self_iff less_le_trans [OF unsigned_less])

lemma unat_ucast_u16: "unat (ucast (x :: u16) :: u64) = unat x" "unat (x :: u16) \<le> 65535"
  using unsigned_less [of x, where ?'a = nat] by (simp_all add: unsigned_ucast_eq take_bit_nat_eq_self)

lemma unat_ucast_u32: "unat (ucast (x :: u32) :: u64) = unat x" "unat (x :: u32) < 2 ^ 32"
  using unsigned_less [of x, where ?'a = nat] by (simp_all add: unsigned_ucast_eq take_bit_nat_eq_self)

lemma unat_of_nat_u64: "n < 2 ^ 64 \<Longrightarrow> unat (of_nat n :: u64) = n"
  by (simp only: unat_of_nat) (simp add: take_bit_nat_eq_self)

lemma unat_add_no_wrap:
  "unat a + unat b < 2 ^ LENGTH('a) \<Longrightarrow> unat (a + b :: 'a::len word) = unat a + unat b"
  by (simp add: unat_word_ariths)

lemma unat_of_char_u8: "unat (of_char ch :: u8) = of_char ch"
  unfolding of_nat_of_char [symmetric, where ?'a = "8 word"] unat_of_nat by simp

lemma of_char_u8_eq_iff: "(of_char ch :: u8) = of_char d \<longleftrightarrow> ch = d"
  by (simp add: word_unat_eq_iff unat_of_char_u8)

text \<open>A fact on one byte can be checked on all 256 values.\<close>

lemma u8_exhaust:
  assumes "list_all (\<lambda>n. P (of_nat n)) [0..<256]"
  shows "P (x :: u8)"
proof -
  have "unat x < 256" using unsigned_less [of x] by simp
  then have "P (of_nat (unat x))" by (intro assms [unfolded list_all_iff, THEN bspec]) simp
  then show ?thesis by simp
qed

section \<open>Powers of two and masks\<close>

lemma pow2_of_and_pred:
  fixes a :: "'a::len word"
  assumes "a \<noteq> 0" and "a AND (a - 1) = 0"
  shows "\<exists>n < LENGTH('a). a = 2 ^ n"
proof -
  let ?x = "unat a"
  have pos: "0 < ?x" using assms(1) by (simp add: unat_gt_0)
  obtain n where n: "2 ^ n \<le> ?x" "?x < 2 ^ Suc n"
    using ex_power_ivl1 [of 2 ?x] pos by auto
  have nl: "n < LENGTH('a)"
  proof (rule ccontr)
    assume "\<not> n < LENGTH('a)"
    then have "(2::nat) ^ LENGTH('a) \<le> 2 ^ n" by simp
    with n(1) unsigned_less [of a] show False by (meson le_trans not_le)
  qed
  have pred: "unat (a - 1) = ?x - 1"
    using assms(1) by (simp add: unat_minus_one)
  have "?x = 2 ^ n"
  proof (rule ccontr)
    assume "?x \<noteq> 2 ^ n"
    with n have r: "2 ^ n \<le> ?x - 1" "?x - 1 < 2 ^ Suc n" by auto
    have one: "y div 2 ^ n = 1" if "2 ^ n \<le> y" "y < 2 ^ Suc n" for y :: nat
      using that by (simp add: div_nat_eqI)
    have "bit ?x n" and "bit (unat (a - 1)) n"
      using one [OF n] one [OF r] by (simp_all add: bit_iff_odd pred)
    then have "bit (a AND (a - 1)) n"
      by (simp add: bit_and_iff bit_unsigned_iff)
    with assms(2) show False by simp
  qed
  then have "a = of_nat (2 ^ n)" by (metis of_nat_unat ucast_id)
  with nl show ?thesis by auto
qed

lemma unat_pow2: "n < LENGTH('a) \<Longrightarrow> unat (2 ^ n :: 'a::len word) = 2 ^ n"
  using unat_of_nat [of "2 ^ n", where ?'a = 'a] by (simp add: take_bit_nat_eq_self)

lemma and_not_mask_unat:
  "unat (w AND NOT (mask n) :: 'a::len word) = unat w div 2 ^ n * 2 ^ n"
proof -
  have "w AND NOT (mask n) = push_bit n (drop_bit n w)"
    by (rule bit_word_eqI) (auto simp: bit_simps)
  also have "unat \<dots> = take_bit LENGTH('a) (unat w div 2 ^ n * 2 ^ n)"
    by (simp only: unsigned_push_bit_eq unat_drop_bit_eq) (simp only: push_bit_eq_mult drop_bit_eq_div)
  also have "\<dots> = unat w div 2 ^ n * 2 ^ n"
    by (rule take_bit_nat_eq_self) (meson div_times_less_eq_dividend le_less_trans unsigned_less)
  finally show ?thesis .
qed

section \<open>Checked array access\<close>

text \<open>An index out of range panics: \<open>None\<close>. A loop whose body may panic is \<open>foldM\<close>.\<close>

definition array_get :: "'a list \<Rightarrow> nat \<Rightarrow> 'a option" where
  "array_get xs i = (if i < length xs then Some (xs ! i) else None)"

definition array_set :: "nat \<Rightarrow> 'a \<Rightarrow> 'a list \<Rightarrow> 'a list option" where
  "array_set i v xs = (if i < length xs then Some (xs[i := v]) else None)"

fun foldM :: "('x \<Rightarrow> 's \<Rightarrow> 's option) \<Rightarrow> 'x list \<Rightarrow> 's \<Rightarrow> 's option" where
  "foldM f [] s = Some s"
| "foldM f (x # xs) s = Option.bind (f x s) (foldM f xs)"

lemma foldM_append: "foldM f (xs @ ys) s = Option.bind (foldM f xs s) (foldM f ys)"
  by (induction xs arbitrary: s) (simp_all, metis bind_assoc)

lemma foldM_fold: "(\<And>x s. x \<in> set xs \<Longrightarrow> f x s = Some (g x s)) \<Longrightarrow> foldM f xs s = Some (fold g xs s)"
  by (induction xs arbitrary: s) simp_all

lemma foldM_cong: "(\<And>x s. x \<in> set xs \<Longrightarrow> f x s = g x s) \<Longrightarrow> foldM f xs s = foldM g xs s"
  by (induction xs arbitrary: s) (simp_all cong: Option.bind_cong)

text \<open>A loop that stores \<open>f i\<close> at every index below \<open>n\<close>.\<close>

lemma foldM_array_set:
  "n \<le> length xs \<Longrightarrow> foldM (\<lambda>i. array_set i (f i)) [0..<n] xs = Some (map f [0..<n] @ drop n xs)"
proof (induction n)
  case (Suc n)
  then have "foldM (\<lambda>i. array_set i (f i)) [0..<n] xs = Some (map f [0..<n] @ drop n xs)" by simp
  moreover have "drop n xs = xs ! n # drop (Suc n) xs" using Suc.prems by (simp add: Cons_nth_drop_Suc)
  moreover have "array_set n (f n) (map f [0..<n] @ xs ! n # drop (Suc n) xs) = Some (map f [0..<n] @ f n # drop (Suc n) xs)"
    by (simp add: array_set_def list_update_append)
  ultimately show ?case by (simp add: foldM_append)
qed simp

section \<open>Operations that keep an invariant and respect a frame\<close>

text \<open>
  The contract most components have: an operation started in a well-formed state ends in one and
  changes only what its frame relation allows. It composes, so it is proved once per operation and
  carried to every caller and to every sequence of calls.
\<close>

definition keeps :: "('s \<Rightarrow> bool) \<Rightarrow> ('s \<Rightarrow> 's \<Rightarrow> bool) \<Rightarrow> ('s \<Rightarrow> 's) \<Rightarrow> bool" where
  "keeps ok frame f \<longleftrightarrow> (\<forall>s. ok s \<longrightarrow> ok (f s) \<and> frame s (f s))"

lemma keepsI: "(\<And>s. ok s \<Longrightarrow> ok (f s)) \<Longrightarrow> (\<And>s. ok s \<Longrightarrow> frame s (f s)) \<Longrightarrow> keeps ok frame f"
  by (simp add: keeps_def)

lemma keepsD: "keeps ok frame f \<Longrightarrow> ok s \<Longrightarrow> ok (f s)" "keeps ok frame f \<Longrightarrow> ok s \<Longrightarrow> frame s (f s)"
  by (simp_all add: keeps_def)

locale framed_ops =
  fixes ok :: "'s \<Rightarrow> bool" and frame :: "'s \<Rightarrow> 's \<Rightarrow> bool"
  assumes frame_refl: "frame s s"
    and frame_trans: "frame s t \<Longrightarrow> frame t u \<Longrightarrow> frame s u"
begin

lemma keeps_id: "keeps ok frame (\<lambda>s. s)"
  by (simp add: keeps_def frame_refl)

lemma keeps_comp: "keeps ok frame f \<Longrightarrow> keeps ok frame g \<Longrightarrow> keeps ok frame (\<lambda>s. f (g s))"
  unfolding keeps_def by (meson frame_trans)

lemma keeps_if:
  "keeps ok frame f \<Longrightarrow> keeps ok frame g \<Longrightarrow> keeps ok frame (\<lambda>s. if P s then f s else g s)"
  by (simp add: keeps_def)

lemma keeps_fold: "(\<And>x. x \<in> set xs \<Longrightarrow> keeps ok frame (f x)) \<Longrightarrow> keeps ok frame (fold f xs)"
proof (induction xs)
  case Nil
  then show ?case using keeps_id by (simp add: keeps_def)
next
  case (Cons x xs)
  then show ?case using keeps_comp [of "fold f xs" "f x"] by (simp add: comp_def)
qed

end

section \<open>Bounded queues\<close>

text \<open>
  The contract of a bounded first-in first-out queue: its abstraction is a list of at most \<open>cap\<close>
  elements; an insertion appends unless the queue is full, a removal takes the first element. Over
  any sequence of operations the elements taken out, followed by those still inside, are the
  initial contents followed by the accepted insertions.
\<close>

datatype 'a queue_op = Push 'a | Pop

fun queue_run :: "('a \<Rightarrow> 'q \<Rightarrow> 'q) \<Rightarrow> ('q \<Rightarrow> 'a option \<times> 'q) \<Rightarrow> ('q \<Rightarrow> bool) \<Rightarrow> 'a queue_op list \<Rightarrow> 'q \<Rightarrow>
    'a list \<times> 'a list \<times> 'q" where
  "queue_run push pop full [] q = ([], [], q)"
| "queue_run push pop full (Push x # xs) q =
     (let (acc, out, q') = queue_run push pop full xs (push x q)
      in (if full q then acc else x # acc, out, q'))"
| "queue_run push pop full (Pop # xs) q =
     (let (r, q1) = pop q; (acc, out, q') = queue_run push pop full xs q1
      in (acc, (case r of None \<Rightarrow> out | Some x \<Rightarrow> x # out), q'))"

locale bounded_queue =
  fixes push :: "'a \<Rightarrow> 'q \<Rightarrow> 'q"
    and pop :: "'q \<Rightarrow> 'a option \<times> 'q"
    and full :: "'q \<Rightarrow> bool"
    and items :: "'q \<Rightarrow> 'a list"
    and good :: "'q \<Rightarrow> bool"
    and cap :: nat
  assumes items_cap: "good q \<Longrightarrow> length (items q) \<le> cap"
    and full_iff: "good q \<Longrightarrow> full q \<longleftrightarrow> length (items q) = cap"
    and push_items: "good q \<Longrightarrow> items (push x q) = (if full q then items q else items q @ [x])"
    and push_good: "good q \<Longrightarrow> good (push x q)"
    and pop_items: "good q \<Longrightarrow>
      (case pop q of (None, q') \<Rightarrow> items q = [] \<and> q' = q | (Some x, q') \<Rightarrow> items q = x # items q' \<and> good q')"
begin

lemma run_fifo:
  "good q \<Longrightarrow> queue_run push pop full ops q = (acc, out, q') \<Longrightarrow> good q' \<and> out @ items q' = items q @ acc"
proof (induction ops arbitrary: q acc out)
  case Nil
  then show ?case by simp
next
  case (Cons opn ops)
  show ?case
  proof (cases opn)
    case (Push x)
    obtain a o' where rest: "queue_run push pop full ops (push x q) = (a, o', q')"
      and r: "acc = (if full q then a else x # a)" "out = o'"
      using Cons.prems(2) Push by (auto split: prod.splits)
    from Cons.IH [OF push_good [OF Cons.prems(1)] rest] Cons.prems(1) r push_items show ?thesis by auto
  next
    case Pop
    obtain r q1 where p: "pop q = (r, q1)" by (cases "pop q")
    obtain a o' where rest: "queue_run push pop full ops q1 = (a, o', q')"
      and o: "acc = a" "out = (case r of None \<Rightarrow> o' | Some x \<Rightarrow> x # o')"
      using Cons.prems(2) Pop p by (auto split: prod.splits)
    have "good q1" using pop_items [OF Cons.prems(1)] Cons.prems(1) p by (auto split: option.splits)
    from Cons.IH [OF this rest] pop_items [OF Cons.prems(1)] p o show ?thesis by (auto split: option.splits)
  qed
qed

end

end
