(* ===== verification/Xhci_Ring.thy ===== *)
theory Xhci_Ring
  imports Kernel_Prelude
begin

text \<open>
  Transfer request blocks and the rings of \<^verbatim>\<open>kernel/src/xhci.rs\<close>. A ring is an array of 16-byte
  blocks in physical memory whose last block links back to the first; the producer stamps each
  block with its cycle bit and flips the bit when it wraps. The consumer's side of the protocol is
  stated here as the reference: a block belongs to the consumer when its cycle bit equals the
  consumer's, and a link block with the toggle flag flips the consumer's bit.
\<close>

section \<open>Transfer request blocks in memory\<close>

record Trb =
  parameter :: u64
  status :: u32
  control :: u32

definition Trb_default :: Trb where
  "Trb_default = \<lparr>parameter = 0, status = 0, control = 0\<rparr>"

definition TRB_SIZE :: nat where
  "TRB_SIZE = 16"

definition TRB_TYPE_LINK :: u32 where "TRB_TYPE_LINK = 6"
definition TRB_TYPE_COMMAND_COMPLETION :: u8 where "TRB_TYPE_COMMAND_COMPLETION = 0x21"
definition TRB_TYPE_TRANSFER_EVENT :: u8 where "TRB_TYPE_TRANSFER_EVENT = 0x20"
definition TRB_TYPE_PORT_STATUS_CHANGE :: u8 where "TRB_TYPE_PORT_STATUS_CHANGE = 0x22"
definition TRB_TYPE_NO_OP_COMMAND :: u32 where "TRB_TYPE_NO_OP_COMMAND = 23"
definition TRB_TYPE_NORMAL :: u32 where "TRB_TYPE_NORMAL = 1"
definition TRB_TYPE_CONFIGURE_ENDPOINT :: u32 where "TRB_TYPE_CONFIGURE_ENDPOINT = 12"
definition TRB_TYPE_ENABLE_SLOT :: u32 where "TRB_TYPE_ENABLE_SLOT = 9"
definition TRB_TYPE_ADDRESS_DEVICE :: u32 where "TRB_TYPE_ADDRESS_DEVICE = 11"
definition TRB_TYPE_SETUP_STAGE :: u32 where "TRB_TYPE_SETUP_STAGE = 2"
definition TRB_TYPE_DATA_STAGE :: u32 where "TRB_TYPE_DATA_STAGE = 3"
definition TRB_TYPE_STATUS_STAGE :: u32 where "TRB_TYPE_STATUS_STAGE = 4"

definition trb_bytes :: "Trb \<Rightarrow> bytes" where
  "trb_bytes t = word_le 8 (parameter t) @ word_le 4 (status t) @ word_le 4 (control t)"

definition trb_addr :: "u64 \<Rightarrow> nat \<Rightarrow> u64" where
  "trb_addr phys i = phys + of_nat (TRB_SIZE * i)"

definition write_trb :: "u64 \<Rightarrow> nat \<Rightarrow> Trb \<Rightarrow> mem \<Rightarrow> mem" where
  "write_trb phys i t m = write_bytes m (trb_addr phys i) (trb_bytes t)"

definition read_trb :: "mem \<Rightarrow> u64 \<Rightarrow> nat \<Rightarrow> Trb" where
  "read_trb m phys i =
     \<lparr>parameter = le_word (read_bytes m (trb_addr phys i) 8),
      status = le_word (read_bytes m (trb_addr phys i + 8) 4),
      control = le_word (read_bytes m (trb_addr phys i + 12) 4)\<rparr>"

text \<open>Zeroing a ring and its link block; \<open>entries\<close> is the length of the slice.\<close>

definition zero_trbs :: "u64 \<Rightarrow> nat \<Rightarrow> mem \<Rightarrow> mem" where
  "zero_trbs phys entries m = fold (\<lambda>i. write_trb phys i Trb_default) [0..<entries] m"

definition link_control :: "bool \<Rightarrow> u32" where
  "link_control toggle =
     (let control = push_bit 10 (TRB_TYPE_LINK AND 0x3F) OR 1
      in if toggle then control OR push_bit 1 1 else control)"

definition init_link_trb :: "u64 \<Rightarrow> nat \<Rightarrow> u64 \<Rightarrow> bool \<Rightarrow> mem \<Rightarrow> mem" where
  "init_link_trb phys entries base_phys toggle m =
     (if entries = 0 then m
      else
        (let link = read_trb m phys (entries - 1)
         in write_trb phys (entries - 1) (link\<lparr>parameter := base_phys, control := link_control toggle\<rparr>) m))"

definition command_control :: "u32 \<Rightarrow> bool \<Rightarrow> u32" where
  "command_control trb_type cycle =
     push_bit 10 (trb_type AND 0x3F) OR push_bit 5 1 OR (if cycle then 1 else 0)"

definition advance :: "nat \<Rightarrow> bool \<Rightarrow> nat \<Rightarrow> nat \<times> bool" where
  "advance idx cycle usable =
     (let n = (idx + 1) mod usable in (n, if n = 0 then \<not> cycle else cycle))"

section \<open>The ring over a borrowed slice\<close>

record CommandRing =
  trbs :: "Trb list"
  enqueue :: nat
  cycle_state :: bool

definition CommandRing_new :: "Trb list \<Rightarrow> CommandRing" where
  "CommandRing_new buffer = \<lparr>trbs = buffer, enqueue = 0, cycle_state = True\<rparr>"

text \<open>\<open>None\<close> is the panic of a remainder by zero on an empty slice.\<close>

definition enqueue_slot :: "Trb \<Rightarrow> CommandRing \<Rightarrow> CommandRing option" where
  "enqueue_slot t r =
     (let len = length (trbs r)
      in if len = 0 then None
         else
           (let index = enqueue r mod len
            in Option.bind (array_set index t (trbs r))
                 (\<lambda>ts. (let e = (enqueue r + 1) mod len
                        in Some (r\<lparr>trbs := ts, enqueue := e, cycle_state := (if e = 0 then \<not> cycle_state r else cycle_state r)\<rparr>)))))"

section \<open>Producer and consumer\<close>

text \<open>
  Every enqueue function of the driver stores at the enqueue index modulo the number of usable
  blocks (the last one is the link) and advances.
\<close>

definition ring_put :: "u64 \<Rightarrow> nat \<Rightarrow> nat \<Rightarrow> bool \<Rightarrow> Trb \<Rightarrow> mem \<Rightarrow> mem \<times> nat \<times> bool" where
  "ring_put phys len enq cycle t m =
     (let usable = len - 1; index = enq mod usable
      in (write_trb phys index t m, advance enq cycle usable))"

section \<open>Rings as lists\<close>

definition ring_trbs :: "mem \<Rightarrow> u64 \<Rightarrow> nat \<Rightarrow> Trb list" where
  "ring_trbs m phys len = map (read_trb m phys) [0..<len]"

definition cycle_bit :: "Trb \<Rightarrow> bool" where
  "cycle_bit t \<longleftrightarrow> bit (control t) 0"

definition trb_type :: "Trb \<Rightarrow> u32" where
  "trb_type t = drop_bit 10 (control t) AND 0x3F"

definition toggle_bit :: "Trb \<Rightarrow> bool" where
  "toggle_bit t \<longleftrightarrow> bit (control t) 1"

lemma length_word_le [simp]: "length (word_le n w) = n"
  by (simp add: word_le_def)

lemma length_trb_bytes [simp]: "length (trb_bytes t) = 16"
  by (simp add: trb_bytes_def)

lemma word_le_Suc: "word_le (Suc n) w = ucast w # word_le n (drop_bit 8 w)"
proof -
  have "[0..<Suc n] = 0 # map Suc [0..<n]" by (simp add: upt_conv_Cons map_Suc_upt)
  then show ?thesis by (simp add: word_le_def add.commute)
qed

lemma le_word_word_le: "le_word (word_le n w) = take_bit (8 * n) (w :: 'a::len word)"
proof (induction n arbitrary: w)
  case 0
  then show ?case by (simp add: le_word_def word_le_def)
next
  case (Suc n)
  have "le_word (word_le (Suc n) w) = (ucast (ucast w :: u8) :: 'a word) OR push_bit 8 (take_bit (8 * n) (drop_bit 8 w))"
    using Suc [of "drop_bit 8 w"] by (simp add: word_le_Suc le_word_def)
  also have "\<dots> = take_bit (8 * Suc n) w"
  proof (rule bit_word_eqI)
    fix k assume "k < LENGTH('a)"
    then show "bit ((ucast (ucast w :: u8) :: 'a word) OR push_bit 8 (take_bit (8 * n) (drop_bit 8 w))) k \<longleftrightarrow>
        bit (take_bit (8 * Suc n) w) k"
      by (cases "k < 8") (auto simp: bit_or_iff bit_unsigned_iff bit_push_bit_iff bit_take_bit_iff bit_drop_bit_eq)
  qed
  finally show ?case .
qed

lemma word_le_u32: "le_word (word_le 4 w) = (w :: u32)"
  using take_bit_word_eq_self [of 32 w] by (simp add: le_word_word_le)

lemma word_le_u64: "le_word (word_le 8 w) = (w :: u64)"
  using take_bit_word_eq_self [of 64 w] by (simp add: le_word_word_le)

section \<open>Writing a block changes that block only\<close>

lemma read_written_byte:
  assumes "n < 2 ^ 64" "k < n" "length bs = n"
  shows "write_bytes m a bs (a + of_nat k) = bs ! k"
  using assms by (simp add: write_bytes_def unat_of_nat)

lemma read_other_byte: "x \<notin> region a (length bs) \<Longrightarrow> write_bytes m a bs x = m x"
  by (simp add: write_bytes_def region_def)

lemma read_bytes_write_same:
  assumes "length bs < 2 ^ 64" "k + n \<le> length bs"
  shows "read_bytes (write_bytes m a bs) (a + of_nat k) n = take n (drop k bs)"
proof (rule nth_equalityI)
  show "length (read_bytes (write_bytes m a bs) (a + of_nat k) n) = length (take n (drop k bs))"
    using assms by (simp add: read_bytes_def)
  fix i assume "i < length (read_bytes (write_bytes m a bs) (a + of_nat k) n)"
  then have i: "i < n" by (simp add: read_bytes_def)
  have "write_bytes m a bs (a + of_nat k + of_nat i) = bs ! (k + i)"
    using read_written_byte [of "length bs" "k + i" bs m a] assms i by (simp add: add.assoc)
  then show "read_bytes (write_bytes m a bs) (a + of_nat k) n ! i = take n (drop k bs) ! i"
    using i assms by (simp add: read_bytes_def)
qed

lemma read_trb_write_same: "read_trb (write_trb phys i t m) phys i = t"
proof -
  let ?b = "trb_bytes t"
  have r: "read_bytes (write_trb phys i t m) (trb_addr phys i + of_nat k) n = take n (drop k ?b)" if "k + n \<le> 16" for k n
    using read_bytes_write_same [of ?b k n m "trb_addr phys i"] that by (simp add: write_trb_def)
  show ?thesis
    using r [of 0 8] r [of 8 4] r [of 12 4] by (simp add: read_trb_def trb_bytes_def word_le_u32 word_le_u64)
qed

lemma trb_regions_disjoint:
  assumes "i \<noteq> j" "i < n" "j < n" "n \<le> 2 ^ 32"
  shows "region (trb_addr phys i) 16 \<inter> region (trb_addr phys j) 16 = {}"
proof -
  have False if "i < j" "j < n" "unat (x - trb_addr phys i) < 16" "unat (x - trb_addr phys j) < 16" for i j :: nat and x
  proof -
    have "x - trb_addr phys i = (x - trb_addr phys j) + of_nat (16 * (j - i))"
      using that(1) by (simp add: trb_addr_def TRB_SIZE_def of_nat_diff algebra_simps)
    moreover have "16 * (j - i) < 2 ^ 36" using that(1,2) assms(4) by simp
    moreover from this have "unat (of_nat (16 * (j - i)) :: u64) = 16 * (j - i)"
      by (simp only: unat_of_nat) simp
    ultimately have "unat (x - trb_addr phys i) = unat (x - trb_addr phys j) + 16 * (j - i)"
      using that(4) unat_add_no_wrap [of "x - trb_addr phys j" "of_nat (16 * (j - i))"] by (simp only:) simp
    then show False using that(1,3) by simp
  qed
  note lt = this
  show ?thesis
  proof (rule ccontr)
    assume "region (trb_addr phys i) 16 \<inter> region (trb_addr phys j) 16 \<noteq> {}"
    then obtain x where "unat (x - trb_addr phys i) < 16" "unat (x - trb_addr phys j) < 16"
      by (auto simp: region_def)
    with lt [of i j x] lt [of j i x] assms(1-3) show False by (cases "i < j") auto
  qed
qed

lemma read_trb_cong: "(\<And>x. x \<in> region (trb_addr phys i) 16 \<Longrightarrow> m x = m' x) \<Longrightarrow> read_trb m phys i = read_trb m' phys i"
proof -
  assume a: "\<And>x. x \<in> region (trb_addr phys i) 16 \<Longrightarrow> m x = m' x"
  have "read_bytes m (trb_addr phys i + of_nat k) n = read_bytes m' (trb_addr phys i + of_nat k) n" if "k + n \<le> 16" for k n
  proof -
    have "m (trb_addr phys i + of_nat k + of_nat j) = m' (trb_addr phys i + of_nat k + of_nat j)" if "j < n" for j
    proof (rule a)
      have "unat (of_nat (k + j) :: u64) = k + j" using \<open>k + n \<le> 16\<close> \<open>j < n\<close> by (simp only: unat_of_nat) simp
      then show "trb_addr phys i + of_nat k + of_nat j \<in> region (trb_addr phys i) 16"
        using \<open>k + n \<le> 16\<close> \<open>j < n\<close> by (simp add: region_def add.assoc)
    qed
    then show ?thesis by (simp add: read_bytes_def)
  qed
  from this [of 0 8] this [of 8 4] this [of 12 4] show ?thesis by (simp add: read_trb_def)
qed

lemma ring_trbs_write:
  assumes "i < len" "len \<le> 2 ^ 32"
  shows "ring_trbs (write_trb phys i t m) phys len = (ring_trbs m phys len)[i := t]"
proof (rule nth_equalityI)
  fix j assume "j < length (ring_trbs (write_trb phys i t m) phys len)"
  then have j: "j < len" by (simp add: ring_trbs_def)
  show "ring_trbs (write_trb phys i t m) phys len ! j = (ring_trbs m phys len)[i := t] ! j"
  proof (cases "j = i")
    case True
    then show ?thesis using j by (simp add: ring_trbs_def read_trb_write_same)
  next
    case False
    have "read_trb (write_trb phys i t m) phys j = read_trb m phys j"
    proof (rule read_trb_cong)
      fix x assume "x \<in> region (trb_addr phys j) 16"
      then have "x \<notin> region (trb_addr phys i) (length (trb_bytes t))"
        using trb_regions_disjoint [of i j len phys] False j assms by auto
      then show "write_trb phys i t m x = m x" by (simp add: write_trb_def read_other_byte)
    qed
    then show ?thesis using j False by (simp add: ring_trbs_def)
  qed
qed (simp add: ring_trbs_def)

lemma length_ring_trbs [simp]: "length (ring_trbs m phys len) = len"
  by (simp add: ring_trbs_def)

lemma ring_trbs_zero:
  assumes "len \<le> 2 ^ 32"
  shows "ring_trbs (zero_trbs phys len m) phys len = replicate len Trb_default"
proof -
  have "ring_trbs (fold (\<lambda>i. write_trb phys i Trb_default) [0..<k] m) phys len =
      replicate k Trb_default @ drop k (ring_trbs m phys len)" if "k \<le> len" for k
    using that
  proof (induction k)
    case (Suc k)
    then have "drop k (ring_trbs m phys len) = ring_trbs m phys len ! k # drop (Suc k) (ring_trbs m phys len)"
      by (simp add: Cons_nth_drop_Suc)
    with Suc show ?case
      using ring_trbs_write [of k len phys Trb_default] assms by (simp add: list_update_append replicate_app_Cons_same)
  qed simp
  from this [of len] show ?thesis by (simp add: zero_trbs_def)
qed

lemma ring_trbs_init:
  assumes "0 < len" "len \<le> 2 ^ 32"
  shows "ring_trbs (init_link_trb phys len phys True (zero_trbs phys len m)) phys len =
    replicate (len - 1) Trb_default @ [\<lparr>parameter = phys, status = 0, control = link_control True\<rparr>]"
proof -
  let ?m = "zero_trbs phys len m"
  have "read_trb ?m phys (len - 1) = ring_trbs ?m phys len ! (len - 1)" using assms by (simp add: ring_trbs_def)
  then have "read_trb ?m phys (len - 1) = Trb_default" using assms by (simp add: ring_trbs_zero)
  then have "ring_trbs (init_link_trb phys len phys True ?m) phys len =
      (replicate len Trb_default)[len - 1 := \<lparr>parameter = phys, status = 0, control = link_control True\<rparr>]"
    using assms ring_trbs_write [of "len - 1" len phys] by (simp add: init_link_trb_def Let_def ring_trbs_zero Trb_default_def)
  also have "\<dots> = replicate (len - 1) Trb_default @ [\<lparr>parameter = phys, status = 0, control = link_control True\<rparr>]"
  proof -
    obtain k where "len = Suc k" using assms(1) by (cases len) auto
    moreover have "replicate (Suc k) Trb_default = replicate k Trb_default @ [Trb_default]"
      by (simp add: replicate_append_same)
    ultimately show ?thesis by (simp only: diff_Suc_1 list_update_append) simp
  qed
  finally show ?thesis .
qed

section \<open>The ring protocol\<close>

text \<open>
  A ring shared by the driver and a consumer that follows the cycle bits. The driver stamps a block
  with its current cycle bit and stores it whether or not the consumer has taken the block that was
  there: none of the enqueue functions looks at the consumer's position. The two sides run in any
  order. A run is paced when the consumer never falls more than one lap of usable blocks behind.
\<close>

record ring_sys =
  r_mem :: mem
  r_enq :: nat
  r_cycle :: bool
  r_deq :: nat
  r_ccs :: bool
  produced :: "Trb list"
  consumed :: "Trb list"

definition ring_start :: "u64 \<Rightarrow> nat \<Rightarrow> mem \<Rightarrow> ring_sys" where
  "ring_start phys len m =
     \<lparr>r_mem = init_link_trb phys len phys True (zero_trbs phys len m), r_enq = 0, r_cycle = True,
      r_deq = 0, r_ccs = True, produced = [], consumed = []\<rparr>"

inductive ring_step :: "u64 \<Rightarrow> nat \<Rightarrow> ring_sys \<Rightarrow> ring_sys \<Rightarrow> bool" for phys len where
  produce: "cycle_bit t = r_cycle s \<Longrightarrow> trb_type t \<noteq> TRB_TYPE_LINK \<Longrightarrow>
     ring_put phys len (r_enq s) (r_cycle s) t (r_mem s) = (m', e, c) \<Longrightarrow>
     ring_step phys len s (s\<lparr>r_mem := m', r_enq := e, r_cycle := c, produced := produced s @ [t]\<rparr>)"
| consume: "t = read_trb (r_mem s) phys (r_deq s) \<Longrightarrow> cycle_bit t = r_ccs s \<Longrightarrow> trb_type t \<noteq> TRB_TYPE_LINK \<Longrightarrow>
     ring_step phys len s (s\<lparr>r_deq := r_deq s + 1, consumed := consumed s @ [t]\<rparr>)"
| follow_link: "t = read_trb (r_mem s) phys (r_deq s) \<Longrightarrow> cycle_bit t = r_ccs s \<Longrightarrow> trb_type t = TRB_TYPE_LINK \<Longrightarrow>
     ring_step phys len s (s\<lparr>r_deq := 0, r_ccs := (if toggle_bit t then \<not> r_ccs s else r_ccs s)\<rparr>)"

inductive ring_reach :: "u64 \<Rightarrow> nat \<Rightarrow> ring_sys \<Rightarrow> ring_sys \<Rightarrow> bool" for phys len where
  stay: "ring_reach phys len s s"
| run: "ring_reach phys len s t \<Longrightarrow> ring_step phys len t u \<Longrightarrow> ring_reach phys len s u"

inductive ring_paced :: "u64 \<Rightarrow> nat \<Rightarrow> ring_sys \<Rightarrow> ring_sys \<Rightarrow> bool" for phys len where
  paced_stay: "ring_paced phys len s s"
| paced_run: "ring_paced phys len s t \<Longrightarrow> ring_step phys len t u \<Longrightarrow>
     length (produced u) \<le> length (consumed u) + (len - 1) \<Longrightarrow> ring_paced phys len s u"

lemma ring_reach_trans: "ring_reach phys len t u \<Longrightarrow> ring_reach phys len s t \<Longrightarrow> ring_reach phys len s u"
  by (induction rule: ring_reach.induct) (auto intro: ring_reach.intros)

lemma link_fields:
  "cycle_bit \<lparr>parameter = p, status = s, control = link_control True\<rparr>"
  "toggle_bit \<lparr>parameter = p, status = s, control = link_control True\<rparr>"
  "trb_type \<lparr>parameter = p, status = s, control = link_control True\<rparr> = TRB_TYPE_LINK"
  by (simp_all add: cycle_bit_def toggle_bit_def trb_type_def link_control_def TRB_TYPE_LINK_def Let_def bit_iff_odd)

lemma default_fields: "\<not> cycle_bit Trb_default" "trb_type Trb_default \<noteq> TRB_TYPE_LINK"
  by (simp_all add: cycle_bit_def trb_type_def Trb_default_def TRB_TYPE_LINK_def)

text \<open>What the driver's control words say: their cycle bit and their type.\<close>

lemma command_control_fields:
  assumes "ty < 64"
  shows "bit (command_control ty c) 0 = c" "drop_bit 10 (command_control ty c) AND 0x3F = ty"
proof -
  have "unat ty < 64" using assms by (simp add: word_less_nat_alt)
  then have tb: "take_bit 6 ty = ty"
    by (simp add: word_unat_eq_iff unsigned_take_bit_eq take_bit_nat_eq_self)
  have m: "(0x3F :: u32) = mask 6" by (simp add: mask_eq_exp_minus_1)
  have t6: "bit ty n \<Longrightarrow> n < 6" for n using tb by (metis bit_take_bit_iff)
  have bits: "bit (command_control ty c) n \<longleftrightarrow> 10 \<le> n \<and> n < 32 \<and> bit ty (n - 10) \<or> n = 5 \<or> n = 0 \<and> c" for n
  proof -
    have "bit (push_bit 10 (ty AND 0x3F)) n \<longleftrightarrow> 10 \<le> n \<and> n < 32 \<and> bit ty (n - 10)"
      unfolding m by (auto simp: bit_push_bit_iff bit_and_iff bit_mask_iff dest: t6)
    moreover have "bit (push_bit 5 (1 :: u32)) n \<longleftrightarrow> n = 5" unfolding bit_push_bit_iff by (auto simp: bit_1_iff)
    moreover have "bit (if c then 1 else 0 :: u32) n \<longleftrightarrow> n = 0 \<and> c" by (auto simp: bit_1_iff)
    ultimately show ?thesis unfolding command_control_def bit_or_iff by blast
  qed
  show "bit (command_control ty c) 0 = c" by (simp add: bits)
  show "drop_bit 10 (command_control ty c) AND 0x3F = ty" unfolding m
    by (rule bit_word_eqI) (auto simp: bit_and_iff bit_drop_bit_eq bit_mask_iff bits dest: t6)
qed

text \<open>
  The invariant of every run: the driver's indices, what the ring holds (of each position the block
  stored there last), and the consumer's position, which is on its first lap or on its second.
\<close>

definition put_inv :: "u64 \<Rightarrow> nat \<Rightarrow> ring_sys \<Rightarrow> bool" where
  "put_inv phys len s \<longleftrightarrow>
     (let n = len - 1; R = ring_trbs (r_mem s) phys len; p = length (produced s)
      in r_enq s = p mod n \<and> r_cycle s = even (p div n) \<and>
         (\<forall>k < p. p \<le> k + n \<longrightarrow> R ! (k mod n) = produced s ! k) \<and>
         (\<forall>k < p. cycle_bit (produced s ! k) = even (k div n) \<and> trb_type (produced s ! k) \<noteq> TRB_TYPE_LINK) \<and>
         (\<forall>j. p \<le> j \<and> j < n \<longrightarrow> R ! j = Trb_default) \<and>
         R ! n = \<lparr>parameter = phys, status = 0, control = link_control True\<rparr>)"

definition pos_inv :: "nat \<Rightarrow> ring_sys \<Rightarrow> bool" where
  "pos_inv len s \<longleftrightarrow>
     (let n = len - 1; q = length (consumed s)
      in q \<le> length (produced s) \<and>
         (r_ccs s \<and> r_deq s = q \<and> q \<le> n \<or> \<not> r_ccs s \<and> r_deq s + n = q \<and> q \<le> 2 * n))"

definition ring_inv :: "u64 \<Rightarrow> nat \<Rightarrow> ring_sys \<Rightarrow> bool" where
  "ring_inv phys len s \<longleftrightarrow> put_inv phys len s \<and> pos_inv len s"

text \<open>How many laps the driver is ahead of the consumer.\<close>

definition laps_ahead :: "nat \<Rightarrow> ring_sys \<Rightarrow> nat" where
  "laps_ahead len s = (length (produced s) - 1 - length (consumed s)) div (len - 1)"

locale trb_ring =
  fixes phys :: u64 and len :: nat
  assumes two: "2 \<le> len" and small: "len \<le> 2 ^ 32"
begin

lemma usable_pos: "0 < len - 1"
  using two by simp

lemma inv_start: "ring_inv phys len (ring_start phys len m)"
  using two small ring_trbs_init [of len phys m]
  by (auto simp: ring_inv_def put_inv_def pos_inv_def ring_start_def Let_def nth_append)

lemma advance_position:
  assumes "e = p mod (len - 1)" "c = even (p div (len - 1))"
  shows "advance e c (len - 1) = (Suc p mod (len - 1), even (Suc p div (len - 1)))"
proof -
  let ?n = "len - 1"
  have m: "Suc p mod ?n = (if Suc (p mod ?n) = ?n then 0 else Suc (p mod ?n))" by (rule mod_Suc)
  have d: "Suc p div ?n = (if Suc (p mod ?n) = ?n then Suc (p div ?n) else p div ?n)"
    using div_Suc [of p ?n] usable_pos mod_Suc [of p ?n] by auto
  have lt: "p mod ?n < ?n" using usable_pos by simp
  have "(p mod ?n + 1) mod ?n = Suc p mod ?n" by (simp add: mod_Suc_eq)
  then show ?thesis using m d lt by (auto simp: advance_def Let_def assms)
qed

lemma put_inv_produce:
  assumes "put_inv phys len s" "cycle_bit t = r_cycle s"
    "trb_type t \<noteq> TRB_TYPE_LINK" "ring_put phys len (r_enq s) (r_cycle s) t (r_mem s) = (m', e, c)"
  shows "put_inv phys len (s\<lparr>r_mem := m', r_enq := e, r_cycle := c, produced := produced s @ [t]\<rparr>)"
proof -
  let ?n = "len - 1" and ?p = "length (produced s)"
  let ?R = "ring_trbs (r_mem s) phys len"
  note inv = assms(1) [unfolded put_inv_def Let_def]
  have n: "0 < ?n" by (rule usable_pos)
  have i: "?p mod ?n < len" using n by (meson diff_le_self less_le_trans mod_less_divisor)
  have m': "m' = write_trb phys (?p mod ?n) t (r_mem s)" and adv: "(e, c) = (Suc ?p mod ?n, even (Suc ?p div ?n))"
    using assms(4) inv advance_position [of "r_enq s" ?p "r_cycle s"] by (auto simp: ring_put_def Let_def)
  have R: "ring_trbs m' phys len = ?R[?p mod ?n := t]" unfolding m' by (rule ring_trbs_write [OF i small])
  have recent: "?R[?p mod ?n := t] ! (k mod ?n) = (produced s @ [t]) ! k" if "k < Suc ?p" "Suc ?p \<le> k + ?n" for k
  proof (cases "k = ?p")
    case True
    then show ?thesis using i by simp
  next
    case False
    then have k: "k < ?p" "?p < k + ?n" using that by simp_all
    have "k mod ?n \<noteq> ?p mod ?n"
    proof
      assume "k mod ?n = ?p mod ?n"
      then have "?n dvd ?p - k" using k(1) by (metis mod_eq_dvd_iff_nat less_imp_le)
      with k n show False by (auto dest: dvd_imp_le)
    qed
    then show ?thesis using k inv by (simp add: nth_append)
  qed
  have rest: "?R[?p mod ?n := t] ! j = Trb_default" if "Suc ?p \<le> j" "j < ?n" for j
    using that inv by simp
  have linkc: "?R[?p mod ?n := t] ! ?n = \<lparr>parameter = phys, status = 0, control = link_control True\<rparr>"
  proof -
    have "?p mod ?n \<noteq> ?n" using mod_less_divisor [OF n, of ?p] by linarith
    moreover have "?R ! ?n = \<lparr>parameter = phys, status = 0, control = link_control True\<rparr>" using inv by blast
    ultimately show ?thesis by (rule trans [OF nth_list_update_neq])
  qed
  have cyc: "cycle_bit ((produced s @ [t]) ! k) = even (k div ?n) \<and> trb_type ((produced s @ [t]) ! k) \<noteq> TRB_TYPE_LINK"
    if "k < Suc ?p" for k
    using that inv assms(2,3) by (cases "k = ?p") (simp_all add: nth_append)
  show ?thesis
    unfolding put_inv_def Let_def
    using inv adv recent rest linkc cyc by (simp add: R)
qed

text \<open>What the consumer finds at its position: the link behind the last usable block, and before it the block
  stored there last, which is the next one in order exactly when the driver is less than a lap ahead.\<close>

lemma stored_last:
  assumes "put_inv phys len s" "j < len - 1" "j < length (produced s)"
  shows "(let x = (length (produced s) - 1 - j) div (len - 1); k = j + (len - 1) * x
    in k < length (produced s) \<and> ring_trbs (r_mem s) phys len ! j = produced s ! k \<and> k div (len - 1) = x)"
proof -
  let ?n = "len - 1" and ?p = "length (produced s)"
  let ?x = "(?p - 1 - j) div ?n"
  let ?k = "j + ?n * ?x"
  have le: "?n * ?x \<le> ?p - 1 - j" by simp
  have gt: "?p - 1 - j < ?n + ?n * ?x" by (rule dividend_less_times_div [OF usable_pos])
  have k: "j + a < p \<and> p \<le> j + a + n" if "a \<le> p - 1 - j" "p - 1 - j < n + a" "j < p" for a p n
    using that by linarith
  note k = conjunct1 [OF k [OF le gt assms(3)]] conjunct2 [OF k [OF le gt assms(3)]]
  have m: "?k mod ?n = j" "?k div ?n = ?x" using assms(2) usable_pos by simp_all
  have "\<forall>k < ?p. ?p \<le> k + ?n \<longrightarrow> ring_trbs (r_mem s) phys len ! (k mod ?n) = produced s ! k"
    using assms(1) unfolding put_inv_def Let_def by blast
  then have "ring_trbs (r_mem s) phys len ! (?k mod ?n) = produced s ! ?k" using k by blast
  with k(1) m show ?thesis by (simp only: Let_def)
qed

lemma link_at_end:
  assumes "put_inv phys len s"
  shows "read_trb (r_mem s) phys (len - 1) = \<lparr>parameter = phys, status = 0, control = link_control True\<rparr>"
  using assms two by (simp add: put_inv_def Let_def ring_trbs_def)

lemma usable_not_link:
  assumes "put_inv phys len s" "j < len - 1"
  shows "trb_type (read_trb (r_mem s) phys j) \<noteq> TRB_TYPE_LINK"
proof -
  have r: "read_trb (r_mem s) phys j = ring_trbs (r_mem s) phys len ! j" using assms(2) by (simp add: ring_trbs_def)
  show ?thesis
  proof (cases "j < length (produced s)")
    case True
    with stored_last [OF assms] assms(1) show ?thesis unfolding r by (auto simp: put_inv_def Let_def)
  next
    case False
    then have "ring_trbs (r_mem s) phys len ! j = Trb_default" using assms by (simp add: put_inv_def Let_def)
    then show ?thesis unfolding r by (simp add: default_fields)
  qed
qed

lemma dequeue_position:
  assumes "ring_inv phys len s"
  shows "r_deq s \<le> len - 1" "length (consumed s) \<le> length (produced s)"
    "length (consumed s) = r_deq s + (if r_ccs s then 0 else len - 1)"
  using assms by (auto simp: ring_inv_def pos_inv_def Let_def)

lemma visible_block:
  assumes "ring_inv phys len s" "r_deq s < len - 1" "length (consumed s) < length (produced s)"
  shows "length (consumed s) + (len - 1) * laps_ahead len s < length (produced s)"
    "read_trb (r_mem s) phys (r_deq s) = produced s ! (length (consumed s) + (len - 1) * laps_ahead len s)"
    "cycle_bit (read_trb (r_mem s) phys (r_deq s)) = r_ccs s \<longleftrightarrow> even (laps_ahead len s)"
proof -
  let ?n = "len - 1" and ?p = "length (produced s)" and ?q = "length (consumed s)" and ?x = "laps_ahead len s"
  let ?y = "(?p - 1 - r_deq s) div ?n"
  have inv: "put_inv phys len s" using assms(1) by (simp add: ring_inv_def)
  note q = dequeue_position(3) [OF assms(1)]
  have j: "r_deq s < ?p" using q assms(3) by (simp split: if_splits)
  have y: "?y = (if r_ccs s then ?x else Suc ?x)"
  proof (cases "r_ccs s")
    case False
    then have "?p - 1 - r_deq s = (?p - 1 - ?q) + ?n" using q assms(3) by simp
    then show ?thesis using False usable_pos by (simp only: laps_ahead_def div_add_self2) simp
  qed (use q in \<open>simp add: laps_ahead_def\<close>)
  have k: "r_deq s + ?n * ?y = ?q + ?n * ?x" using q y by simp
  have r: "read_trb (r_mem s) phys (r_deq s) = ring_trbs (r_mem s) phys len ! r_deq s"
    using assms(2) by (simp add: ring_trbs_def)
  note last = stored_last [OF inv assms(2) j, unfolded Let_def k]
  show "?q + ?n * ?x < ?p" "read_trb (r_mem s) phys (r_deq s) = produced s ! (?q + ?n * ?x)" using last r by simp_all
  moreover have "cycle_bit (produced s ! (?q + ?n * ?x)) = even ?y"
    using last inv by (simp add: put_inv_def Let_def)
  ultimately show "cycle_bit (read_trb (r_mem s) phys (r_deq s)) = r_ccs s \<longleftrightarrow> even ?x"
    using y by (simp split: if_splits)
qed

lemma caught_up_sees_nothing:
  assumes "ring_inv phys len s" "r_deq s < len - 1" "length (consumed s) = length (produced s)"
  shows "cycle_bit (read_trb (r_mem s) phys (r_deq s)) \<noteq> r_ccs s"
proof -
  have inv: "put_inv phys len s" using assms(1) by (simp add: ring_inv_def)
  have r: "read_trb (r_mem s) phys (r_deq s) = ring_trbs (r_mem s) phys len ! r_deq s"
    using assms(2) by (simp add: ring_trbs_def)
  note q = dequeue_position(3) [OF assms(1)]
  show ?thesis
  proof (cases "r_ccs s")
    case True
    then have "ring_trbs (r_mem s) phys len ! r_deq s = Trb_default"
      using inv assms(2,3) q by (simp add: put_inv_def Let_def)
    then show ?thesis using True r default_fields(1) by simp
  next
    case False
    then have j: "r_deq s < length (produced s)" "(length (produced s) - 1 - r_deq s) div (len - 1) = 0"
      using q assms(2,3) by simp_all
    then have "cycle_bit (ring_trbs (r_mem s) phys len ! r_deq s)"
      using stored_last [OF inv assms(2) j(1)] inv by (simp add: put_inv_def Let_def)
    then show ?thesis using False r by simp
  qed
qed

text \<open>The only blocks the consumer takes.\<close>

lemma receive:
  assumes "ring_inv phys len s" "t = read_trb (r_mem s) phys (r_deq s)" "cycle_bit t = r_ccs s" "trb_type t \<noteq> TRB_TYPE_LINK"
  shows "r_deq s < len - 1" "length (consumed s) < length (produced s)" "even (laps_ahead len s)"
    "t = produced s ! (length (consumed s) + (len - 1) * laps_ahead len s)"
proof -
  have "r_deq s \<noteq> len - 1"
    using link_at_end [of s] link_fields(3) assms(1,2,4) by (auto simp: ring_inv_def)
  then show d: "r_deq s < len - 1" using dequeue_position(1) [OF assms(1)] by simp
  show q: "length (consumed s) < length (produced s)"
    using caught_up_sees_nothing [OF assms(1) d] dequeue_position(2) [OF assms(1)] assms(2,3) by fastforce
  show "even (laps_ahead len s)" "t = produced s ! (length (consumed s) + (len - 1) * laps_ahead len s)"
    using visible_block [OF assms(1) d q] assms(2,3) by simp_all
qed

lemma follow:
  assumes "ring_inv phys len s" "t = read_trb (r_mem s) phys (r_deq s)" "cycle_bit t = r_ccs s" "trb_type t = TRB_TYPE_LINK"
  shows "r_deq s = len - 1" "r_ccs s" "toggle_bit t"
proof -
  have inv: "put_inv phys len s" using assms(1) by (simp add: ring_inv_def)
  show d: "r_deq s = len - 1"
    using usable_not_link [OF inv, of "r_deq s"] dequeue_position(1) [OF assms(1)] assms(2,4) by fastforce
  then show "r_ccs s" "toggle_bit t" using link_at_end [OF inv] link_fields(1,2) assms(2,3) by auto
qed

lemma inv_step: "ring_step phys len s s' \<Longrightarrow> ring_inv phys len s \<Longrightarrow> ring_inv phys len s'"
proof (induction rule: ring_step.induct)
  case (produce t s m' e c)
  then show ?case using put_inv_produce [of s t m' e c] by (auto simp: ring_inv_def pos_inv_def Let_def)
next
  case (consume t s)
  note at = receive [OF consume(4,1-3)]
  show ?case using consume(4) at(1,2) by (auto simp: ring_inv_def put_inv_def pos_inv_def Let_def)
next
  case (follow_link t s)
  note at = follow [OF follow_link(4,1-3)]
  show ?case using follow_link(4) at by (auto simp: ring_inv_def put_inv_def pos_inv_def Let_def)
qed

lemma inv_reach: "ring_reach phys len s s' \<Longrightarrow> ring_inv phys len s \<Longrightarrow> ring_inv phys len s'"
  by (induction rule: ring_reach.induct) (auto intro: inv_step)

lemma paced_reach: "ring_paced phys len s s' \<Longrightarrow> ring_reach phys len s s'"
  by (induction rule: ring_paced.induct) (auto intro: ring_reach.intros)

lemma step_receives:
  assumes "ring_step phys len s s'" "ring_inv phys len s" "consumed s' \<noteq> consumed s"
  shows "length (consumed s) < length (produced s) \<and> even (laps_ahead len s) \<and> produced s' = produced s \<and>
    consumed s' = consumed s @ [produced s ! (length (consumed s) + (len - 1) * laps_ahead len s)]"
  using assms(1)
proof (cases rule: ring_step.cases)
  case (consume t)
  from receive [OF assms(2) consume(2-4)] show ?thesis using consume(1) by simp
qed (use assms(3) in auto)

lemma paced_outstanding:
  "ring_paced phys len s s' \<Longrightarrow> length (produced s) \<le> length (consumed s) + (len - 1) \<Longrightarrow>
   length (produced s') \<le> length (consumed s') + (len - 1)"
  by (induction rule: ring_paced.induct) auto

lemma step_extends: "ring_step phys len s s' \<Longrightarrow> \<exists>ts. produced s' = produced s @ ts"
  by (cases rule: ring_step.cases) auto

lemma paced_prefix:
  "ring_paced phys len s s' \<Longrightarrow> s = ring_start phys len m \<Longrightarrow> consumed s' = take (length (consumed s')) (produced s')"
proof (induction rule: ring_paced.induct)
  case (paced_stay s)
  then show ?case by (simp add: ring_start_def)
next
  case (paced_run s t u)
  have inv: "ring_inv phys len t" using inv_reach [OF paced_reach [OF paced_run(1)]] inv_start paced_run(5) by simp
  have le: "length (produced t) \<le> length (consumed t) + (len - 1)"
    using paced_outstanding [OF paced_run(1)] paced_run(5) by (simp add: ring_start_def)
  show ?case
  proof (cases "consumed u = consumed t")
    case True
    obtain ts where "produced u = produced t @ ts" using step_extends [OF paced_run(2)] by auto
    moreover have "length (consumed t) \<le> length (produced t)" by (rule dequeue_position(2) [OF inv])
    ultimately show ?thesis using True paced_run(4,5) by simp
  next
    case False
    note r = step_receives [OF paced_run(2) inv False]
    have "length (produced t) - 1 - length (consumed t) < len - 1" using le r usable_pos by linarith
    then have "laps_ahead len t = 0" by (simp add: laps_ahead_def)
    then show ?thesis using r paced_run(4,5) by (simp add: take_Suc_conv_app_nth)
  qed
qed

lemma consumed_bound: "ring_inv phys len s \<Longrightarrow> length (consumed s) \<le> 2 * (len - 1)"
  by (auto simp: ring_inv_def pos_inv_def Let_def)

lemma fetch:
  assumes "ring_inv phys len s" "length (consumed s) < length (produced s)" "even (laps_ahead len s)" "r_deq s < len - 1"
  shows "\<exists>s'. ring_step phys len s s' \<and> produced s' = produced s \<and>
    consumed s' = consumed s @ [produced s ! (length (consumed s) + (len - 1) * laps_ahead len s)]"
proof -
  note v = visible_block [OF assms(1,4,2)]
  have "trb_type (read_trb (r_mem s) phys (r_deq s)) \<noteq> TRB_TYPE_LINK"
    using usable_not_link assms(1,4) by (simp add: ring_inv_def)
  with ring_step.consume [OF refl, of s phys len] v assms(3) show ?thesis by auto
qed

lemma progress:
  assumes "ring_inv phys len s" "length (consumed s) < length (produced s)" "length (consumed s) < 2 * (len - 1)" "even (laps_ahead len s)"
  shows "\<exists>s'. ring_reach phys len s s' \<and> produced s' = produced s \<and>
    consumed s' = consumed s @ [produced s ! (length (consumed s) + (len - 1) * laps_ahead len s)]"
proof (cases "r_deq s < len - 1")
  case True
  with fetch [OF assms(1,2,4)] show ?thesis using ring_reach.intros by meson
next
  case False
  let ?t = "read_trb (r_mem s) phys (r_deq s)" and ?s = "s\<lparr>r_deq := 0, r_ccs := False\<rparr>"
  have d: "r_deq s = len - 1" "r_ccs s"
    using False dequeue_position(1,3) [OF assms(1)] assms(3) by (auto split: if_splits)
  then have "?t = \<lparr>parameter = phys, status = 0, control = link_control True\<rparr>"
    using link_at_end [of s] assms(1) by (simp add: ring_inv_def)
  then have st: "ring_step phys len s ?s"
    using ring_step.follow_link [OF refl, of s phys len] d(2) by (simp add: link_fields)
  have inv': "ring_inv phys len ?s" by (rule inv_step [OF st assms(1)])
  have "laps_ahead len ?s = laps_ahead len s" by (simp add: laps_ahead_def)
  then obtain s' where "ring_step phys len ?s s'" "produced s' = produced s"
      "consumed s' = consumed s @ [produced s ! (length (consumed s) + (len - 1) * laps_ahead len s)]"
    using fetch [OF inv'] assms(2,4) usable_pos by auto
  then show ?thesis using st ring_reach.intros by meson
qed

lemma put_one:
  "\<exists>s'. ring_step phys len s s' \<and> length (produced s') = Suc (length (produced s)) \<and> consumed s' = consumed s"
proof -
  let ?t = "\<lparr>parameter = 0, status = 0, control = command_control TRB_TYPE_NORMAL (r_cycle s)\<rparr>"
  have t: "cycle_bit ?t = r_cycle s" "trb_type ?t \<noteq> TRB_TYPE_LINK"
    using command_control_fields [of 1 "r_cycle s"] by (simp_all add: cycle_bit_def trb_type_def TRB_TYPE_NORMAL_def TRB_TYPE_LINK_def)
  obtain m' e c where put: "ring_put phys len (r_enq s) (r_cycle s) ?t (r_mem s) = (m', e, c)" by (metis prod_cases3)
  let ?s' = "s\<lparr>r_mem := m', r_enq := e, r_cycle := c, produced := produced s @ [?t]\<rparr>"
  have "ring_step phys len s ?s'" by (rule ring_step.produce [OF t put])
  then show ?thesis by (intro exI [of _ ?s']) simp
qed

lemma ahead_reachable:
  "\<exists>s. ring_reach phys len (ring_start phys len m) s \<and> length (produced s) = k \<and> consumed s = []"
proof (induction k)
  case 0
  show ?case by (rule exI [of _ "ring_start phys len m"]) (simp add: ring_start_def ring_reach.stay)
next
  case (Suc k)
  then obtain s where s: "ring_reach phys len (ring_start phys len m) s" "length (produced s) = k" "consumed s = []" by auto
  obtain s' where "ring_step phys len s s'" "length (produced s') = Suc k" "consumed s' = []"
    using put_one [of s] s(2,3) by auto
  then show ?case using ring_reach.run [OF s(1)] by blast
qed

lemma lap_reachable:
  "k \<le> 2 * (len - 1) \<Longrightarrow>
   \<exists>s. ring_reach phys len (ring_start phys len m) s \<and> length (produced s) = k \<and> length (consumed s) = k"
proof (induction k)
  case 0
  show ?case by (rule exI [of _ "ring_start phys len m"]) (simp add: ring_start_def ring_reach.stay)
next
  case (Suc k)
  then obtain s where s: "ring_reach phys len (ring_start phys len m) s" "length (produced s) = k" "length (consumed s) = k" by auto
  obtain s1 where s1: "ring_step phys len s s1" "length (produced s1) = Suc k" "length (consumed s1) = k"
    using put_one [of s] s(2,3) by auto
  have r1: "ring_reach phys len (ring_start phys len m) s1" using s(1) s1(1) by (rule ring_reach.run)
  have "laps_ahead len s1 = 0" using s1 by (simp add: laps_ahead_def)
  then obtain s2 where s2: "ring_reach phys len s1 s2" "produced s2 = produced s1" "length (consumed s2) = Suc (length (consumed s1))"
    using progress [OF inv_reach [OF r1 inv_start]] s1 Suc.prems by force
  have r2: "ring_reach phys len (ring_start phys len m) s2" using ring_reach_trans [OF s2(1) r1] .
  show ?case using r2 s2 s1(2,3) by auto
qed

lemma stall: "ring_inv phys len s \<Longrightarrow> ring_reach phys len s s' \<Longrightarrow> length (consumed s) = 2 * (len - 1) \<Longrightarrow> consumed s' = consumed s"
proof -
  assume inv: "ring_inv phys len s" and r: "ring_reach phys len s s'" and full: "length (consumed s) = 2 * (len - 1)"
  have grow: "\<exists>zs. consumed s' = consumed s @ zs" using r
  proof (induction rule: ring_reach.induct)
    case (run s t u)
    from run.hyps(2) have "\<exists>ys. consumed u = consumed t @ ys" by (cases rule: ring_step.cases) auto
    with run.IH show ?case by auto
  qed simp
  have "length (consumed s') \<le> 2 * (len - 1)" by (rule consumed_bound [OF inv_reach [OF r inv]])
  with grow full show ?thesis by auto
qed

end

interpretation command_ring: trb_ring phys 256 for phys
  by unfold_locales simp_all

interpretation ep0_ring: trb_ring phys 64 for phys
  by unfold_locales simp_all

interpretation intr_ring: trb_ring phys 128 for phys
  by unfold_locales simp_all

section \<open>Properties\<close>

text \<open>C15: On the 256-entry command ring the driver builds, in every interleaving of enqueues and the consumer:
  where the consumer never falls more than 255 blocks behind, it receives the blocks in the order
  they were enqueued, none lost and none twice. The driver never checks that. In any run, whenever
  the consumer receives a block, it is the one enqueued a whole even number of laps after the next one
  in order (no lap when at most 255 are outstanding), and until two laps (510 blocks) were received it
  can receive that block; when the driver is an odd number of laps ahead it receives nothing.\<close>
theorem command_ring_delivers_in_order:
  assumes "ring_reach phys 256 (ring_start phys 256 m) s"
  shows "(ring_paced phys 256 (ring_start phys 256 m) s \<longrightarrow> consumed s = take (length (consumed s)) (produced s)) \<and>
    (\<forall>s'. ring_step phys 256 s s' \<and> consumed s' \<noteq> consumed s \<longrightarrow>
      length (consumed s) < length (produced s) \<and> even ((length (produced s) - 1 - length (consumed s)) div 255) \<and>
      consumed s' = consumed s @ [produced s !
        (length (consumed s) + 255 * ((length (produced s) - 1 - length (consumed s)) div 255))]) \<and>
    (length (consumed s) < length (produced s) \<and> length (consumed s) < 510 \<and>
     even ((length (produced s) - 1 - length (consumed s)) div 255) \<longrightarrow>
      (\<exists>s'. ring_reach phys 256 s s' \<and> consumed s' = consumed s @ [produced s !
        (length (consumed s) + 255 * ((length (produced s) - 1 - length (consumed s)) div 255))]))"
proof -
  note inv = command_ring.inv_reach [OF assms command_ring.inv_start]
  have laps: "laps_ahead 256 s = (length (produced s) - 1 - length (consumed s)) div 255" by (simp add: laps_ahead_def)
  show ?thesis
    using command_ring.paced_prefix [OF _ refl] command_ring.step_receives [OF _ inv] command_ring.progress [OF inv]
    by (auto simp: laps)
qed

theorem command_ring_delivers_in_order_witness:
  "(\<exists>s. ring_reach 0x5000 256 (ring_start 0x5000 256 (\<lambda>_. 0)) s \<and>
     consumed s = [\<lparr>parameter = 0, status = 0, control = command_control TRB_TYPE_ENABLE_SLOT True\<rparr>]) \<and>
   (\<exists>s. ring_reach 0x5000 256 (ring_start 0x5000 256 (\<lambda>_. 0)) s \<and> length (produced s) = 256 \<and> consumed s = [] \<and>
     (\<forall>s'. ring_step 0x5000 256 s s' \<longrightarrow> consumed s' = []))"
proof
  let ?t = "\<lparr>parameter = 0, status = 0, control = command_control TRB_TYPE_ENABLE_SLOT True\<rparr>"
  let ?s0 = "ring_start 0x5000 256 (\<lambda>_. 0)"
  obtain m' e c where put: "ring_put 0x5000 256 (r_enq ?s0) (r_cycle ?s0) ?t (r_mem ?s0) = (m', e, c)"
    by (metis prod_cases3)
  have t: "cycle_bit ?t" "trb_type ?t \<noteq> TRB_TYPE_LINK"
    using command_control_fields [of 9 True] by (simp_all add: cycle_bit_def trb_type_def TRB_TYPE_ENABLE_SLOT_def TRB_TYPE_LINK_def)
  let ?s1 = "?s0\<lparr>r_mem := m', r_enq := e, r_cycle := c, produced := produced ?s0 @ [?t]\<rparr>"
  have "ring_step 0x5000 256 ?s0 ?s1" by (rule ring_step.produce [OF _ t(2) put]) (simp add: ring_start_def t(1))
  then have r: "ring_reach 0x5000 256 ?s0 ?s1" using ring_reach.intros by blast
  from command_ring_delivers_in_order [OF r] obtain s' where "ring_reach 0x5000 256 ?s1 s'" "consumed s' = [?t]"
    by (auto simp: ring_start_def)
  with r show "\<exists>s. ring_reach 0x5000 256 ?s0 s \<and> consumed s = [?t]" using ring_reach_trans by blast
next
  obtain s where s: "ring_reach 0x5000 256 (ring_start 0x5000 256 (\<lambda>_. 0)) s" "length (produced s) = 256" "consumed s = []"
    using command_ring.ahead_reachable by metis
  have "consumed s' = []" if "ring_step 0x5000 256 s s'" for s'
    using command_ring_delivers_in_order [OF s(1)] that s(2,3) by fastforce
  with s show "\<exists>s. ring_reach 0x5000 256 (ring_start 0x5000 256 (\<lambda>_. 0)) s \<and> length (produced s) = 256 \<and> consumed s = [] \<and>
     (\<forall>s'. ring_step 0x5000 256 s s' \<longrightarrow> consumed s' = [])" by blast
qed

text \<open>C39: The rings die after two laps: the driver flips its cycle bit when it wraps but never rewrites
  the cycle bit of the link block, so once the consumer has received two laps (510 commands, 126
  control blocks, 254 reports) it never receives another block, whatever the driver enqueues.\<close>
theorem rings_stall_after_two_laps:
  assumes "len \<in> {256, 64, 128}" "ring_reach phys len (ring_start phys len m) s" "ring_reach phys len s s'"
    "length (consumed s) = 2 * (len - 1)"
  shows "consumed s' = consumed s"
  using assms command_ring.stall [OF command_ring.inv_reach [OF _ command_ring.inv_start]]
    ep0_ring.stall [OF ep0_ring.inv_reach [OF _ ep0_ring.inv_start]]
    intr_ring.stall [OF intr_ring.inv_reach [OF _ intr_ring.inv_start]] by auto

theorem rings_stall_after_two_laps_witness:
  "\<exists>s s'. ring_reach 0x6000 64 (ring_start 0x6000 64 (\<lambda>_. 0)) s \<and> ring_reach 0x6000 64 s s' \<and>
     length (produced s') = 127 \<and> length (consumed s') = 126"
proof -
  obtain s where s: "ring_reach 0x6000 64 (ring_start 0x6000 64 (\<lambda>_. 0)) s" "length (produced s) = 126" "length (consumed s) = 126"
    using ep0_ring.lap_reachable [of 126 "0x6000" "\<lambda>_. 0"] by auto
  obtain s' where s': "ring_step 0x6000 64 s s'" "length (produced s') = 127"
    using ep0_ring.put_one [of "0x6000" s] s by auto
  have r: "ring_reach 0x6000 64 s s'" using s'(1) ring_reach.intros by blast
  have "consumed s' = consumed s" by (rule rings_stall_after_two_laps [OF _ s(1) r]) (simp_all add: s(3))
  then have "length (consumed s') = 126" using s(3) by simp
  with s(1) s'(2) r show ?thesis by blast
qed

end
