(* ===== verification/Serial.thy ===== *)
theory Serial
  imports Kernel_Prelude
begin

text \<open>
  The port I/O state and the COM1 driver (\<^verbatim>\<open>kernel/src/serial.rs\<close>). The machine's port
  writes form one trace in program order; reads of the line status register consume an input
  tape, so a state describes every behaviour of the UART. Every call of the module, including
  the diagnostic bytes it mirrors to the debug port 0xE9, is a step on this state.
\<close>

section \<open>Port state\<close>

datatype port_event = Out8 u16 u8 | Out32 u16 u32

record io =
  outs :: "port_event list"
  lsr_tape :: "nat \<Rightarrow> u8"
  lsr_pos :: nat
  INITIALIZED :: bool

definition outb :: "u16 \<Rightarrow> u8 \<Rightarrow> io \<Rightarrow> io" where
  "outb p v s = s\<lparr>outs := outs s @ [Out8 p v]\<rparr>"

definition outl :: "u16 \<Rightarrow> u32 \<Rightarrow> io \<Rightarrow> io" where
  "outl p v s = s\<lparr>outs := outs s @ [Out32 p v]\<rparr>"

definition outb_all :: "u16 \<Rightarrow> bytes \<Rightarrow> io \<Rightarrow> io" where
  "outb_all p bs s = fold (outb p) bs s"

definition COM1_BASE :: u16 where
  "COM1_BASE = 0x3F8"

record SerialPort =
  sp_data :: u16
  interrupt_enable :: u16
  fifo_control :: u16
  line_control :: u16
  modem_control :: u16
  line_status :: u16

definition SerialPort_new :: "u16 \<Rightarrow> SerialPort" where
  "SerialPort_new base =
     \<lparr>sp_data = base, interrupt_enable = base + 1, fifo_control = base + 2,
      line_control = base + 3, modem_control = base + 4, line_status = base + 5\<rparr>"

definition SERIAL :: SerialPort where
  "SERIAL = SerialPort_new COM1_BASE"

section \<open>The debug port mirror\<close>

definition dbg_str :: "bytes \<Rightarrow> io \<Rightarrow> io" where
  "dbg_str msg s = outb_all 0xE9 msg s"

definition dbg_fmt :: "bytes \<Rightarrow> io \<Rightarrow> io" where
  "dbg_fmt args s = outb_all 0xE9 args s"

definition dbg_hex :: "string \<Rightarrow> u8 \<Rightarrow> io \<Rightarrow> io" where
  "dbg_hex prefix value s =
     (let s1 = dbg_str (str_bytes prefix) s;
          HEX = str_bytes ''0123456789abcdef'';
          hi = HEX ! unat (drop_bit 4 value);
          lo = HEX ! unat (value AND 0x0F)
      in outb 0xE9 10 (outb 0xE9 lo (outb 0xE9 hi s1)))"

section \<open>The serial port\<close>

definition SerialPort_init :: "SerialPort \<Rightarrow> io \<Rightarrow> io" where
  "SerialPort_init p s =
     (let s = outb (interrupt_enable p) 0x00 s;
          s = outb (line_control p) 0x80 s;
          s = outb (sp_data p) 0x03 s;
          s = outb (interrupt_enable p) 0x00 s;
          s = outb (line_control p) 0x03 s;
          s = outb (fifo_control p) 0xC7 s
      in outb (modem_control p) 0x0B s)"

definition read_line_status :: "io \<Rightarrow> u8 \<times> io" where
  "read_line_status s = (lsr_tape s (lsr_pos s), s\<lparr>lsr_pos := Suc (lsr_pos s)\<rparr>)"

function wait_thr :: "nat \<Rightarrow> io \<Rightarrow> io" where
  "wait_thr spins s =
     (let (status, s1) = read_line_status s
      in if status AND 0x20 \<noteq> 0 \<or> status AND 0x40 \<noteq> 0 then s1
         else
           (let s2 = (if spins < 8 then dbg_hex ''serial: wait lsr='' status s1 else s1);
                spins' = spins + 1
            in if spins' > 1000000 then dbg_hex ''serial: wait timeout lsr='' status s2
               else wait_thr spins' s2))"
  by pat_completeness auto
termination
  by (relation "measure (\<lambda>(spins, s). 1000001 - spins)") auto

declare wait_thr.simps [simp del]

definition send_byte :: "u8 \<Rightarrow> io \<Rightarrow> io" where
  "send_byte byte s =
     (let s1 = wait_thr 0 s;
          s2 = outb (sp_data SERIAL) byte s1
      in dbg_str (str_bytes ''serial: byte sent'' @ [10]) s2)"

definition SerialPort_write_byte :: "u8 \<Rightarrow> io \<Rightarrow> io" where
  "SerialPort_write_byte byte s =
     (let s1 = dbg_hex ''serial: write_byte '' byte s;
          s2 = (if byte = 10 then send_byte 13 (dbg_hex ''serial: write_byte '' 13 s1) else s1)
      in send_byte byte s2)"

definition SerialPort_write_str :: "bytes \<Rightarrow> io \<Rightarrow> io" where
  "SerialPort_write_str bs s = fold SerialPort_write_byte bs s"

section \<open>The module's interface\<close>

definition serial_init :: "io \<Rightarrow> io" where
  "serial_init s =
     (let s1 = dbg_str (str_bytes ''serial: init start'' @ [10]) s;
          s2 = SerialPort_init SERIAL s1;
          s3 = s2\<lparr>INITIALIZED := True\<rparr>
      in dbg_str (str_bytes ''serial: init done'' @ [10]) s3)"

definition serial_write_str :: "bytes \<Rightarrow> io \<Rightarrow> io" where
  "serial_write_str message s =
     (let s1 = dbg_str (str_bytes ''serial: write_str'' @ [10]) s
      in if \<not> INITIALIZED s1 then dbg_fmt message s1 else SerialPort_write_str message s1)"

definition serial_write_fmt :: "bytes \<Rightarrow> io \<Rightarrow> io" where
  "serial_write_fmt args s =
     (if \<not> INITIALIZED s then dbg_fmt args s else SerialPort_write_str args s)"

definition serial_panic :: "bytes \<Rightarrow> io \<Rightarrow> io" where
  "serial_panic info s =
     (let line = str_bytes ''panic: '' @ info @ [10]
      in if \<not> INITIALIZED s then dbg_fmt line s else SerialPort_write_str line s)"

section \<open>What the two consoles receive\<close>

definition port_bytes :: "u16 \<Rightarrow> port_event list \<Rightarrow> bytes" where
  "port_bytes p evs = concat (map (\<lambda>e. case e of Out8 q b \<Rightarrow> if q = p then [b] else [] | Out32 _ _ \<Rightarrow> []) evs)"

definition com1_sent :: "io \<Rightarrow> bytes" where
  "com1_sent s = port_bytes COM1_BASE (outs s)"

definition e9_sent :: "io \<Rightarrow> bytes" where
  "e9_sent s = port_bytes 0xE9 (outs s)"

definition with_cr :: "bytes \<Rightarrow> bytes" where
  "with_cr bs = concat (map (\<lambda>b. if b = 10 then [13, 10] else [b]) bs)"

definition line_ready :: "u8 \<Rightarrow> bool" where
  "line_ready status \<longleftrightarrow> status AND 0x20 \<noteq> 0 \<or> status AND 0x40 \<noteq> 0"

named_theorems io_simps \<open>effect of the port operations on what each port has received\<close>

lemma port_bytes_append [io_simps]: "port_bytes p (xs @ ys) = port_bytes p xs @ port_bytes p ys"
  by (simp add: port_bytes_def)

lemma port_bytes_Cons [io_simps]: "port_bytes p (Out8 q b # xs) = (if q = p then b # port_bytes p xs else port_bytes p xs)"
  by (simp add: port_bytes_def)

lemma port_bytes_Out32 [io_simps]: "port_bytes p (Out32 q v # xs) = port_bytes p xs"
  by (simp add: port_bytes_def)

lemma port_bytes_Nil [io_simps]: "port_bytes p [] = []"
  by (simp add: port_bytes_def)

lemma outb_simps [simp]:
  "outs (outb p v s) = outs s @ [Out8 p v]" "lsr_tape (outb p v s) = lsr_tape s"
  "lsr_pos (outb p v s) = lsr_pos s" "INITIALIZED (outb p v s) = INITIALIZED s"
  by (simp_all add: outb_def)

lemma outb_all_simps [simp]:
  "outs (outb_all p bs s) = outs s @ map (Out8 p) bs" "lsr_tape (outb_all p bs s) = lsr_tape s"
  "lsr_pos (outb_all p bs s) = lsr_pos s" "INITIALIZED (outb_all p bs s) = INITIALIZED s"
  unfolding outb_all_def by (induction bs arbitrary: s) simp_all

lemma port_bytes_map_Out8 [io_simps]: "port_bytes p (map (Out8 q) bs) = (if q = p then bs else [])"
  by (induction bs) (simp_all add: port_bytes_def)

lemma dbg_str_simps [simp]:
  "com1_sent (dbg_str m s) = com1_sent s" "e9_sent (dbg_str m s) = e9_sent s @ m"
  "lsr_tape (dbg_str m s) = lsr_tape s" "lsr_pos (dbg_str m s) = lsr_pos s"
  "INITIALIZED (dbg_str m s) = INITIALIZED s"
  by (simp_all add: com1_sent_def e9_sent_def dbg_str_def COM1_BASE_def io_simps)

lemma dbg_fmt_simps [simp]:
  "com1_sent (dbg_fmt m s) = com1_sent s" "e9_sent (dbg_fmt m s) = e9_sent s @ m"
  "lsr_tape (dbg_fmt m s) = lsr_tape s" "lsr_pos (dbg_fmt m s) = lsr_pos s"
  "INITIALIZED (dbg_fmt m s) = INITIALIZED s"
  by (simp_all add: com1_sent_def e9_sent_def dbg_fmt_def COM1_BASE_def io_simps)

lemma dbg_hex_simps [simp]:
  "com1_sent (dbg_hex m v s) = com1_sent s" "lsr_tape (dbg_hex m v s) = lsr_tape s"
  "lsr_pos (dbg_hex m v s) = lsr_pos s" "INITIALIZED (dbg_hex m v s) = INITIALIZED s"
  by (simp_all add: com1_sent_def dbg_hex_def dbg_str_def COM1_BASE_def Let_def io_simps)

lemma com1_sent_lsr_pos [simp]: "com1_sent (s\<lparr>lsr_pos := n\<rparr>) = com1_sent s"
  by (simp add: com1_sent_def)

lemma wait_thr_frame:
  "com1_sent (wait_thr n s) = com1_sent s \<and> lsr_tape (wait_thr n s) = lsr_tape s \<and>
   INITIALIZED (wait_thr n s) = INITIALIZED s"
proof (induction n s rule: wait_thr.induct)
  case (1 n s)
  then show ?case
    by (simp add: wait_thr.simps [of n s] Let_def read_line_status_def)
qed

lemma wait_thr_reads: "n \<le> 1000000 \<Longrightarrow> lsr_pos (wait_thr n s) + n \<le> lsr_pos s + 1000001"
proof (induction n s rule: wait_thr.induct)
  case (1 n s)
  then show ?case
    by (auto simp: wait_thr.simps [of n s] Let_def read_line_status_def add.commute)
qed

lemma send_byte_simps [simp]:
  "com1_sent (send_byte b s) = com1_sent s @ [b]" "lsr_tape (send_byte b s) = lsr_tape s"
  "INITIALIZED (send_byte b s) = INITIALIZED s"
  using wait_thr_frame [of 0 s]
  by (simp_all add: send_byte_def Let_def)
    (simp add: com1_sent_def SERIAL_def SerialPort_new_def io_simps)

lemma send_byte_reads: "lsr_pos (send_byte b s) \<le> lsr_pos s + 1000001"
  using wait_thr_reads [of 0 s] by (simp add: send_byte_def Let_def)

lemma write_byte_simps [simp]:
  "com1_sent (SerialPort_write_byte b s) = com1_sent s @ with_cr [b]"
  "lsr_tape (SerialPort_write_byte b s) = lsr_tape s"
  "INITIALIZED (SerialPort_write_byte b s) = INITIALIZED s"
  by (simp_all add: SerialPort_write_byte_def Let_def with_cr_def)

lemma write_byte_reads: "lsr_pos (SerialPort_write_byte b s) \<le> lsr_pos s + 2000002"
proof -
  let ?s1 = "dbg_hex ''serial: write_byte '' b s"
  let ?s2 = "dbg_hex ''serial: write_byte '' 13 ?s1"
  show ?thesis
    using send_byte_reads [of b ?s1] send_byte_reads [of 13 ?s2] send_byte_reads [of b "send_byte 13 ?s2"]
    by (cases "b = 10") (simp_all add: SerialPort_write_byte_def Let_def)
qed

lemma with_cr_Cons: "with_cr (b # bs) = with_cr [b] @ with_cr bs"
  by (simp add: with_cr_def)

lemma with_cr_append: "with_cr (a @ b) = with_cr a @ with_cr b"
  by (simp add: with_cr_def)

lemma write_str_simps [simp]:
  "com1_sent (SerialPort_write_str bs s) = com1_sent s @ with_cr bs"
  "lsr_tape (SerialPort_write_str bs s) = lsr_tape s"
  "INITIALIZED (SerialPort_write_str bs s) = INITIALIZED s"
proof -
  have "com1_sent (SerialPort_write_str bs s) = com1_sent s @ with_cr bs \<and>
    lsr_tape (SerialPort_write_str bs s) = lsr_tape s \<and>
    INITIALIZED (SerialPort_write_str bs s) = INITIALIZED s"
    unfolding SerialPort_write_str_def
    by (induction bs arbitrary: s) (simp add: with_cr_def, simp add: with_cr_Cons [of _ "_ # _"] with_cr_def)
  then show "com1_sent (SerialPort_write_str bs s) = com1_sent s @ with_cr bs"
    "lsr_tape (SerialPort_write_str bs s) = lsr_tape s"
    "INITIALIZED (SerialPort_write_str bs s) = INITIALIZED s" by simp_all
qed

lemma write_str_reads: "lsr_pos (SerialPort_write_str bs s) \<le> lsr_pos s + length bs * 2000002"
proof (induction bs arbitrary: s)
  case Nil
  then show ?case by (simp add: SerialPort_write_str_def)
next
  case (Cons b bs)
  have "SerialPort_write_str (b # bs) s = SerialPort_write_str bs (SerialPort_write_byte b s)"
    by (simp add: SerialPort_write_str_def)
  with Cons.IH [of "SerialPort_write_byte b s"] write_byte_reads [of b s] show ?case by simp
qed

lemma serial_write_fmt_simps [simp]:
  "com1_sent (serial_write_fmt m s) = com1_sent s @ (if INITIALIZED s then with_cr m else [])"
  "lsr_tape (serial_write_fmt m s) = lsr_tape s" "INITIALIZED (serial_write_fmt m s) = INITIALIZED s"
  by (simp_all add: serial_write_fmt_def)

lemma serial_write_str_simps [simp]:
  "com1_sent (serial_write_str m s) = com1_sent s @ (if INITIALIZED s then with_cr m else [])"
  "lsr_tape (serial_write_str m s) = lsr_tape s" "INITIALIZED (serial_write_str m s) = INITIALIZED s"
  by (simp_all add: serial_write_str_def Let_def)

lemma serial_init_simps [simp]: "INITIALIZED (serial_init s)" "lsr_tape (serial_init s) = lsr_tape s"
  by (simp_all add: serial_init_def SerialPort_init_def Let_def)

section \<open>Delivery\<close>

lemma write_fmt_reads: "lsr_pos (serial_write_fmt m s) \<le> lsr_pos s + length m * 2000002"
  using write_str_reads [of m s] by (simp add: serial_write_fmt_def)

text \<open>C36: Whatever the line status register reads (the line may stay busy for ever), a formatted
  write returns after at most 2000002 status reads per byte; once the port is initialised, COM1
  receives exactly the message, each line feed preceded by a carriage return; before that, COM1
  receives nothing and the whole message goes to the debug port.\<close>
theorem serial_message_delivered:
  "lsr_pos (serial_write_fmt m s) \<le> lsr_pos s + length m * 2000002 \<and>
   com1_sent (serial_write_fmt m s) = com1_sent s @ (if INITIALIZED s then with_cr m else []) \<and>
   (if INITIALIZED s then True else e9_sent (serial_write_fmt m s) = e9_sent s @ m) \<and>
   com1_sent (serial_write_fmt m (serial_init s)) = com1_sent (serial_init s) @ with_cr m"
  using write_fmt_reads [of m s] by (auto simp: serial_write_fmt_def)

end
