(* ===== verification/Vga.thy ===== *)
theory Vga
  imports Kernel_Prelude
begin

text \<open>
  The text console (\<^verbatim>\<open>kernel/src/vga.rs\<close>): cursor, style and the 80 by 25 frame buffer at
  0xb8000, a map from cell addresses to 16-bit cells. The abstract view \<open>screen\<close> is the list of
  the 25 rows; the lemmas relate every operation to it, bound the cursor and show that no operation
  writes outside the frame buffer.
\<close>

section \<open>Console state\<close>

definition VGA_BUFFER_ADDRESS :: nat where "VGA_BUFFER_ADDRESS = 0xb8000"
definition BUFFER_HEIGHT :: nat where "BUFFER_HEIGHT = 25"
definition BUFFER_WIDTH :: nat where "BUFFER_WIDTH = 80"
definition DEFAULT_STYLE :: u8 where "DEFAULT_STYLE = 0x0f"

record Console =
  column_position :: nat
  row_position :: nat
  style :: u8
  vram :: "nat \<Rightarrow> u16"

definition Console_new :: "(nat \<Rightarrow> u16) \<Rightarrow> Console" where
  "Console_new v = \<lparr>column_position = 0, row_position = 0, style = DEFAULT_STYLE, vram = v\<rparr>"

definition buffer_ptr :: "nat \<Rightarrow> nat \<Rightarrow> nat" where
  "buffer_ptr row col = VGA_BUFFER_ADDRESS + (row * BUFFER_WIDTH + col) * 2"

definition write_entry_at :: "u8 \<Rightarrow> u8 \<Rightarrow> nat \<Rightarrow> nat \<Rightarrow> Console \<Rightarrow> Console" where
  "write_entry_at byte st row col c =
     c\<lparr>vram := (vram c)(buffer_ptr row col := push_bit 8 (ucast st) OR ucast byte)\<rparr>"

definition read_entry_at :: "nat \<Rightarrow> nat \<Rightarrow> Console \<Rightarrow> u16" where
  "read_entry_at row col c = vram c (buffer_ptr row col)"

section \<open>Console operations\<close>

definition fill_row :: "nat \<Rightarrow> Console \<Rightarrow> Console" where
  "fill_row row c = fold (\<lambda>col c. write_entry_at 32 (style c) row col c) [0..<BUFFER_WIDTH] c"

definition Console_clear :: "Console \<Rightarrow> Console" where
  "Console_clear c = (fold fill_row [0..<BUFFER_HEIGHT] c)\<lparr>column_position := 0, row_position := 0\<rparr>"

definition move_cell_up :: "nat \<Rightarrow> nat \<Rightarrow> Console \<Rightarrow> Console" where
  "move_cell_up row col c =
     (let entry = read_entry_at row col c
      in write_entry_at (ucast entry) (ucast (drop_bit 8 entry)) (row - 1) col c)"

definition scroll_up :: "Console \<Rightarrow> Console" where
  "scroll_up c = fold (\<lambda>row c. fold (\<lambda>col c. move_cell_up row col c) [0..<BUFFER_WIDTH] c) [1..<BUFFER_HEIGHT] c"

definition new_line :: "Console \<Rightarrow> Console" where
  "new_line c =
     (let c = c\<lparr>column_position := 0\<rparr>
      in if row_position c < BUFFER_HEIGHT - 1 then c\<lparr>row_position := row_position c + 1\<rparr>
         else fill_row (BUFFER_HEIGHT - 1) (scroll_up c))"

definition Console_write_byte :: "u8 \<Rightarrow> Console \<Rightarrow> Console" where
  "Console_write_byte byte c =
     (let c = (if column_position c \<ge> BUFFER_WIDTH then new_line c else c);
          c = write_entry_at byte (style c) (row_position c) (column_position c) c
      in c\<lparr>column_position := column_position c + 1\<rparr>)"

definition write_str_byte :: "u8 \<Rightarrow> Console \<Rightarrow> Console" where
  "write_str_byte byte c =
     (if byte = 10 then new_line c
      else if byte = 13 then c\<lparr>column_position := 0\<rparr>
      else Console_write_byte byte c)"

definition Console_write_str :: "bytes \<Rightarrow> Console \<Rightarrow> Console" where
  "Console_write_str message c = fold write_str_byte message c"

definition Console_backspace :: "Console \<Rightarrow> Console" where
  "Console_backspace c =
     (if column_position c > 0 then
        let c = c\<lparr>column_position := column_position c - 1\<rparr>
        in write_entry_at 32 (style c) (row_position c) (column_position c) c
      else if row_position c > 0 then
        let c = c\<lparr>row_position := row_position c - 1, column_position := BUFFER_WIDTH - 1\<rparr>
        in write_entry_at 32 (style c) (row_position c) (column_position c) c
      else c)"

definition write_char :: "u32 \<Rightarrow> Console \<Rightarrow> Console" where
  "write_char ch c = (if ch = 10 then new_line c else fold Console_write_byte (encode_utf8 ch) c)"

section \<open>The module's interface\<close>

definition vga_init :: "Console \<Rightarrow> Console" where
  "vga_init c = Console_clear c"

definition vga_write_str :: "bytes \<Rightarrow> Console \<Rightarrow> Console" where
  "vga_write_str message c = Console_write_str message c"

definition vga_write_line :: "bytes \<Rightarrow> Console \<Rightarrow> Console" where
  "vga_write_line message c = new_line (Console_write_str message c)"

definition vga_put_char :: "u32 \<Rightarrow> Console \<Rightarrow> Console" where
  "vga_put_char ch c = write_char ch c"

definition vga_backspace :: "Console \<Rightarrow> Console" where
  "vga_backspace c = Console_backspace c"

definition vga_set_style :: "u8 \<Rightarrow> Console \<Rightarrow> Console" where
  "vga_set_style st c = c\<lparr>style := st\<rparr>"

definition vga_fmt :: "bytes \<Rightarrow> Console \<Rightarrow> Console" where
  "vga_fmt args c = Console_write_str args c"

definition vga_panic :: "bytes \<Rightarrow> Console \<Rightarrow> Console" where
  "vga_panic info c =
     (let saved_style = style c;
          c = c\<lparr>style := 0x4f\<rparr>;
          c = Console_write_str (str_bytes ''panic: '' @ info @ [10]) c
      in c\<lparr>style := saved_style\<rparr>)"

section \<open>Invariant, frame and the abstract screen\<close>

definition console_ok :: "Console \<Rightarrow> bool" where
  "console_ok c \<longleftrightarrow> column_position c \<le> 80 \<and> row_position c < 25"

definition in_frame :: "nat \<Rightarrow> bool" where
  "in_frame a \<longleftrightarrow> VGA_BUFFER_ADDRESS \<le> a \<and> a < VGA_BUFFER_ADDRESS + 2 * 80 * 25"

definition same_outside :: "Console \<Rightarrow> Console \<Rightarrow> bool" where
  "same_outside c c' \<longleftrightarrow> (\<forall>a. \<not> in_frame a \<longrightarrow> vram c' a = vram c a)"

definition screen_row :: "Console \<Rightarrow> nat \<Rightarrow> u16 list" where
  "screen_row c r = map (\<lambda>col. read_entry_at r col c) [0..<80]"

definition screen :: "Console \<Rightarrow> u16 list list" where
  "screen c = map (screen_row c) [0..<25]"

definition glyph :: "u8 \<Rightarrow> u8 \<Rightarrow> u16" where
  "glyph st b = push_bit 8 (ucast st) OR ucast b"

lemmas vga_consts = VGA_BUFFER_ADDRESS_def BUFFER_HEIGHT_def BUFFER_WIDTH_def

lemma buffer_ptr_inj:
  "col < 80 \<Longrightarrow> col' < 80 \<Longrightarrow> buffer_ptr row col = buffer_ptr row' col' \<longleftrightarrow> row = row' \<and> col = col'"
proof -
  assume c: "col < 80" "col' < 80"
  have "row * 80 + col = row' * 80 + col' \<longleftrightarrow> row = row' \<and> col = col'"
  proof
    assume eq: "row * 80 + col = row' * 80 + col'"
    then have "(row * 80 + col) div 80 = (row' * 80 + col') div 80" by simp
    with c have "row = row'" by simp
    with eq show "row = row' \<and> col = col'" by simp
  qed simp
  moreover have "buffer_ptr row col = buffer_ptr row' col' \<longleftrightarrow> row * 80 + col = row' * 80 + col'"
    by (simp only: buffer_ptr_def vga_consts add_left_cancel mult_cancel2) simp
  ultimately show ?thesis by simp
qed

lemma in_frame_ptr: "row < 25 \<Longrightarrow> col < 80 \<Longrightarrow> in_frame (buffer_ptr row col)"
  by (simp add: in_frame_def buffer_ptr_def vga_consts)

lemma write_entry_simps [simp]:
  "column_position (write_entry_at b st r k c) = column_position c"
  "row_position (write_entry_at b st r k c) = row_position c"
  "style (write_entry_at b st r k c) = style c"
  by (simp_all add: write_entry_at_def)

lemma read_entry_cursor [simp]:
  "read_entry_at r k (c\<lparr>column_position := n\<rparr>) = read_entry_at r k c"
  "read_entry_at r k (c\<lparr>row_position := n\<rparr>) = read_entry_at r k c"
  "read_entry_at r k (c\<lparr>style := st\<rparr>) = read_entry_at r k c"
  by (simp_all add: read_entry_at_def)

lemma read_write_entry:
  "k < 80 \<Longrightarrow> k' < 80 \<Longrightarrow>
   read_entry_at r k (write_entry_at b st r' k' c) = (if r = r' \<and> k = k' then glyph st b else read_entry_at r k c)"
  by (simp add: read_entry_at_def write_entry_at_def buffer_ptr_inj glyph_def)

lemma vram_write_entry: "r < 25 \<Longrightarrow> k < 80 \<Longrightarrow> \<not> in_frame a \<Longrightarrow> vram (write_entry_at b st r k c) a = vram c a"
  using in_frame_ptr by (auto simp: write_entry_at_def)

text \<open>A cell taken apart into byte and style and written back is the same cell.\<close>

lemma glyph_of_entry: "glyph (ucast (drop_bit 8 e)) (ucast e) = (e :: u16)"
  by (rule bit_word_eqI) (auto simp: glyph_def bit_simps)

section \<open>Rows\<close>

lemma fill_cells:
  fixes row :: nat
  assumes "\<forall>k\<in>set ks. k < 80"
  defines "f \<equiv> fold (\<lambda>col c. write_entry_at 32 (style c) row col c) ks"
  shows "column_position (f c) = column_position c" "row_position (f c) = row_position c" "style (f c) = style c"
    and "k < 80 \<Longrightarrow> read_entry_at r k (f c) = (if r = row \<and> k \<in> set ks then glyph (style c) 32 else read_entry_at r k c)"
    and "row < 25 \<Longrightarrow> \<not> in_frame a \<Longrightarrow> vram (f c) a = vram c a"
  using assms(1) unfolding f_def
  by (induction ks arbitrary: c) (auto simp: read_write_entry vram_write_entry)

lemma fill_row_simps [simp]:
  "column_position (fill_row row c) = column_position c" "row_position (fill_row row c) = row_position c"
  "style (fill_row row c) = style c"
  by (simp_all add: fill_row_def vga_consts fill_cells)

lemma read_fill_row:
  "k < 80 \<Longrightarrow> read_entry_at r k (fill_row row c) = (if r = row then glyph (style c) 32 else read_entry_at r k c)"
  by (simp add: fill_row_def vga_consts fill_cells)

lemma vram_fill_row: "row < 25 \<Longrightarrow> \<not> in_frame a \<Longrightarrow> vram (fill_row row c) a = vram c a"
  by (simp add: fill_row_def vga_consts fill_cells)

lemma fill_rows:
  "column_position (fold fill_row rs c) = column_position c" "row_position (fold fill_row rs c) = row_position c"
  "style (fold fill_row rs c) = style c"
  "k < 80 \<Longrightarrow> read_entry_at r k (fold fill_row rs c) = (if r \<in> set rs then glyph (style c) 32 else read_entry_at r k c)"
  "\<forall>r\<in>set rs. r < 25 \<Longrightarrow> \<not> in_frame a \<Longrightarrow> vram (fold fill_row rs c) a = vram c a"
  by (induction rs arbitrary: c) (auto simp: read_fill_row vram_fill_row)

lemma move_cell_simps [simp]:
  "column_position (move_cell_up r k c) = column_position c" "row_position (move_cell_up r k c) = row_position c"
  "style (move_cell_up r k c) = style c"
  by (simp_all add: move_cell_up_def Let_def)

lemma read_move_cell:
  "k < 80 \<Longrightarrow> k' < 80 \<Longrightarrow>
   read_entry_at r k (move_cell_up row k' c) = (if r = row - 1 \<and> k = k' then read_entry_at row k' c else read_entry_at r k c)"
  by (simp add: move_cell_up_def Let_def read_write_entry glyph_of_entry)

lemma vram_move_cell: "r < 25 \<Longrightarrow> k < 80 \<Longrightarrow> \<not> in_frame a \<Longrightarrow> vram (move_cell_up r k c) a = vram c a"
  by (simp add: move_cell_up_def Let_def vram_write_entry)

lemma move_row:
  fixes row :: nat
  assumes "\<forall>k\<in>set ks. k < 80" and "0 < row"
  defines "f \<equiv> fold (\<lambda>col c. move_cell_up row col c) ks"
  shows "column_position (f c) = column_position c" "row_position (f c) = row_position c" "style (f c) = style c"
    and "k < 80 \<Longrightarrow> read_entry_at r k (f c) = (if r = row - 1 \<and> k \<in> set ks then read_entry_at row k c else read_entry_at r k c)"
    and "row < 25 \<Longrightarrow> \<not> in_frame a \<Longrightarrow> vram (f c) a = vram c a"
  using assms(1,2) unfolding f_def
  by (induction ks arbitrary: c)
    (auto simp: read_move_cell vram_move_cell)

lemma move_rows:
  assumes "1 \<le> m" "m \<le> 25"
  defines "f \<equiv> fold (\<lambda>row c. fold (\<lambda>col c. move_cell_up row col c) [0..<80] c) [1..<m]"
  shows "column_position (f c) = column_position c \<and> row_position (f c) = row_position c \<and> style (f c) = style c \<and>
    (\<forall>r k. k < 80 \<longrightarrow> read_entry_at r k (f c) = (if r + 1 < m then read_entry_at (r + 1) k c else read_entry_at r k c)) \<and>
    (\<forall>a. \<not> in_frame a \<longrightarrow> vram (f c) a = vram c a)"
  using assms(1,2) unfolding f_def
proof (induction m rule: nat_induct_at_least)
  case base
  then show ?case by simp
next
  case (Suc m)
  let ?g = "fold (\<lambda>row c. fold (\<lambda>col c. move_cell_up row col c) [0..<80] c) [1..<m] c"
  let ?h = "fold (\<lambda>col c. move_cell_up m col c) [0..<80] ?g"
  have IH: "column_position ?g = column_position c" "row_position ?g = row_position c" "style ?g = style c"
    "\<And>r k. k < 80 \<Longrightarrow> read_entry_at r k ?g = (if r + 1 < m then read_entry_at (r + 1) k c else read_entry_at r k c)"
    "\<And>a. \<not> in_frame a \<Longrightarrow> vram ?g a = vram c a"
    using Suc by auto
  have ks: "\<forall>k\<in>set [0..<80]. k < (80::nat)" by simp
  have m0: "0 < m" using Suc by simp
  note mv = move_row [OF ks m0, where c = ?g]
  have "read_entry_at r k ?h = (if r + 1 < Suc m then read_entry_at (r + 1) k c else read_entry_at r k c)"
    if "k < 80" for r k
    using that m0 IH(4) [OF that] mv(4) [OF that, of r] by auto
  moreover have "vram ?h a = vram c a" if "\<not> in_frame a" for a
    using that IH(5) mv(5) Suc by simp
  ultimately show ?case
    using Suc.hyps IH(1-3) mv(1-3) by simp
qed

lemma scroll_up_effect:
  "column_position (scroll_up c) = column_position c" "row_position (scroll_up c) = row_position c"
  "style (scroll_up c) = style c"
  "k < 80 \<Longrightarrow> read_entry_at r k (scroll_up c) = (if r < 24 then read_entry_at (Suc r) k c else read_entry_at r k c)"
  "\<not> in_frame a \<Longrightarrow> vram (scroll_up c) a = vram c a"
  using move_rows [of 25 c] by (simp_all add: scroll_up_def vga_consts)

lemma new_line_simps [simp]:
  "column_position (new_line c) = 0" "style (new_line c) = style c"
  "row_position (new_line c) = (if row_position c < 24 then row_position c + 1 else row_position c)"
  by (simp_all add: new_line_def Let_def scroll_up_effect vga_consts)

lemma read_new_line:
  "k < 80 \<Longrightarrow> read_entry_at r k (new_line c) =
    (if row_position c < 24 then read_entry_at r k c
     else if r = 24 then glyph (style c) 32
     else if r < 24 then read_entry_at (Suc r) k c else read_entry_at r k c)"
  by (simp add: new_line_def Let_def read_fill_row scroll_up_effect vga_consts)

lemma vram_new_line: "\<not> in_frame a \<Longrightarrow> vram (new_line c) a = vram c a"
  by (simp add: new_line_def Let_def vram_fill_row scroll_up_effect vga_consts)

lemma write_byte_cursor:
  assumes "console_ok c"
  shows "column_position (Console_write_byte b c) = (if column_position c = 80 then 1 else column_position c + 1)"
    "row_position (Console_write_byte b c) = (if column_position c = 80 \<and> row_position c < 24 then row_position c + 1 else row_position c)"
    "style (Console_write_byte b c) = style c"
  using assms by (auto simp: Console_write_byte_def Let_def console_ok_def vga_consts)

section \<open>Every operation keeps the invariant and stays in the frame buffer\<close>

lemma same_outside_refl: "same_outside c c"
  by (simp add: same_outside_def)

lemma same_outside_trans: "same_outside c d \<Longrightarrow> same_outside d e \<Longrightarrow> same_outside c e"
  by (simp add: same_outside_def)

interpretation console: framed_ops console_ok same_outside
  by unfold_locales (auto intro: same_outside_refl same_outside_trans)

named_theorems console_intros \<open>operations that keep the console well formed and inside the frame\<close>

lemma keeps_new_line [console_intros]: "keeps console_ok same_outside new_line"
  by (auto simp: keeps_def console_ok_def same_outside_def vram_new_line)

lemma keeps_style [console_intros]: "keeps console_ok same_outside (\<lambda>c. c\<lparr>style := st\<rparr>)"
  by (simp add: keeps_def console_ok_def same_outside_def)

lemma keeps_carriage_return [console_intros]: "keeps console_ok same_outside (\<lambda>c. c\<lparr>column_position := 0\<rparr>)"
  by (simp add: keeps_def console_ok_def same_outside_def)

lemma keeps_write_byte [console_intros]: "keeps console_ok same_outside (Console_write_byte b)"
proof (rule keepsI)
  fix c assume c: "console_ok c"
  then show "console_ok (Console_write_byte b c)"
    using write_byte_cursor [OF c, of b] by (simp add: console_ok_def)
  from c show "same_outside c (Console_write_byte b c)"
    by (auto simp: same_outside_def Console_write_byte_def Let_def console_ok_def vga_consts
        vram_write_entry vram_new_line)
qed

lemma keeps_write_str_byte [console_intros]: "keeps console_ok same_outside (write_str_byte b)"
  using keeps_new_line keeps_carriage_return keeps_write_byte [of b]
  by (simp add: keeps_def write_str_byte_def)

lemma keeps_write_str [console_intros]: "keeps console_ok same_outside (Console_write_str m)"
  unfolding Console_write_str_def [abs_def] by (rule console.keeps_fold) (rule keeps_write_str_byte)

lemma keeps_backspace [console_intros]: "keeps console_ok same_outside Console_backspace"
  by (auto simp: keeps_def Console_backspace_def console_ok_def same_outside_def vga_consts
      Let_def vram_write_entry)

lemma keeps_write_char [console_intros]: "keeps console_ok same_outside (write_char ch)"
  using keeps_new_line console.keeps_fold [of "encode_utf8 ch" Console_write_byte] keeps_write_byte
  by (simp add: keeps_def write_char_def)

lemma keeps_clear [console_intros]: "keeps console_ok same_outside Console_clear"
  by (simp add: keeps_def console_ok_def same_outside_def Console_clear_def fill_rows vga_consts)

lemma keeps_panic [console_intros]: "keeps console_ok same_outside (vga_panic info)"
proof (rule keepsI)
  fix c assume c: "console_ok c"
  let ?w = "Console_write_str (str_bytes ''panic: '' @ info @ [10])"
  from c have "console_ok (?w (c\<lparr>style := 0x4f\<rparr>))" "same_outside c (?w (c\<lparr>style := 0x4f\<rparr>))"
    using keepsD [OF console.keeps_comp [OF keeps_write_str keeps_style]] by blast+
  then show "console_ok (vga_panic info c)" "same_outside c (vga_panic info c)"
    by (simp_all add: vga_panic_def Let_def console_ok_def same_outside_def)
qed

text \<open>A client's use of the module: any sequence of calls of its interface.\<close>

datatype vga_call = VInit | VWriteStr bytes | VWriteLine bytes | VPutChar u32 | VBackspace
  | VSetStyle u8 | VFmt bytes | VPanic bytes

fun vga_exec :: "vga_call \<Rightarrow> Console \<Rightarrow> Console" where
  "vga_exec VInit = vga_init"
| "vga_exec (VWriteStr m) = vga_write_str m"
| "vga_exec (VWriteLine m) = vga_write_line m"
| "vga_exec (VPutChar ch) = vga_put_char ch"
| "vga_exec VBackspace = vga_backspace"
| "vga_exec (VSetStyle st) = vga_set_style st"
| "vga_exec (VFmt m) = vga_fmt m"
| "vga_exec (VPanic i) = vga_panic i"

lemmas vga_interface_defs = vga_init_def vga_write_str_def vga_write_line_def vga_put_char_def
  vga_backspace_def vga_set_style_def vga_fmt_def

lemma keeps_vga_exec: "keeps console_ok same_outside (vga_exec call)"
  by (cases call)
    (simp_all add: vga_interface_defs [abs_def] console_intros console.keeps_comp)

section \<open>The abstract screen\<close>

lemma screen_nth: "r < 25 \<Longrightarrow> k < 80 \<Longrightarrow> screen c ! r ! k = read_entry_at r k c"
  by (simp add: screen_def screen_row_def)

lemma screen_shape: "length (screen c) = 25" "r < 25 \<Longrightarrow> length (screen c ! r) = 80"
  by (simp_all add: screen_def screen_row_def)

lemma screen_eqI:
  assumes "length s = 25" and "\<And>r. r < 25 \<Longrightarrow> length (s ! r) = 80"
    and "\<And>r k. r < 25 \<Longrightarrow> k < 80 \<Longrightarrow> read_entry_at r k c = s ! r ! k"
  shows "screen c = s"
proof (rule nth_equalityI)
  show "length (screen c) = length s" by (simp add: screen_shape assms)
  fix r assume "r < length (screen c)"
  then have r: "r < 25" by (simp add: screen_shape)
  show "screen c ! r = s ! r"
    by (rule nth_equalityI) (use r assms in \<open>auto simp: screen_shape screen_nth\<close>)
qed

lemma screen_cursor [simp]:
  "screen (c\<lparr>column_position := n\<rparr>) = screen c" "screen (c\<lparr>row_position := n\<rparr>) = screen c"
  "screen (c\<lparr>style := st\<rparr>) = screen c"
  by (simp_all add: screen_def screen_row_def)

lemma screen_write_entry:
  assumes "r < 25" "k < 80"
  shows "screen (write_entry_at b st r k c) = (screen c)[r := (screen c ! r)[k := glyph st b]]"
  by (rule screen_eqI)
    (use assms in \<open>auto simp: read_write_entry screen_shape screen_nth nth_list_update\<close>)

lemma screen_new_line:
  "screen (new_line c) =
    (if row_position c < 24 then screen c else tl (screen c) @ [replicate 80 (glyph (style c) 32)])"
proof (rule screen_eqI)
  fix r k :: nat assume rk: "r < 25" "k < 80"
  show "read_entry_at r k (new_line c) =
    (if row_position c < 24 then screen c else tl (screen c) @ [replicate 80 (glyph (style c) 32)]) ! r ! k"
    using rk by (auto simp: read_new_line screen_nth nth_append nth_tl screen_shape less_Suc_eq)
qed (auto simp: screen_shape nth_append nth_tl less_Suc_eq)

section \<open>Properties\<close>

text \<open>whatever sequence of calls the kernel makes of the console, starting from its initial state,
  the cursor stays in range (column at most 80, row below 25) and no memory outside the 4000 bytes
  of the frame buffer is changed.\<close>

theorem console_confined:
  "console_ok (fold vga_exec calls (Console_new v)) \<and>
   (\<forall>a. \<not> (0xb8000 \<le> a \<and> a < 0xb8000 + 4000) \<longrightarrow> vram (fold vga_exec calls (Console_new v)) a = v a)"
proof -
  have new: "console_ok (Console_new v)" "vram (Console_new v) = v"
    by (simp_all add: Console_new_def console_ok_def)
  have "keeps console_ok same_outside (fold vga_exec calls)"
    by (rule console.keeps_fold) (rule keeps_vga_exec)
  from keepsD [OF this new(1)] new(2) show ?thesis
    by (auto simp: same_outside_def in_frame_def vga_consts)
qed

theorem console_confined_witness:
  "\<not> (0xb8000 \<le> (0xb9000::nat) \<and> (0xb9000::nat) < 0xb8000 + 4000) \<and>
   vram (fold vga_exec [VInit, VWriteLine (str_bytes ''Hello Kernel''), VBackspace] (Console_new (\<lambda>_. 7))) 0xb9000 = 7"
  using console_confined [of "[VInit, VWriteLine (str_bytes ''Hello Kernel''), VBackspace]" "\<lambda>_. 7"] by simp

text \<open>C13: writing one byte is what a terminal does: if the cursor is past the last column the screen
  first moves to a new line, scrolling by one row with a blank last row when it was at the bottom;
  then exactly the cell under the cursor becomes the byte in the current style and the cursor
  advances by one column.\<close>

theorem write_byte_refines_terminal:
  assumes "console_ok c"
  defines "wrapped \<equiv> column_position c = 80"
  defines "before \<equiv> (if wrapped \<and> row_position c = 24
      then tl (screen c) @ [replicate 80 (glyph (style c) 32)] else screen c)"
    and "row \<equiv> (if wrapped then min 24 (row_position c + 1) else row_position c)"
    and "col \<equiv> (if wrapped then 0 else column_position c)"
  shows "screen (Console_write_byte b c) = before[row := (before ! row)[col := glyph (style c) b]] \<and>
    row_position (Console_write_byte b c) = row \<and> column_position (Console_write_byte b c) = col + 1"
proof -
  let ?d = "if column_position c \<ge> 80 then new_line c else c"
  have w: "wrapped \<longleftrightarrow> column_position c \<ge> 80" using assms(1) by (auto simp: wrapped_def console_ok_def)
  have d: "row_position ?d = row" "column_position ?d = col" "style ?d = style c" "screen ?d = before"
    using assms(1) unfolding row_def col_def before_def w
    by (auto simp: console_ok_def screen_new_line)
  have rc: "row < 25" "col < 80" using assms(1) by (auto simp: row_def col_def w console_ok_def)
  have "Console_write_byte b c = (write_entry_at b (style ?d) row col ?d)\<lparr>column_position := col + 1\<rparr>"
    by (simp add: Console_write_byte_def Let_def vga_consts d(1,2) del: new_line_simps)
  then show ?thesis by (simp add: screen_write_entry rc d)
qed

theorem write_byte_refines_terminal_witness:
  "console_ok (Console_new (\<lambda>_. 0)) \<and>
   screen (Console_write_byte 65 (Console_new (\<lambda>_. 0))) ! 0 ! 0 = 0x0f41"
proof -
  let ?c = "Console_new (\<lambda>_. 0)"
  have ok: "console_ok ?c" by (simp add: Console_new_def console_ok_def)
  have "screen (Console_write_byte 65 ?c) = (screen ?c)[0 := (screen ?c ! 0)[0 := glyph 0x0f 65]]"
    using write_byte_refines_terminal [OF ok, of 65] by (simp add: Console_new_def DEFAULT_STYLE_def)
  then show ?thesis using ok by (simp add: screen_shape glyph_def)
qed

text \<open>erasing undoes typing: a backspace right after a byte written before the last column puts
  the cursor back where it was and blanks exactly that cell, so a screen whose cell was already
  blank is restored.\<close>

theorem backspace_undoes_write:
  assumes "console_ok c" and "column_position c < 80"
  shows "row_position (Console_backspace (Console_write_byte b c)) = row_position c \<and>
    column_position (Console_backspace (Console_write_byte b c)) = column_position c \<and>
    screen (Console_backspace (Console_write_byte b c)) =
      (screen c)[row_position c := (screen c ! row_position c)[column_position c := glyph (style c) 32]]"
proof -
  have r: "row_position c < 25" using assms(1) by (simp add: console_ok_def)
  have w: "Console_write_byte b c =
    (write_entry_at b (style c) (row_position c) (column_position c) c)\<lparr>column_position := column_position c + 1\<rparr>"
    using assms(2) by (simp add: Console_write_byte_def Let_def vga_consts)
  show ?thesis
    using r assms(2)
    by (simp add: w Console_backspace_def Let_def screen_write_entry screen_shape)
qed

theorem backspace_undoes_write_witness:
  "console_ok (Console_new (\<lambda>_. 0)) \<and> column_position (Console_new (\<lambda>_. 0)) < 80 \<and>
   column_position (Console_backspace (Console_write_byte 65 (Console_new (\<lambda>_. 0)))) = 0"
proof -
  have "console_ok (Console_new (\<lambda>_. 0))" "column_position (Console_new (\<lambda>_. 0)) < 80"
    by (simp_all add: Console_new_def console_ok_def)
  from backspace_undoes_write [OF this, of 65] this show ?thesis by (simp add: Console_new_def)
qed

end
