(* ===== verification/Xhci_Hid.thy ===== *)
theory Xhci_Hid
  imports Serial Vga
begin

text \<open>
  The USB descriptor parser and the HID report decoder of \<^verbatim>\<open>kernel/src/xhci.rs\<close>. Both index byte
  slices the device filled, so every access is checked and \<open>None\<close> is the panic. The parser is
  compared with a typed description of a configuration: interfaces, endpoints and other
  descriptors, with their encoding.
\<close>

section \<open>The configuration descriptor parser\<close>

type_synonym hid_endpoint = "u8 \<times> u16 \<times> u8"

text \<open>One descriptor at \<open>i\<close>: the new interface flag, or the endpoint found.\<close>

definition parse_interface :: "bytes \<Rightarrow> nat \<Rightarrow> nat \<Rightarrow> bool \<Rightarrow> bool option" where
  "parse_interface bs i b_len in_hid =
     (if b_len \<ge> 9 then
        Option.bind (array_get bs (i + 5)) (\<lambda>class.
        Option.bind (array_get bs (i + 6)) (\<lambda>subclass.
        Option.bind (array_get bs (i + 7)) (\<lambda>proto.
          Some (class = 3 \<and> subclass = 1 \<and> proto = 1))))
      else Some in_hid)"

definition parse_endpoint :: "bytes \<Rightarrow> nat \<Rightarrow> nat \<Rightarrow> bool \<Rightarrow> hid_endpoint option option" where
  "parse_endpoint bs i b_len in_hid =
     (if in_hid \<and> b_len \<ge> 7 then
        Option.bind (array_get bs (i + 2)) (\<lambda>addr.
        Option.bind (array_get bs (i + 3)) (\<lambda>a.
        Option.bind (array_get bs (i + 4)) (\<lambda>lo.
        Option.bind (array_get bs (i + 5)) (\<lambda>hi.
        Option.bind (array_get bs (i + 6)) (\<lambda>interval.
          (let attrs = a AND 0x3; maxp = ucast lo OR push_bit 8 (ucast hi)
           in Some (if addr AND 0x80 \<noteq> 0 \<and> attrs = 3 then Some (addr, maxp, interval) else None)))))))
      else Some None)"

function parse_loop :: "bytes \<Rightarrow> nat \<Rightarrow> bool \<Rightarrow> hid_endpoint option option" where
  "parse_loop bs i in_hid =
     (if i + 2 \<le> length bs then
        (case array_get bs i of
           None \<Rightarrow> None
         | Some b \<Rightarrow>
             (let b_len = unat b
              in if b_len = 0 then Some None
                 else if i + b_len > length bs then Some None
                 else
                   (case array_get bs (i + 1) of
                      None \<Rightarrow> None
                    | Some dtype \<Rightarrow>
                        if dtype = 4 then
                          (case parse_interface bs i b_len in_hid of
                             None \<Rightarrow> None
                           | Some in_hid' \<Rightarrow> parse_loop bs (i + b_len) in_hid')
                        else if dtype = 5 then
                          (case parse_endpoint bs i b_len in_hid of
                             None \<Rightarrow> None
                           | Some (Some e) \<Rightarrow> Some (Some e)
                           | Some None \<Rightarrow> parse_loop bs (i + b_len) in_hid)
                        else parse_loop bs (i + b_len) in_hid)))
      else Some None)"
  by pat_completeness auto
termination
  by (relation "measure (\<lambda>(bs, i, in_hid). length bs - i)") auto

declare parse_loop.simps [simp del]

definition parse_hid_keyboard_endpoint :: "mem \<Rightarrow> u64 \<Rightarrow> u16 \<Rightarrow> hid_endpoint option option" where
  "parse_hid_keyboard_endpoint m cfg_phys total_len = parse_loop (read_bytes m cfg_phys (unat total_len)) 0 False"

definition endpoint_id_from_addr :: "u8 \<Rightarrow> u8" where
  "endpoint_id_from_addr addr =
     (let ep = addr AND 0x0F; dir_in = addr AND 0x80 \<noteq> 0
      in ep * 2 + (if dir_in then 1 else 0))"

section \<open>HID reports\<close>

definition hid_usage_to_ascii :: "u8 \<Rightarrow> bool \<Rightarrow> Console \<Rightarrow> u32 option \<times> Console" where
  "hid_usage_to_ascii usage shift c =
     (let pick = (\<lambda>a b. (Some (if shift then of_char a else of_char b), c))
      in if 0x04 \<le> usage \<and> usage \<le> 0x1d then
           (let b = (if shift then 65 else 97) in (Some (ucast (b + (usage - 0x04))), c))
         else if 0x1e \<le> usage \<and> usage \<le> 0x26 then
           (Some (ucast (str_bytes ''123456789'' ! unat (usage - 0x1e))), c)
         else if usage = 0x27 then (Some 48, c)
         else if usage = 0x28 then (None, vga_put_char 10 c)
         else if usage = 0x2a then (None, vga_backspace c)
         else if usage = 0x2c then (Some 32, c)
         else if usage = 0x2d then pick (CHR ''_'') (CHR ''-'')
         else if usage = 0x2e then pick (CHR ''+'') (CHR ''='')
         else if usage = 0x2f then pick (CHR ''{'') (CHR ''['')
         else if usage = 0x30 then pick (CHR ''}'') (CHR '']'')
         else if usage = 0x31 then pick (CHR ''|'') (CHR 0x5C)
         else if usage = 0x33 then pick (CHR '':'') (CHR '';'')
         else if usage = 0x34 then pick (CHR 0x22) (CHR 0x27)
         else if usage = 0x36 then pick (CHR ''<'') (CHR '','')
         else if usage = 0x37 then pick (CHR ''>'') (CHR ''.'')
         else if usage = 0x38 then pick (CHR ''?'') (CHR ''/'')
         else (None, c))"

definition decode_hid_report :: "mem \<Rightarrow> u64 \<Rightarrow> nat \<Rightarrow> io \<Rightarrow> Console \<Rightarrow> (io \<times> Console) option" where
  "decode_hid_report m buf_phys len s c =
     (let data = read_bytes m buf_phys len;
          s = serial_write_fmt (str_bytes ''[hid] data: '') s
      in Option.bind
           (foldM (\<lambda>i s. Option.bind (array_get data i) (\<lambda>b. Some (serial_write_fmt (fmt_hex 2 b @ [32]) s))) [0..<len] s)
           (\<lambda>s.
              (let s = serial_write_str CRLF s
               in Option.bind (array_get data 0) (\<lambda>modifiers.
                    (let shift = modifiers AND 0x22 \<noteq> 0
                     in Option.bind (array_get data 2) (\<lambda>key.
                          (case hid_usage_to_ascii key shift c of
                             (Some ch, c) \<Rightarrow> Some (s, vga_put_char ch c)
                           | (None, c) \<Rightarrow> Some (s, c))))))))"

section \<open>Configurations\<close>

record iface =
  if_number :: u8
  if_alternate :: u8
  if_endpoints :: u8
  if_class :: u8
  if_subclass :: u8
  if_protocol :: u8
  if_string :: u8

datatype descriptor =
    Interface iface
  | Endpoint u8 u8 u16 u8
  | OtherDescriptor u8 bytes

fun encode_descriptor :: "descriptor \<Rightarrow> bytes" where
  "encode_descriptor (Interface f) =
     [9, 4, if_number f, if_alternate f, if_endpoints f, if_class f, if_subclass f, if_protocol f, if_string f]"
| "encode_descriptor (Endpoint addr attrs maxp interval) =
     [7, 5, addr, attrs, ucast maxp, ucast (drop_bit 8 maxp), interval]"
| "encode_descriptor (OtherDescriptor t body) = of_nat (length body + 2) # t # body"

fun descriptor_ok :: "descriptor \<Rightarrow> bool" where
  "descriptor_ok (OtherDescriptor t body) \<longleftrightarrow> t \<noteq> 4 \<and> t \<noteq> 5 \<and> length body \<le> 253"
| "descriptor_ok d \<longleftrightarrow> True"

definition boot_keyboard :: "iface \<Rightarrow> bool" where
  "boot_keyboard f \<longleftrightarrow> if_class f = 3 \<and> if_subclass f = 1 \<and> if_protocol f = 1"

text \<open>The first interrupt IN endpoint of a boot keyboard interface.\<close>

fun keyboard_endpoint :: "descriptor list \<Rightarrow> bool \<Rightarrow> hid_endpoint option" where
  "keyboard_endpoint [] kb = None"
| "keyboard_endpoint (Interface f # ds) kb = keyboard_endpoint ds (boot_keyboard f)"
| "keyboard_endpoint (Endpoint addr attrs maxp interval # ds) kb =
     (if kb \<and> addr AND 0x80 \<noteq> 0 \<and> attrs AND 3 = 3 then Some (addr, maxp, interval) else keyboard_endpoint ds kb)"
| "keyboard_endpoint (OtherDescriptor t body # ds) kb = keyboard_endpoint ds kb"

lemma array_get_append: "array_get (xs @ ys) (length xs + k) = array_get ys k"
  by (simp add: array_get_def nth_append)

lemma array_get_Cons: "array_get (x # xs) 0 = Some x" "array_get (x # xs) (Suc k) = array_get xs k"
  "array_get (x # xs) (numeral n) = array_get xs (pred_numeral n)"
  by (simp_all add: array_get_def numeral_eq_Suc)

lemma length_encode: "descriptor_ok d \<Longrightarrow> 2 \<le> length (encode_descriptor d)"
  by (cases d) simp_all

lemma split_u16: "ucast (ucast w :: u8) OR push_bit 8 (ucast (ucast (drop_bit 8 w) :: u8)) = w" for w :: u16
proof (rule bit_word_eqI)
  fix n assume "n < LENGTH(16)"
  then show "bit (ucast (ucast w :: u8) OR push_bit 8 (ucast (ucast (drop_bit 8 w) :: u8) :: u16)) n \<longleftrightarrow> bit w n"
    by (auto simp: bit_or_iff bit_unsigned_iff bit_push_bit_iff bit_drop_bit_eq)
qed

lemma parse_descriptor:
  assumes "descriptor_ok d" "i = length pre" "bs = pre @ encode_descriptor d @ post"
  shows "parse_loop bs i kb =
    (case d of
       Interface f \<Rightarrow> parse_loop bs (i + length (encode_descriptor d)) (boot_keyboard f)
     | Endpoint addr attrs maxp interval \<Rightarrow>
         if kb \<and> addr AND 0x80 \<noteq> 0 \<and> attrs AND 3 = 3 then Some (Some (addr, maxp, interval))
         else parse_loop bs (i + length (encode_descriptor d)) kb
     | OtherDescriptor t body \<Rightarrow> parse_loop bs (i + length (encode_descriptor d)) kb)"
proof -
  have get: "array_get bs (i + k) = array_get (encode_descriptor d @ post) k" for k
    unfolding assms(2,3) by (rule array_get_append)
  note g = get [of 0] get [of 1] get [of 2] get [of 3] get [of 4] get [of 5] get [of 6] get [of 7]
  have L: "length bs = i + length (encode_descriptor d) + length post" by (simp add: assms(2,3))
  show ?thesis
  proof (cases d)
    case (Interface f)
    then have n: "length (encode_descriptor d) = 9" by simp
    show ?thesis
      unfolding n using g L [unfolded n] Interface
      by (subst parse_loop.simps) (simp add: array_get_Cons parse_interface_def boot_keyboard_def Let_def)
  next
    case (Endpoint addr attrs maxp interval)
    then have n: "length (encode_descriptor d) = 7" by simp
    show ?thesis
      unfolding n using g L [unfolded n] Endpoint
      by (subst parse_loop.simps) (simp add: array_get_Cons parse_endpoint_def split_u16 Let_def)
  next
    case (OtherDescriptor t body)
    then have "length body + 2 < 2 ^ LENGTH(8)" using assms(1) by simp
    then have u: "unat (of_nat (length body + 2) :: u8) = length body + 2"
      by (simp only: unat_of_nat mod_less)
    have n: "length (encode_descriptor d) = length body + 2" using OtherDescriptor by simp
    have "array_get bs i = Some (of_nat (length body + 2))" "array_get bs (i + 1) = Some t"
      using g(1,2) OtherDescriptor by (simp_all add: array_get_Cons)
    with u obtain w where "array_get bs i = Some w" "unat w = length body + 2" "array_get bs (i + 1) = Some t" by blast
    then show ?thesis
      unfolding n using OtherDescriptor assms(1) L [unfolded n]
      by (subst parse_loop.simps) (simp add: Let_def)
  qed
qed

lemma parse_configuration:
  assumes "list_all descriptor_ok ds"
  shows "parse_loop (pre @ concat (map encode_descriptor ds)) (length pre) kb = Some (keyboard_endpoint ds kb)"
  using assms
proof (induction ds arbitrary: pre kb)
  case Nil
  then show ?case by (simp add: parse_loop.simps)
next
  case (Cons d ds)
  then have d: "descriptor_ok d" and ds: "list_all descriptor_ok ds" by simp_all
  let ?bs = "pre @ concat (map encode_descriptor (d # ds))"
  have IH: "parse_loop ?bs (length pre + length (encode_descriptor d)) b = Some (keyboard_endpoint ds b)" for b
    using Cons.IH [OF ds, of "pre @ encode_descriptor d" b] by simp
  have "?bs = pre @ encode_descriptor d @ concat (map encode_descriptor ds)" by simp
  from parse_descriptor [OF d refl this, of kb] show ?case
    unfolding IH by (cases d) simp_all
qed

section \<open>No report and no configuration is indexed out of range but a short one\<close>

lemma parse_interface_total: "i + b_len \<le> length bs \<Longrightarrow> parse_interface bs i b_len kb \<noteq> None"
  by (auto simp: parse_interface_def array_get_def)

lemma parse_endpoint_total: "i + b_len \<le> length bs \<Longrightarrow> parse_endpoint bs i b_len kb \<noteq> None"
  by (auto simp: parse_endpoint_def array_get_def Let_def)

lemma parse_loop_total: "parse_loop bs i kb \<noteq> None"
proof (induction bs i kb rule: parse_loop.induct)
  case (1 bs i kb)
  show ?case
  proof (cases "i + 2 \<le> length bs \<and> unat (bs ! i) \<noteq> 0 \<and> i + unat (bs ! i) \<le> length bs")
    case False
    then show ?thesis by (subst parse_loop.simps) (auto simp: array_get_def Let_def not_le)
  next
    case True
    let ?n = "unat (bs ! i)"
    have g: "array_get bs i = Some (bs ! i)" "array_get bs (i + 1) = Some (bs ! (i + 1))"
      using True by (simp_all add: array_get_def)
    have "\<not> i + ?n > length bs" using True by simp
    note IH = 1 [OF _ g(1) refl _ this g(2)]
    obtain b e where b: "parse_interface bs i ?n kb = Some b" and e: "parse_endpoint bs i ?n kb = Some e"
      using parse_interface_total [of i ?n bs kb] parse_endpoint_total [of i ?n bs kb] True by auto
    show ?thesis
      using True IH b e by (subst parse_loop.simps) (auto simp: g g(2) [simplified] Let_def split: option.split)
  qed
qed

lemma endpoint_id_range: "endpoint_id_from_addr addr \<le> 31"
  by (rule u8_exhaust [of "\<lambda>addr. endpoint_id_from_addr addr \<le> 31"]) code_simp

section \<open>Properties\<close>

lemma decode_prints:
  "decode_hid_report m p len s c =
     (if len < 3 then None
      else
        (let s' = serial_write_str CRLF
               (fold (\<lambda>i. serial_write_fmt (fmt_hex 2 (m (p + of_nat i)) @ [32])) [0..<len]
                 (serial_write_fmt (str_bytes ''[hid] data: '') s));
             (ch, c') = hid_usage_to_ascii (m (p + 2)) (m p AND 0x22 \<noteq> 0) c
         in Some (s', (case ch of None \<Rightarrow> c' | Some x \<Rightarrow> vga_put_char x c'))))"
proof -
  let ?d = "read_bytes m p len"
  have get: "i < len \<Longrightarrow> array_get ?d i = Some (m (p + of_nat i))" for i
    by (simp add: array_get_def read_bytes_def)
  have f: "foldM (\<lambda>i s. Option.bind (array_get ?d i) (\<lambda>b. Some (serial_write_fmt (fmt_hex 2 b @ [32]) s))) [0..<len] s0 =
      Some (fold (\<lambda>i. serial_write_fmt (fmt_hex 2 (m (p + of_nat i)) @ [32])) [0..<len] s0)" for s0
    by (rule foldM_fold) (simp add: get)
  show ?thesis
  proof (cases "len < 3")
    case True
    then have "array_get ?d 2 = None" by (simp add: array_get_def read_bytes_def)
    moreover have "(case x of None \<Rightarrow> None | Some _ \<Rightarrow> None) = None" for x :: "u8 option" by (cases x) simp_all
    ultimately show ?thesis using True by (simp add: decode_hid_report_def f Let_def Option.bind_eq_None_conv)
  next
    case False
    then show ?thesis
      by (simp add: decode_hid_report_def f get Let_def split: prod.split option.split)
  qed
qed

text \<open>C35: On the bytes of any well-formed configuration the parser finds exactly the first interrupt IN
  endpoint that follows a boot keyboard interface, with its packet size and interval, or nothing if
  the configuration has none.\<close>
theorem parser_finds_keyboard_endpoint:
  assumes "list_all descriptor_ok ds" "read_bytes m cfg_phys (unat total_len) = concat (map encode_descriptor ds)"
  shows "parse_hid_keyboard_endpoint m cfg_phys total_len = Some (keyboard_endpoint ds False)"
  using parse_configuration [OF assms(1), of "[]" False] assms(2) by (simp add: parse_hid_keyboard_endpoint_def)

theorem parser_finds_keyboard_endpoint_witness:
  "parse_hid_keyboard_endpoint
     (\<lambda>x. [9, 4, 0, 0, 1, 3, 1, 1, 0, 4, 33, 17, 1, 7, 5, 0x81, 3, 8, 0, 10] ! unat x) 0 20 = Some (Some (0x81, 8, 10))"
proof -
  let ?ds = "[Interface \<lparr>if_number = 0, if_alternate = 0, if_endpoints = 1, if_class = 3, if_subclass = 1, if_protocol = 1, if_string = 0\<rparr>,
    OtherDescriptor 33 [17, 1], Endpoint 0x81 3 8 10]"
  have "read_bytes (\<lambda>x. [9, 4, 0, 0, 1, 3, 1, 1, 0, 4, 33, 17, 1, 7, 5, 0x81, 3, 8, 0, 10] ! unat x) 0 (unat (20 :: u16)) =
      concat (map encode_descriptor ?ds)"
    by (simp add: read_bytes_def upt_rec)
  from parser_finds_keyboard_endpoint [OF _ this] show ?thesis by (simp add: boot_keyboard_def)
qed

text \<open>Whatever bytes the device returns as its configuration, the parser ends and never indexes
  outside the slice.\<close>
theorem parser_never_panics: "\<exists>r. parse_hid_keyboard_endpoint m cfg_phys total_len = Some r"
  using parse_loop_total [of "read_bytes m cfg_phys (unat total_len)" 0 False]
  by (auto simp: parse_hid_keyboard_endpoint_def)

text \<open>The report decoder panics exactly on a report shorter than three bytes (the length comes from
  the device); a longer one is logged in full and echoes the character of its first key only.\<close>
theorem report_decoder_panics_iff_short:
  "(decode_hid_report m p len s c = None) = (len < 3) \<and>
   (if len < 3 then True
    else \<exists>s' c'. decode_hid_report m p len s c = Some (s', c') \<and>
      com1_sent s' = com1_sent s @ (if INITIALIZED s
        then with_cr (str_bytes ''[hid] data: '') @
             concat (map (\<lambda>i. with_cr (fmt_hex 2 (m (p + of_nat i)) @ [32])) [0..<len]) @ with_cr CRLF
        else []))"
proof -
  have f: "com1_sent (fold (\<lambda>i. serial_write_fmt (g i)) is s0) =
      com1_sent s0 @ (if INITIALIZED s0 then concat (map (\<lambda>i. with_cr (g i)) is) else []) \<and>
      INITIALIZED (fold (\<lambda>i. serial_write_fmt (g i)) is s0) = INITIALIZED s0" for g :: "nat \<Rightarrow> bytes" and "is" s0
    by (induction "is" arbitrary: s0) simp_all
  show ?thesis unfolding decode_prints by (auto simp: f Let_def split: prod.split)
qed

end
