(* ===== verification/Bootinfo.thy ===== *)
theory Bootinfo
  imports Kernel_Prelude
begin

text \<open>
  The boot information handed over by stage2 (\<^verbatim>\<open>kernel/src/bootinfo.rs\<close>): the E820-style
  memory map in physical memory, its iterator with the stride the boot loader announces, and the
  classification of regions.
\<close>

record MemoryMapEntry =
  base_addr :: u64
  region_length :: u64
  region_type :: u32
  attributes :: u32

record BootInfo =
  memory_map_ptr :: u64
  memory_map_len :: u64
  memory_map_entry_size :: u64
  initrd_base :: u64
  initrd_len :: u64

datatype MemoryRegionKind = Usable | Reserved | AcpiReclaimable | AcpiNvs | BadMemory | Unknown u32

definition kind_as_str :: "MemoryRegionKind \<Rightarrow> string" where
  "kind_as_str k =
     (case k of
        Usable \<Rightarrow> ''Usable''
      | Reserved \<Rightarrow> ''Reserved''
      | AcpiReclaimable \<Rightarrow> ''ACPI Reclaimable''
      | AcpiNvs \<Rightarrow> ''ACPI NVS''
      | BadMemory \<Rightarrow> ''Bad Memory''
      | Unknown _ \<Rightarrow> ''Unknown'')"

definition entry_kind :: "MemoryMapEntry \<Rightarrow> MemoryRegionKind" where
  "entry_kind e =
     (if region_type e = 1 then Usable
      else if region_type e = 2 then Reserved
      else if region_type e = 3 then AcpiReclaimable
      else if region_type e = 4 then AcpiNvs
      else if region_type e = 5 then BadMemory
      else Unknown (region_type e))"

definition is_usable :: "MemoryMapEntry \<Rightarrow> bool" where
  "is_usable e \<longleftrightarrow> region_type e = 1"

record MemoryMapIter =
  iter_ptr :: u64
  remaining :: u64
  stride :: usize

definition MEMORY_MAP_ENTRY_BYTES :: u64 where
  "MEMORY_MAP_ENTRY_BYTES = 24"

definition memory_map :: "BootInfo \<Rightarrow> MemoryMapIter" where
  "memory_map b =
     \<lparr>iter_ptr = memory_map_ptr b, remaining = memory_map_len b,
      stride = max (memory_map_entry_size b) MEMORY_MAP_ENTRY_BYTES\<rparr>"

definition read_entry :: "mem \<Rightarrow> u64 \<Rightarrow> MemoryMapEntry" where
  "read_entry m p =
     \<lparr>base_addr = le_word (read_bytes m p 8), region_length = le_word (read_bytes m (p + 8) 8),
      region_type = le_word (read_bytes m (p + 16) 4), attributes = le_word (read_bytes m (p + 20) 4)\<rparr>"

definition iter_next :: "mem \<Rightarrow> MemoryMapIter \<Rightarrow> (MemoryMapEntry \<times> MemoryMapIter) option" where
  "iter_next m it =
     (if remaining it = 0 then None
      else Some (read_entry m (iter_ptr it),
                 it\<lparr>iter_ptr := iter_ptr it + stride it, remaining := remaining it - 1\<rparr>))"

lemma iter_next_remaining:
  "iter_next m it = Some (e, it') \<Longrightarrow> unat (remaining it') < unat (remaining it)"
  by (auto simp: iter_next_def unat_minus_one unat_gt_0 split: if_splits)

function iter_entries :: "mem \<Rightarrow> MemoryMapIter \<Rightarrow> MemoryMapEntry list" where
  "iter_entries m it =
     (case iter_next m it of None \<Rightarrow> [] | Some (e, it') \<Rightarrow> e # iter_entries m it')"
  by pat_completeness auto
termination
  by (relation "measure (\<lambda>(m, it). unat (remaining it))") (auto dest: iter_next_remaining)

declare iter_entries.simps [simp del]

text \<open>The iterator visits exactly the announced number of entries, at multiples of the stride.\<close>

lemma iter_entries_eq:
  "iter_entries m it =
     map (\<lambda>i. read_entry m (iter_ptr it + of_nat i * stride it)) [0..<unat (remaining it)]"
proof (induction m it rule: iter_entries.induct)
  case (1 m it)
  show ?case
  proof (cases "remaining it = 0")
    case True
    then show ?thesis by (simp add: iter_entries.simps [of m it] iter_next_def)
  next
    case False
    let ?it = "it\<lparr>iter_ptr := iter_ptr it + stride it, remaining := remaining it - 1\<rparr>"
    have n: "unat (remaining it) = Suc (unat (remaining it - 1))"
      using False by (simp add: unat_minus_one unat_gt_0)
    have nx: "iter_next m it = Some (read_entry m (iter_ptr it), ?it)"
      using False by (simp add: iter_next_def)
    have "iter_entries m ?it =
      map (\<lambda>i. read_entry m (iter_ptr ?it + of_nat i * stride ?it)) [0..<unat (remaining ?it)]"
      using 1 nx by blast
    then show ?thesis
      by (simp add: iter_entries.simps [of m it] nx n upt_conv_Cons map_Suc_upt [symmetric]
          algebra_simps del: upt_Suc)
  qed
qed

end
