(* ===== verification/Pmm.thy ===== *)
theory Pmm
  imports Bootinfo Serial
begin

text \<open>
  The physical memory manager (\<^verbatim>\<open>kernel/src/pmm.rs\<close>): the choice of the region handed out, the
  bump allocator with its compare-and-exchange loop, and the accounting of free memory. The
  sequential operation \<open>alloc_aligned\<close> is the loop with an undisturbed exchange; the relation
  \<open>pmm_step\<close> has one step per atomic access and any number of allocating threads.
\<close>

section \<open>The allocator\<close>

record pmm =
  NEXT_FREE :: u64
  LIMIT :: u64

definition PAGE_SIZE :: u64 where
  "PAGE_SIZE = 4096"

definition pmm_static :: pmm where
  "pmm_static = \<lparr>NEXT_FREE = 0, LIMIT = 0\<rparr>"

definition align_up :: "u64 \<Rightarrow> u64 \<Rightarrow> u64" where
  "align_up value align = (value + align - 1) AND NOT (align - 1)"

definition align_down :: "u64 \<Rightarrow> u64 \<Rightarrow> u64" where
  "align_down value align = value AND NOT (align - 1)"

definition consider_entry :: "MemoryMapEntry \<Rightarrow> u64 \<times> u64 \<Rightarrow> u64 \<times> u64" where
  "consider_entry entry best =
     (if \<not> is_usable entry then best
      else
        let start = align_up (base_addr entry) PAGE_SIZE;
            stop = align_down (base_addr entry + region_length entry) PAGE_SIZE
        in if stop \<le> start then best
           else
             let usable = stop - start
             in if usable > snd best then (start, usable) else best)"

definition best_region :: "MemoryMapEntry list \<Rightarrow> u64 \<times> u64" where
  "best_region es = fold consider_entry es (0, 0)"

definition pmm_init :: "mem \<Rightarrow> BootInfo \<Rightarrow> pmm \<times> io \<Rightarrow> pmm \<times> io" where
  "pmm_init m boot st =
     (let (p, s) = st;
          (best_base, best_len) = best_region (iter_entries m (memory_map boot))
      in if best_len \<ge> PAGE_SIZE then
           (p\<lparr>NEXT_FREE := best_base, LIMIT := best_base + best_len\<rparr>,
            serial_write_fmt
              (str_bytes ''[pmm] using region '' @ fmt_alt_hex 0 best_base @ str_bytes ''-'' @
               fmt_alt_hex 0 (best_base + best_len) @ CRLF) s)
         else (p, serial_write_str (str_bytes ''[pmm] no usable memory found'' @ CRLF) s))"

datatype attempt = GiveUp | TryExchange u64 u64

definition bad_align :: "u64 \<Rightarrow> bool" where
  "bad_align align \<longleftrightarrow> align = 0 \<or> align AND (align - 1) \<noteq> 0"

definition adj_size :: "u64 \<Rightarrow> u64 \<Rightarrow> u64" where
  "adj_size sz align = align_up sz (max PAGE_SIZE align)"

definition alloc_attempt :: "u64 \<Rightarrow> u64 \<Rightarrow> u64 \<Rightarrow> u64 \<Rightarrow> attempt" where
  "alloc_attempt sz align current limit =
     (if current = 0 \<or> current \<ge> limit then GiveUp
      else
        let aligned = align_up current align
        in case checked_add aligned (adj_size sz align) of
             None \<Rightarrow> GiveUp
           | Some stop \<Rightarrow> if stop > limit then GiveUp else TryExchange aligned stop)"

definition alloc_aligned :: "u64 \<Rightarrow> u64 \<Rightarrow> pmm \<Rightarrow> u64 option \<times> pmm" where
  "alloc_aligned sz align p =
     (if bad_align align then (None, p)
      else case alloc_attempt sz align (NEXT_FREE p) (LIMIT p) of
             GiveUp \<Rightarrow> (None, p)
           | TryExchange aligned stop \<Rightarrow> (Some aligned, p\<lparr>NEXT_FREE := stop\<rparr>))"

definition alloc_page :: "pmm \<Rightarrow> u64 option \<times> pmm" where
  "alloc_page p = alloc_aligned PAGE_SIZE PAGE_SIZE p"

definition free_kib :: "pmm \<Rightarrow> u64" where
  "free_kib p =
     (if NEXT_FREE p = 0 \<or> LIMIT p \<le> NEXT_FREE p then 0 else (LIMIT p - NEXT_FREE p) div 1024)"

section \<open>Concurrent callers\<close>

text \<open>
  One call of \<open>alloc_aligned\<close> by a thread: before the load of \<open>NEXT_FREE\<close>, between the two
  loads, before the exchange, and returned. A step is one atomic access; a failed exchange goes
  back to the first load, as the source's loop does. \<open>grants\<close> records every successful exchange:
  the thread, the start and the length of the block.
\<close>

datatype apc = LoadNext | LoadLimit u64 | Exchange u64 u64 u64 | Returned "u64 option"

record thread =
  req_size :: u64
  req_align :: u64
  pc :: apc

record alloc_sys =
  shared :: pmm
  threads :: "nat \<Rightarrow> thread"
  grants :: "(nat \<times> u64 \<times> u64) list"

definition goto :: "nat \<Rightarrow> apc \<Rightarrow> alloc_sys \<Rightarrow> alloc_sys" where
  "goto i c s = s\<lparr>threads := (threads s)(i := threads s i\<lparr>pc := c\<rparr>)\<rparr>"

inductive pmm_step :: "alloc_sys \<Rightarrow> alloc_sys \<Rightarrow> bool" where
  call: "pc (threads s i) = Returned r \<Longrightarrow>
     pmm_step s (s\<lparr>threads := (threads s)(i :=
       \<lparr>req_size = sz, req_align = al, pc = (if bad_align al then Returned None else LoadNext)\<rparr>)\<rparr>)"
| load_next: "pc (threads s i) = LoadNext \<Longrightarrow>
     pmm_step s (goto i (LoadLimit (NEXT_FREE (shared s))) s)"
| load_limit_give_up: "pc (threads s i) = LoadLimit cur \<Longrightarrow>
     alloc_attempt (req_size (threads s i)) (req_align (threads s i)) cur (LIMIT (shared s)) = GiveUp \<Longrightarrow>
     pmm_step s (goto i (Returned None) s)"
| load_limit_try: "pc (threads s i) = LoadLimit cur \<Longrightarrow>
     alloc_attempt (req_size (threads s i)) (req_align (threads s i)) cur (LIMIT (shared s)) = TryExchange a e \<Longrightarrow>
     pmm_step s (goto i (Exchange cur a e) s)"
| exchange_ok: "pc (threads s i) = Exchange cur a e \<Longrightarrow> NEXT_FREE (shared s) = cur \<Longrightarrow>
     pmm_step s (goto i (Returned (Some a))
       (s\<lparr>shared := (shared s)\<lparr>NEXT_FREE := e\<rparr>, grants := grants s @ [(i, a, e - a)]\<rparr>))"
| exchange_fail: "pc (threads s i) = Exchange cur a e \<Longrightarrow> NEXT_FREE (shared s) \<noteq> cur \<Longrightarrow>
     pmm_step s (goto i LoadNext s)"

inductive_cases pmm_stepE: "pmm_step s t"

inductive pmm_reach :: "pmm \<Rightarrow> alloc_sys \<Rightarrow> bool" for p where
  start: "(\<And>i. pc (ths i) = Returned None) \<Longrightarrow> pmm_reach p \<lparr>shared = p, threads = ths, grants = []\<rparr>"
| step: "pmm_reach p s \<Longrightarrow> pmm_step s t \<Longrightarrow> pmm_reach p t"

section \<open>Alignment\<close>

definition round_up :: "nat \<Rightarrow> nat \<Rightarrow> nat" where
  "round_up a n = (n + a - 1) div a * a"

definition round_down :: "nat \<Rightarrow> nat \<Rightarrow> nat" where
  "round_down a n = n div a * a"

lemma round_up_props:
  assumes "0 < a"
  shows "n \<le> round_up a n" "round_up a n \<le> n + a - 1" "a dvd round_up a n"
proof -
  have "(n + a - 1) mod a < a" using assms by simp
  moreover have "(n + a - 1) div a * a + (n + a - 1) mod a = n + a - 1" by (rule div_mult_mod_eq)
  ultimately show "n \<le> round_up a n" "round_up a n \<le> n + a - 1"
    using assms unfolding round_up_def by linarith+
  show "a dvd round_up a n" by (simp add: round_up_def)
qed

lemma not_bad_alignE:
  assumes "\<not> bad_align al"
  obtains n where "n < 64" "al = 2 ^ n" "unat al = 2 ^ n"
proof -
  have "al \<noteq> 0" "al AND (al - 1) = 0" using assms by (auto simp: bad_align_def)
  from pow2_of_and_pred [OF this] obtain n where n: "n < 64" "al = 2 ^ n" by auto
  then have "unat al = 2 ^ n" by (simp add: unat_pow2)
  with n that show ?thesis by blast
qed

lemma unat_align_up:
  assumes "\<not> bad_align al" and "unat v + unat al \<le> 2 ^ 64"
  shows "unat (align_up v al) = round_up (unat al) (unat v)"
proof -
  from assms(1) obtain n where n: "n < 64" "al = 2 ^ n" "unat al = 2 ^ n" by (rule not_bad_alignE)
  have "unat (al - 1) = unat al - 1"
    using n by (simp add: unat_minus_one)
  then have "unat (v + (al - 1)) = unat v + (unat al - 1)"
    using assms(2) n by (subst unat_add_no_wrap) auto
  then have sum: "unat (v + al - 1) = unat v + unat al - 1"
    using n by (simp add: algebra_simps)
  have "al - 1 = mask n" using n by (simp add: mask_eq_exp_minus_1)
  then have "unat (align_up v al) = unat (v + al - 1) div 2 ^ n * 2 ^ n"
    by (simp add: align_up_def and_not_mask_unat)
  then show ?thesis by (simp add: sum round_up_def n(3))
qed

lemma unat_align_down:
  assumes "\<not> bad_align al"
  shows "unat (align_down v al) = round_down (unat al) (unat v)"
proof -
  from assms obtain n where n: "n < 64" "al = 2 ^ n" "unat al = 2 ^ n" by (rule not_bad_alignE)
  have "al - 1 = mask n" using n by (simp add: mask_eq_exp_minus_1)
  then show ?thesis by (simp add: align_down_def and_not_mask_unat round_down_def n(3))
qed

lemma page_size_align [simp]: "\<not> bad_align PAGE_SIZE" "unat PAGE_SIZE = 4096"
  by (simp_all add: bad_align_def PAGE_SIZE_def)

section \<open>One allocation\<close>

lemma alloc_attempt_TryD:
  assumes "alloc_attempt sz al cur lim = TryExchange a e"
    and "\<not> bad_align al" and "unat lim \<le> 2 ^ 63"
  shows "cur \<noteq> 0" "unat a = round_up (unat al) (unat cur)" "unat e = unat a + unat (adj_size sz al)"
    "unat e \<le> unat lim" "unat cur \<le> unat a" "unat al dvd unat a"
proof -
  from assms(1) have c: "cur \<noteq> 0" "cur < lim" and a: "a = align_up cur al"
    and e: "checked_add a (adj_size sz al) = Some e" "e \<le> lim"
    by (auto simp: alloc_attempt_def Let_def split: if_splits option.splits)
  from assms(2) obtain n where n: "n < 64" "unat al = 2 ^ n" by (rule not_bad_alignE)
  then have al: "unat al \<le> 2 ^ 63"
    using power_increasing [of n 63 "2::nat"] by simp
  have "unat cur < 2 ^ 63" using c(2) assms(3) by (simp add: word_less_nat_alt)
  with al have nw: "unat cur + unat al \<le> 2 ^ 64" by simp
  show "cur \<noteq> 0" by (rule c)
  show ua: "unat a = round_up (unat al) (unat cur)"
    unfolding a by (rule unat_align_up [OF assms(2) nw])
  show "unat e = unat a + unat (adj_size sz al)" by (rule checked_add_SomeD [OF e(1)])
  show "unat e \<le> unat lim" using e(2) by (simp add: word_le_nat_alt)
  show "unat cur \<le> unat a" "unat al dvd unat a"
    unfolding ua using round_up_props [of "unat al" "unat cur"] n by simp_all
qed

lemma adj_size_covers:
  assumes "\<not> bad_align al" and "unat sz \<le> 2 ^ 63"
  shows "unat (adj_size sz al) = round_up (max 4096 (unat al)) (unat sz)" "unat sz \<le> unat (adj_size sz al)"
proof -
  from assms(1) obtain n where n: "n < 64" "unat al = 2 ^ n" by (rule not_bad_alignE)
  then have al: "unat al \<le> 2 ^ 63"
    using power_increasing [of n 63 "2::nat"] by simp
  have m: "unat (max PAGE_SIZE al) = max 4096 (unat al)"
    by (auto simp: max_def word_le_nat_alt)
  have "\<not> bad_align (max PAGE_SIZE al)"
    using assms(1) by (auto simp: max_def)
  moreover have "unat sz + unat (max PAGE_SIZE al) \<le> 2 ^ 64"
    using assms(2) al by (auto simp: m max_def)
  ultimately show eq: "unat (adj_size sz al) = round_up (max 4096 (unat al)) (unat sz)"
    unfolding adj_size_def m [symmetric] by (rule unat_align_up)
  show "unat sz \<le> unat (adj_size sz al)"
    unfolding eq by (rule round_up_props(1)) simp
qed

lemma alloc_aligned_NoneD: "alloc_aligned sz al p = (None, p') \<Longrightarrow> p' = p"
  by (auto simp: alloc_aligned_def split: if_splits attempt.splits)

lemma alloc_aligned_LIMIT: "alloc_aligned sz al p = (r, p') \<Longrightarrow> LIMIT p' = LIMIT p"
  by (auto simp: alloc_aligned_def split: if_splits attempt.splits)

lemma alloc_aligned_SomeD:
  assumes "alloc_aligned sz al p = (Some a, p')" and "unat (LIMIT p) \<le> 2 ^ 63"
  shows "\<not> bad_align al" "unat (NEXT_FREE p) \<le> unat a" "unat al dvd unat a" "a \<noteq> 0"
    "unat (NEXT_FREE p') = unat a + unat (adj_size sz al)" "unat (NEXT_FREE p') \<le> unat (LIMIT p)"
proof -
  from assms(1) have b: "\<not> bad_align al" and t: "alloc_attempt sz al (NEXT_FREE p) (LIMIT p) = TryExchange a (NEXT_FREE p')"
    by (auto simp: alloc_aligned_def split: if_splits attempt.splits)
  note d = alloc_attempt_TryD [OF t b assms(2)]
  show "\<not> bad_align al" by (rule b)
  show "unat (NEXT_FREE p) \<le> unat a" "unat al dvd unat a"
    "unat (NEXT_FREE p') = unat a + unat (adj_size sz al)" "unat (NEXT_FREE p') \<le> unat (LIMIT p)"
    by (rule d)+
  show "a \<noteq> 0" using d(1,5) by (metis unat_0 unat_0_iff le_zero_eq)
qed

section \<open>A region allocator\<close>

text \<open>
  What a driver may rely on: a granted block starts at or above the current mark, is aligned,
  covers the request and ends at the new mark, within a fixed top; a refusal changes nothing.
  Any sequence of requests then yields blocks in ascending order without overlap.
\<close>

fun alloc_seq :: "(u64 \<Rightarrow> u64 \<Rightarrow> 's \<Rightarrow> u64 option \<times> 's) \<Rightarrow> (u64 \<times> u64) list \<Rightarrow> 's \<Rightarrow> (u64 \<times> u64) list \<times> 's" where
  "alloc_seq alloc [] s = ([], s)"
| "alloc_seq alloc ((sz, al) # reqs) s =
     (case alloc sz al s of
        (None, s') \<Rightarrow> alloc_seq alloc reqs s'
      | (Some a, s') \<Rightarrow> (let (bs, s'') = alloc_seq alloc reqs s' in ((a, sz) # bs, s'')))"

fun ascending_from :: "nat \<Rightarrow> (u64 \<times> u64) list \<Rightarrow> nat \<Rightarrow> bool" where
  "ascending_from lo [] hi \<longleftrightarrow> lo \<le> hi"
| "ascending_from lo ((a, sz) # bs) hi \<longleftrightarrow> lo \<le> unat a \<and> ascending_from (unat a + unat sz) bs hi"

lemma ascending_from_le: "ascending_from lo bs hi \<Longrightarrow> lo \<le> hi"
  by (induction lo bs hi rule: ascending_from.induct) auto

lemma ascending_from_mono: "ascending_from lo bs hi \<Longrightarrow> lo' \<le> lo \<Longrightarrow> ascending_from lo' bs hi"
  by (induction lo bs hi arbitrary: lo' rule: ascending_from.induct) auto

lemma ascending_from_bounds:
  "ascending_from lo bs hi \<Longrightarrow> (a, sz) \<in> set bs \<Longrightarrow> lo \<le> unat a \<and> unat a + unat sz \<le> hi"
proof (induction lo bs hi rule: ascending_from.induct)
  case (2 lo b z bs hi)
  then show ?case using ascending_from_le [of "unat b + unat z" bs hi] by auto
qed simp

lemma ascending_from_disjoint:
  "ascending_from lo bs hi \<Longrightarrow> i < j \<Longrightarrow> j < length bs \<Longrightarrow>
   unat (fst (bs ! i)) + unat (snd (bs ! i)) \<le> unat (fst (bs ! j))"
proof (induction lo bs hi arbitrary: i j rule: ascending_from.induct)
  case (2 lo b z bs hi)
  then obtain j' where j: "j = Suc j'" by (cases j) auto
  show ?case
  proof (cases i)
    case 0
    have "(fst (bs ! j'), snd (bs ! j')) \<in> set bs" using 2(4) j by simp
    with 2(2) have "unat b + unat z \<le> unat (fst (bs ! j'))"
      using ascending_from_bounds by fastforce
    then show ?thesis using 0 j by simp
  next
    case (Suc i')
    then show ?thesis using 2 j by simp
  qed
qed simp

locale region_allocator =
  fixes alloc :: "u64 \<Rightarrow> u64 \<Rightarrow> 's \<Rightarrow> u64 option \<times> 's"
    and mark :: "'s \<Rightarrow> nat"
    and top :: "'s \<Rightarrow> nat"
    and good :: "'s \<Rightarrow> bool"
    and fits :: "u64 \<Rightarrow> bool"
  assumes grant: "good s \<Longrightarrow> fits sz \<Longrightarrow> alloc sz al s = (Some a, s') \<Longrightarrow>
      mark s \<le> unat a \<and> unat al dvd unat a \<and> unat a + unat sz \<le> mark s' \<and> mark s' \<le> top s"
    and refuse: "alloc sz al s = (None, s') \<Longrightarrow> s' = s"
    and top_keeps: "alloc sz al s = (r, s') \<Longrightarrow> top s' = top s"
    and good_keeps: "good s \<Longrightarrow> alloc sz al s = (r, s') \<Longrightarrow> good s'"
begin

lemma seq_ascending:
  "good s \<Longrightarrow> list_all (fits \<circ> fst) reqs \<Longrightarrow> mark s \<le> top s \<Longrightarrow> alloc_seq alloc reqs s = (bs, s') \<Longrightarrow>
   ascending_from (mark s) bs (mark s') \<and> mark s' \<le> top s \<and> good s'"
proof (induction reqs arbitrary: s bs)
  case Nil
  then show ?case by simp
next
  case (Cons req reqs)
  obtain sz al where req: "req = (sz, al)" by (cases req)
  obtain r s1 where r: "alloc sz al s = (r, s1)" by (cases "alloc sz al s")
  show ?case
  proof (cases r)
    case None
    with refuse r have "s1 = s" by blast
    then show ?thesis using Cons.IH [of s bs] Cons.prems r None req by simp
  next
    case (Some a)
    obtain bs1 s2 where rest: "alloc_seq alloc reqs s1 = (bs1, s2)" by (cases "alloc_seq alloc reqs s1")
    have bs: "bs = (a, sz) # bs1" "s' = s2" using Cons.prems(4) r Some rest req by auto
    have g: "mark s \<le> unat a" "unat a + unat sz \<le> mark s1" "mark s1 \<le> top s"
      using grant [of s sz al a s1] Cons.prems r Some req by auto
    have k: "good s1" "top s1 = top s"
      using good_keeps [OF Cons.prems(1) r] top_keeps [OF r] by auto
    have "ascending_from (mark s1) bs1 (mark s') \<and> mark s' \<le> top s1 \<and> good s'"
      using Cons.IH [of s1 bs1] Cons.prems(2) g k rest bs(2) by simp
    then show ?thesis
      using g k bs ascending_from_mono [of "mark s1" bs1 "mark s'" "unat a + unat sz"] by simp
  qed
qed

lemma seq_disjoint:
  assumes "good s" "list_all (fits \<circ> fst) reqs" "mark s \<le> top s" "alloc_seq alloc reqs s = (bs, s')"
    and "i < j" "j < length bs"
  shows "mark s \<le> unat (fst (bs ! i))"
    and "unat (fst (bs ! i)) + unat (snd (bs ! i)) \<le> unat (fst (bs ! j))"
    and "unat (fst (bs ! j)) + unat (snd (bs ! j)) \<le> top s"
proof -
  have asc: "ascending_from (mark s) bs (mark s')" and top: "mark s' \<le> top s"
    using seq_ascending [OF assms(1-4)] by auto
  have mem: "(fst (bs ! k), snd (bs ! k)) \<in> set bs" if "k < length bs" for k using that by simp
  show "mark s \<le> unat (fst (bs ! i))"
    using ascending_from_bounds [OF asc mem [of i]] assms by simp
  show "unat (fst (bs ! i)) + unat (snd (bs ! i)) \<le> unat (fst (bs ! j))"
    using ascending_from_disjoint [OF asc assms(5,6)] .
  show "unat (fst (bs ! j)) + unat (snd (bs ! j)) \<le> top s"
    using ascending_from_bounds [OF asc mem [of j]] assms top by simp
qed

end

definition pmm_good :: "pmm \<Rightarrow> bool" where
  "pmm_good p \<longleftrightarrow> LIMIT p \<le> 2 ^ 63 \<and> NEXT_FREE p \<le> LIMIT p"

definition modest :: "u64 \<Rightarrow> bool" where
  "modest sz \<longleftrightarrow> sz \<le> 2 ^ 63"

lemma pmm_good_nat: "pmm_good p \<longleftrightarrow> unat (LIMIT p) \<le> 2 ^ 63 \<and> unat (NEXT_FREE p) \<le> unat (LIMIT p)"
  by (simp add: pmm_good_def word_le_nat_alt unat_pow2)

lemma modest_nat: "modest sz \<longleftrightarrow> unat sz \<le> 2 ^ 63"
  by (simp add: modest_def word_le_nat_alt unat_pow2)

lemma alloc_aligned_grant:
  assumes "pmm_good p" "modest sz" "alloc_aligned sz al p = (Some a, p')"
  shows "unat (NEXT_FREE p) \<le> unat a \<and> unat al dvd unat a \<and>
    unat a + unat sz \<le> unat (NEXT_FREE p') \<and> unat (NEXT_FREE p') \<le> unat (LIMIT p)"
proof -
  have lim: "unat (LIMIT p) \<le> 2 ^ 63" using assms(1) by (simp add: pmm_good_nat)
  note d = alloc_aligned_SomeD [OF assms(3) lim]
  show ?thesis using d adj_size_covers(2) [OF d(1)] assms(2) by (auto simp: modest_nat)
qed

lemma alloc_aligned_good: "pmm_good p \<Longrightarrow> alloc_aligned sz al p = (r, p') \<Longrightarrow> pmm_good p'"
  using alloc_aligned_SomeD(6) [of sz al p _ p'] alloc_aligned_LIMIT [of sz al p r p'] alloc_aligned_NoneD [of sz al p p']
  by (cases r) (auto simp: pmm_good_nat)

interpretation pmm_alloc: region_allocator alloc_aligned "\<lambda>p. unat (NEXT_FREE p)" "\<lambda>p. unat (LIMIT p)" pmm_good modest
proof unfold_locales
  show "unat (NEXT_FREE s) \<le> unat a \<and> unat al dvd unat a \<and> unat a + unat sz \<le> unat (NEXT_FREE s') \<and>
      unat (NEXT_FREE s') \<le> unat (LIMIT s)"
    if "pmm_good s" "modest sz" "alloc_aligned sz al s = (Some a, s')" for s sz al a s'
    using that by (rule alloc_aligned_grant)
qed (auto dest: alloc_aligned_NoneD alloc_aligned_LIMIT alloc_aligned_good)

section \<open>Concurrent allocations\<close>

lemma ascending_from_snoc:
  "ascending_from lo bs mid \<Longrightarrow> mid \<le> unat a \<Longrightarrow> unat a + unat z \<le> hi \<Longrightarrow> ascending_from lo (bs @ [(a, z)]) hi"
  by (induction lo bs mid rule: ascending_from.induct) auto

definition thread_ok :: "pmm \<Rightarrow> (nat \<times> u64 \<times> u64) list \<Rightarrow> nat \<Rightarrow> thread \<Rightarrow> bool" where
  "thread_ok p gs i t \<longleftrightarrow>
     (case pc t of
        LoadNext \<Rightarrow> \<not> bad_align (req_align t)
      | LoadLimit cur \<Rightarrow> \<not> bad_align (req_align t) \<and> cur \<le> NEXT_FREE p
      | Exchange cur a e \<Rightarrow> \<not> bad_align (req_align t) \<and> cur \<le> NEXT_FREE p \<and>
          alloc_attempt (req_size t) (req_align t) cur (LIMIT p) = TryExchange a e
      | Returned None \<Rightarrow> True
      | Returned (Some a) \<Rightarrow> \<not> bad_align (req_align t) \<and> unat (req_align t) dvd unat a \<and>
          (i, a, adj_size (req_size t) (req_align t)) \<in> set gs)"

definition alloc_inv :: "pmm \<Rightarrow> alloc_sys \<Rightarrow> bool" where
  "alloc_inv p s \<longleftrightarrow>
     LIMIT (shared s) = LIMIT p \<and> NEXT_FREE (shared s) \<le> LIMIT p \<and>
     ascending_from (unat (NEXT_FREE p)) (map snd (grants s)) (unat (NEXT_FREE (shared s))) \<and>
     (\<forall>i. thread_ok (shared s) (grants s) i (threads s i))"

lemma thread_ok_mono:
  assumes "thread_ok p gs i t" "NEXT_FREE p \<le> NEXT_FREE p'" "LIMIT p' = LIMIT p" "set gs \<subseteq> set gs'"
  shows "thread_ok p' gs' i t"
  using assms by (auto simp: thread_ok_def split: apc.splits option.splits)

lemma alloc_inv_goto:
  assumes "alloc_inv p s" and "thread_ok (shared s) (grants s) i (threads s i\<lparr>pc := c\<rparr>)"
  shows "alloc_inv p (goto i c s)"
  using assms by (auto simp: alloc_inv_def goto_def)

lemma thread_ok_at: "alloc_inv p s \<Longrightarrow> thread_ok (shared s) (grants s) i (threads s i)"
  by (simp add: alloc_inv_def)

lemma alloc_inv_step:
  assumes "pmm_step s t" and "alloc_inv p s" and lim: "unat (LIMIT p) \<le> 2 ^ 63"
  shows "alloc_inv p t"
  using assms(1)
proof cases
  case (call i r sz al)
  with assms(2) show ?thesis by (auto simp: alloc_inv_def thread_ok_def)
next
  case (load_next i)
  with thread_ok_at [OF assms(2), of i] show ?thesis
    by (auto intro!: alloc_inv_goto [OF assms(2)] simp: thread_ok_def)
next
  case (load_limit_give_up i cur)
  then show ?thesis by (auto intro!: alloc_inv_goto [OF assms(2)] simp: thread_ok_def)
next
  case (load_limit_try i cur a e)
  with thread_ok_at [OF assms(2), of i] show ?thesis
    by (auto intro!: alloc_inv_goto [OF assms(2)] simp: thread_ok_def)
next
  case (exchange_fail i cur a e)
  with thread_ok_at [OF assms(2), of i] show ?thesis
    by (auto intro!: alloc_inv_goto [OF assms(2)] simp: thread_ok_def)
next
  case (exchange_ok i cur a e)
  let ?th = "threads s i" and ?p = "(shared s)\<lparr>NEXT_FREE := e\<rparr>" and ?gs = "grants s @ [(i, a, e - a)]"
  have L: "LIMIT (shared s) = LIMIT p" using assms(2) by (simp add: alloc_inv_def)
  have ok: "\<not> bad_align (req_align ?th)"
    "alloc_attempt (req_size ?th) (req_align ?th) cur (LIMIT p) = TryExchange a e"
    using thread_ok_at [OF assms(2), of i] exchange_ok(2) by (auto simp: thread_ok_def L)
  note d = alloc_attempt_TryD [OF ok(2,1) lim]
  have ae: "a \<le> e" "unat (e - a) = unat e - unat a" "e - a = adj_size (req_size ?th) (req_align ?th)"
    using d(3) by (auto simp: word_le_nat_alt unat_sub intro: word_unat_eq_iff [THEN iffD2])
  have up: "NEXT_FREE (shared s) \<le> e"
    using d(3,5) exchange_ok(3) by (simp add: word_le_nat_alt)
  have asc: "ascending_from (unat (NEXT_FREE p)) (map snd ?gs) (unat e)"
    using assms(2) d(3,5) ae exchange_ok(3)
    by (auto simp: alloc_inv_def intro!: ascending_from_snoc)
  have "thread_ok ?p ?gs j (threads s j)" for j
    by (rule thread_ok_mono [OF thread_ok_at [OF assms(2)]]) (use up in auto)
  moreover have "thread_ok ?p ?gs i (?th\<lparr>pc := Returned (Some a)\<rparr>)"
    using ok(1) d(6) ae(3) by (simp add: thread_ok_def)
  ultimately show ?thesis
    using exchange_ok(1) L asc d(4) by (auto simp: alloc_inv_def goto_def word_le_nat_alt)
qed

lemma alloc_inv_reach: "pmm_reach p s \<Longrightarrow> pmm_good p \<Longrightarrow> alloc_inv p s"
proof (induction rule: pmm_reach.induct)
  case (start ths)
  then show ?case by (simp add: alloc_inv_def thread_ok_def pmm_good_def)
next
  case (step s t)
  then show ?case using alloc_inv_step [of s t p] by (simp add: pmm_good_nat)
qed

lemma grant_of_returned:
  assumes "pmm_reach p s" "pmm_good p" "pc (threads s i) = Returned (Some a)"
  shows "\<not> bad_align (req_align (threads s i))" "unat (req_align (threads s i)) dvd unat a"
    "(i, a, adj_size (req_size (threads s i)) (req_align (threads s i))) \<in> set (grants s)"
  using thread_ok_at [OF alloc_inv_reach [OF assms(1,2)], of i] assms(3) by (simp_all add: thread_ok_def)

lemma grants_apart:
  assumes "ascending_from lo (map snd gs) hi" "(i, a, x) \<in> set gs" "(j, b, y) \<in> set gs" "i \<noteq> j"
  shows "unat a + unat x \<le> unat b \<or> unat b + unat y \<le> unat a"
proof -
  obtain m n where m: "m < length gs" "gs ! m = (i, a, x)" and n: "n < length gs" "gs ! n = (j, b, y)"
    using assms(2,3) by (meson in_set_conv_nth)
  with assms(4) have "m < n \<or> n < m" by (metis Pair_inject linorder_neqE_nat)
  then show ?thesis
    using ascending_from_disjoint [OF assms(1), of m n] ascending_from_disjoint [OF assms(1), of n m] m n
    by auto
qed

section \<open>The region chosen at boot\<close>

definition span_lo :: "MemoryMapEntry \<Rightarrow> nat" where
  "span_lo e = round_up 4096 (unat (base_addr e))"

definition span_hi :: "MemoryMapEntry \<Rightarrow> nat" where
  "span_hi e = round_down 4096 (unat (base_addr e) + unat (region_length e))"

definition entry_fits :: "MemoryMapEntry \<Rightarrow> bool" where
  "entry_fits e \<longleftrightarrow> unat (base_addr e) + unat (region_length e) + 4096 \<le> 2 ^ 64"

definition chosen_from :: "MemoryMapEntry list \<Rightarrow> u64 \<times> u64 \<Rightarrow> bool" where
  "chosen_from es b \<longleftrightarrow>
     (b = (0, 0) \<or> (\<exists>e\<in>set es. is_usable e \<and> unat (fst b) = span_lo e \<and> unat (fst b) + unat (snd b) = span_hi e)) \<and>
     (\<forall>e\<in>set es. is_usable e \<longrightarrow> span_hi e - span_lo e \<le> unat (snd b))"

lemma entry_span:
  assumes "entry_fits e"
  shows "unat (align_up (base_addr e) PAGE_SIZE) = span_lo e"
    "unat (align_down (base_addr e + region_length e) PAGE_SIZE) = span_hi e"
proof -
  show "unat (align_up (base_addr e) PAGE_SIZE) = span_lo e"
    using assms by (subst unat_align_up) (auto simp: entry_fits_def span_lo_def)
  show "unat (align_down (base_addr e + region_length e) PAGE_SIZE) = span_hi e"
    using assms by (simp add: unat_align_down entry_fits_def span_hi_def unat_add_no_wrap)
qed

lemma consider_entry_chosen:
  assumes "entry_fits e" and "chosen_from es b"
  shows "chosen_from (es @ [e]) (consider_entry e b)"
proof -
  let ?lo = "align_up (base_addr e) PAGE_SIZE" and ?hi = "align_down (base_addr e + region_length e) PAGE_SIZE"
  note sp = entry_span [OF assms(1)]
  have le: "?hi \<le> ?lo \<longleftrightarrow> span_hi e \<le> span_lo e" by (simp add: word_le_nat_alt sp)
  have df: "unat (?hi - ?lo) = span_hi e - span_lo e" if "\<not> ?hi \<le> ?lo"
    using that by (simp add: unat_sub sp)
  show ?thesis
    using assms(2) le df sp
    by (auto simp: chosen_from_def consider_entry_def Let_def word_less_nat_alt split: if_splits)
qed

lemma best_region_chosen: "list_all entry_fits es \<Longrightarrow> chosen_from es (best_region es)"
proof (induction es rule: rev_induct)
  case Nil
  then show ?case by (simp add: chosen_from_def best_region_def)
next
  case (snoc e es)
  then show ?case using consider_entry_chosen [of e es] by (simp add: best_region_def)
qed

section \<open>A call without interference\<close>

definition solo_result :: "nat \<Rightarrow> u64 \<Rightarrow> u64 \<Rightarrow> alloc_sys \<Rightarrow> alloc_sys" where
  "solo_result i sz al s =
     (let (r, p) = alloc_aligned sz al (shared s)
      in s\<lparr>shared := p,
          threads := (threads s)(i := \<lparr>req_size = sz, req_align = al, pc = Returned r\<rparr>),
          grants := grants s @ (case r of None \<Rightarrow> [] | Some a \<Rightarrow> [(i, a, NEXT_FREE p - a)])\<rparr>)"

lemma solo_call:
  fixes sz :: u64
  assumes "pc (threads s i) = Returned r0" and "\<not> bad_align al"
  defines "t \<equiv> \<lambda>c. s\<lparr>threads := (threads s)(i := \<lparr>req_size = sz, req_align = al, pc = c\<rparr>)\<rparr>"
  shows "pmm_step\<^sup>*\<^sup>* s (t (LoadLimit (NEXT_FREE (shared s))))"
proof -
  have "pmm_step s (t LoadNext)"
    using pmm_step.call [OF assms(1), of sz al] assms(2) by (simp add: t_def)
  moreover have "pmm_step (t LoadNext) (t (LoadLimit (NEXT_FREE (shared s))))"
    using pmm_step.load_next [of "t LoadNext" i] by (simp add: t_def goto_def)
  ultimately show ?thesis by (meson rtranclp.rtrancl_refl rtranclp.rtrancl_into_rtrancl)
qed

lemma solo_run:
  assumes "pc (threads s i) = Returned r0"
  shows "pmm_step\<^sup>*\<^sup>* s (solo_result i sz al s)"
proof (cases "bad_align al")
  case True
  then show ?thesis
    using pmm_step.call [OF assms, of sz al]
    by (cases s) (simp add: solo_result_def alloc_aligned_def r_into_rtranclp)
next
  case False
  let ?t = "\<lambda>c. s\<lparr>threads := (threads s)(i := \<lparr>req_size = sz, req_align = al, pc = c\<rparr>)\<rparr>"
  let ?cur = "NEXT_FREE (shared s)"
  note pre = solo_call [OF assms False, of sz]
  show ?thesis
  proof (cases "alloc_attempt sz al ?cur (LIMIT (shared s))")
    case GiveUp
    have "pmm_step (?t (LoadLimit ?cur)) (solo_result i sz al s)"
      using pmm_step.load_limit_give_up [of "?t (LoadLimit ?cur)" i ?cur] GiveUp False
      by (cases s) (simp add: solo_result_def alloc_aligned_def goto_def)
    with pre show ?thesis by (rule rtranclp.rtrancl_into_rtrancl)
  next
    case (TryExchange a e)
    have 1: "pmm_step (?t (LoadLimit ?cur)) (?t (Exchange ?cur a e))"
      using pmm_step.load_limit_try [of "?t (LoadLimit ?cur)" i ?cur a e] TryExchange
      by (simp add: goto_def)
    have 2: "pmm_step (?t (Exchange ?cur a e)) (solo_result i sz al s)"
      using pmm_step.exchange_ok [of "?t (Exchange ?cur a e)" i ?cur a e] TryExchange False
      by (cases s) (simp add: solo_result_def alloc_aligned_def goto_def)
    from pre 1 2 show ?thesis by (meson rtranclp.rtrancl_into_rtrancl)
  qed
qed

lemma pmm_reach_rtranclp: "pmm_step\<^sup>*\<^sup>* s t \<Longrightarrow> pmm_reach p s \<Longrightarrow> pmm_reach p t"
  by (induction rule: rtranclp_induct) (auto intro: pmm_reach.step)

section \<open>Properties\<close>

text \<open>C31: an allocation from a well-formed allocator is decided exactly: with a power-of-two
  alignment and a request of at most 2^63 bytes, the block starts at the first aligned address at
  or above the free mark, its length is the request rounded up to the larger of the page size and
  the alignment, the mark moves to its end, and the call is refused only when that end would pass
  the limit or nothing has been set up.\<close>

theorem alloc_aligned_exact:
  assumes "pmm_good p" and "modest sz" and "\<not> bad_align al"
  defines "a \<equiv> round_up (unat al) (unat (NEXT_FREE p))"
    and "n \<equiv> round_up (max 4096 (unat al)) (unat sz)"
  shows "alloc_aligned sz al p =
    (if NEXT_FREE p \<noteq> 0 \<and> NEXT_FREE p < LIMIT p \<and> a + n \<le> unat (LIMIT p)
     then (Some (of_nat a), p\<lparr>NEXT_FREE := of_nat (a + n)\<rparr>) else (None, p))"
proof -
  let ?al = "align_up (NEXT_FREE p) al"
  from assms(3) obtain k where k: "k < 64" "unat al = 2 ^ k" by (rule not_bad_alignE)
  have ab: "unat al \<le> 2 ^ 63" using power_increasing [of k 63 "2::nat"] k by simp
  have lim: "unat (NEXT_FREE p) \<le> unat (LIMIT p)" "unat (LIMIT p) \<le> 2 ^ 63"
    using assms(1) by (auto simp: pmm_good_nat)
  have a: "unat ?al = a"
    unfolding a_def by (rule unat_align_up [OF assms(3)]) (use ab lim in simp)
  have n: "unat (adj_size sz al) = n"
    using adj_size_covers(1) [OF assms(3)] assms(2) by (simp add: n_def modest_nat)
  have small: "unat (LIMIT p) < 2 ^ 64" using lim by simp
  have sum: "unat (?al + adj_size sz al) = a + n" if "a + n < 2 ^ 64"
    using that a n by (simp add: unat_add_no_wrap)
  have w: "?al = of_nat a" "adj_size sz al = of_nat n" using a n by (metis of_nat_unat ucast_id)+
  show ?thesis
    using assms(3) a n sum small w
    by (auto simp: alloc_aligned_def alloc_attempt_def Let_def checked_add_def not_le
        word_less_nat_alt word_le_nat_alt)
qed

theorem alloc_aligned_exact_witness:
  "alloc_aligned 100 64 \<lparr>NEXT_FREE = 0x101010, LIMIT = 0x200000\<rparr> =
     (Some 0x101040, \<lparr>NEXT_FREE = 0x102040, LIMIT = 0x200000\<rparr>)"
proof -
  let ?p = "\<lparr>NEXT_FREE = 0x101010, LIMIT = 0x200000\<rparr>"
  have "pmm_good ?p" "modest 100" "\<not> bad_align 64"
    by (simp_all add: pmm_good_def modest_def bad_align_def)
  from alloc_aligned_exact [OF this] show ?thesis by (simp add: round_up_def)
qed

text \<open>the blocks granted to any sequence of requests are disjoint, in ascending order and
  inside the region between the first free address and the limit.\<close>

theorem allocations_disjoint:
  assumes "pmm_good p" and "list_all (modest \<circ> fst) reqs" and "alloc_seq alloc_aligned reqs p = (bs, p')"
    and "i < j" and "j < length bs"
  shows "unat (NEXT_FREE p) \<le> unat (fst (bs ! i)) \<and>
    unat (fst (bs ! i)) + unat (snd (bs ! i)) \<le> unat (fst (bs ! j)) \<and>
    unat (fst (bs ! j)) + unat (snd (bs ! j)) \<le> unat (LIMIT p)"
proof -
  have le: "unat (NEXT_FREE p) \<le> unat (LIMIT p)" using assms(1) by (simp add: pmm_good_nat)
  show ?thesis
    using pmm_alloc.seq_disjoint [OF assms(1,2) le assms(3-5)] by blast
qed

theorem allocations_disjoint_witness:
  "alloc_seq alloc_aligned [(4096, 64), (2056, 64)] \<lparr>NEXT_FREE = 0x100000, LIMIT = 0x200000\<rparr> =
     ([(0x100000, 4096), (0x101000, 2056)], \<lparr>NEXT_FREE = 0x102000, LIMIT = 0x200000\<rparr>) \<and>
   unat (0x100000 :: u64) + unat (4096 :: u64) \<le> unat (0x101000 :: u64)"
proof -
  let ?p = "\<lparr>NEXT_FREE = 0x100000, LIMIT = 0x200000\<rparr>"
  have run: "alloc_seq alloc_aligned [(4096, 64), (2056, 64)] ?p =
     ([(0x100000, 4096), (0x101000, 2056)], \<lparr>NEXT_FREE = 0x102000, LIMIT = 0x200000\<rparr>)"
    by (simp add: alloc_aligned_def alloc_attempt_def bad_align_def adj_size_def align_up_def
        PAGE_SIZE_def checked_add_def max_def Let_def)
  have "pmm_good ?p" "list_all (modest \<circ> fst) [(4096, 64), (2056, 64)]"
    by (simp_all add: pmm_good_def modest_def)
  from allocations_disjoint [OF this run, of 0 1] run show ?thesis by simp
qed

text \<open>C4: whatever the interleaving of the loads and compare-and-exchange operations of any number
  of callers, two blocks held by different callers never overlap, each is aligned as asked, covers
  its request and lies inside the managed region.\<close>

theorem concurrent_blocks_disjoint:
  assumes "pmm_reach p s" and "pmm_good p" and "i \<noteq> j"
    and "pc (threads s i) = Returned (Some a)" and "pc (threads s j) = Returned (Some b)"
    and "modest (req_size (threads s i))" and "modest (req_size (threads s j))"
  shows "(unat a + unat (req_size (threads s i)) \<le> unat b \<or> unat b + unat (req_size (threads s j)) \<le> unat a) \<and>
    unat (req_align (threads s i)) dvd unat a \<and>
    unat (NEXT_FREE p) \<le> unat a \<and> unat a + unat (req_size (threads s i)) \<le> unat (LIMIT p)"
proof -
  note gi = grant_of_returned [OF assms(1,2,4)] and gj = grant_of_returned [OF assms(1,2,5)]
  let ?x = "adj_size (req_size (threads s i)) (req_align (threads s i))"
  have asc: "ascending_from (unat (NEXT_FREE p)) (map snd (grants s)) (unat (NEXT_FREE (shared s)))"
    and lim: "unat (NEXT_FREE (shared s)) \<le> unat (LIMIT p)"
    using alloc_inv_reach [OF assms(1,2)] by (auto simp: alloc_inv_def word_le_nat_alt)
  have "(a, ?x) \<in> set (map snd (grants s))" using gi(3) by force
  note bd = ascending_from_bounds [OF asc this]
  have cov: "unat (req_size (threads s i)) \<le> unat ?x"
    "unat (req_size (threads s j)) \<le> unat (adj_size (req_size (threads s j)) (req_align (threads s j)))"
    using adj_size_covers(2) gi(1) gj(1) assms(6,7) by (auto simp: modest_nat)
  show ?thesis
    using grants_apart [OF asc gi(3) gj(3) assms(3)] cov bd lim gi(2) by linarith
qed

theorem concurrent_blocks_disjoint_witness:
  "\<exists>s a b. pmm_reach \<lparr>NEXT_FREE = 0x100000, LIMIT = 0x200000\<rparr> s \<and>
     pc (threads s 0) = Returned (Some a) \<and> pc (threads s 1) = Returned (Some b) \<and>
     unat a + unat (req_size (threads s 0)) \<le> unat b"
proof -
  let ?p = "\<lparr>NEXT_FREE = 0x100000, LIMIT = 0x200000\<rparr>"
  let ?s0 = "\<lparr>shared = ?p, threads = (\<lambda>_. \<lparr>req_size = 0, req_align = 0, pc = Returned None\<rparr>), grants = []\<rparr>"
  let ?s1 = "solo_result 0 4096 64 ?s0"
  let ?s2 = "solo_result 1 2056 64 ?s1"
  have r0: "pmm_reach ?p ?s0" by (rule pmm_reach.start) simp
  have r1: "pmm_reach ?p ?s1" by (rule pmm_reach_rtranclp [OF solo_run r0]) simp
  have pc1: "pc (threads ?s1 1) = Returned None" by (simp add: solo_result_def split: prod.split)
  have r2: "pmm_reach ?p ?s2" by (rule pmm_reach_rtranclp [OF solo_run [OF pc1] r1])
  have run: "alloc_aligned 4096 64 ?p = (Some 0x100000, \<lparr>NEXT_FREE = 0x101000, LIMIT = 0x200000\<rparr>)"
    "alloc_aligned 2056 64 \<lparr>NEXT_FREE = 0x101000, LIMIT = 0x200000\<rparr> =
       (Some 0x101000, \<lparr>NEXT_FREE = 0x102000, LIMIT = 0x200000\<rparr>)"
    by (simp_all add: alloc_aligned_def alloc_attempt_def bad_align_def adj_size_def align_up_def
        PAGE_SIZE_def checked_add_def max_def Let_def)
  have res: "pc (threads ?s2 0) = Returned (Some 0x100000)" "pc (threads ?s2 1) = Returned (Some 0x101000)"
    "req_size (threads ?s2 0) = 4096" "req_size (threads ?s2 1) = 2056"
    by (simp_all add: solo_result_def run)
  have "pmm_good ?p" "modest 4096" "modest 2056" by (simp_all add: pmm_good_def modest_def)
  with concurrent_blocks_disjoint [OF r2 _ _ res(1,2)] res(3,4)
  have "unat (0x100000 :: u64) + unat (4096 :: u64) \<le> unat (0x101000 :: u64)" by simp
  then show ?thesis using r2 res by metis
qed

text \<open>without interference the loop of loads and compare-and-exchange returns, and its result
  and final state are those of one sequential allocation.\<close>

theorem undisturbed_call_is_sequential:
  assumes "pc (threads s i) = Returned r0"
  shows "\<exists>t. pmm_step\<^sup>*\<^sup>* s t \<and> pc (threads t i) = Returned (fst (alloc_aligned sz al (shared s))) \<and>
    shared t = snd (alloc_aligned sz al (shared s)) \<and> (\<forall>j. j \<noteq> i \<longrightarrow> threads t j = threads s j)"
  using solo_run [OF assms, of sz al]
  by (intro exI [of _ "solo_result i sz al s"]) (simp add: solo_result_def split: prod.split)

theorem undisturbed_call_is_sequential_witness:
  "\<exists>t :: alloc_sys. pc (threads t 0) = Returned (Some 0x101000) \<and> NEXT_FREE (shared t) = 0x102000"
proof -
  let ?p = "\<lparr>NEXT_FREE = 0x101000, LIMIT = 0x200000\<rparr>"
  let ?s0 = "\<lparr>shared = ?p, threads = (\<lambda>_. \<lparr>req_size = 0, req_align = 0, pc = Returned None\<rparr>), grants = []\<rparr>"
  have "alloc_aligned 2056 64 ?p = (Some 0x101000, \<lparr>NEXT_FREE = 0x102000, LIMIT = 0x200000\<rparr>)"
    by (simp add: alloc_aligned_def alloc_attempt_def bad_align_def adj_size_def align_up_def
        PAGE_SIZE_def checked_add_def max_def Let_def)
  then obtain t :: alloc_sys where "pc (threads t 0) = Returned (Some 0x101000)"
    "shared t = \<lparr>NEXT_FREE = 0x102000, LIMIT = 0x200000\<rparr>"
    using undisturbed_call_is_sequential [of ?s0 0 None 2056 64] by auto
  then show ?thesis by (intro exI [of _ t]) simp
qed

text \<open>initialisation hands the allocator the largest page-aligned span of usable memory of the
  memory map when that span has at least one page, and otherwise leaves it unset; the region it
  sets lies inside one usable entry.\<close>

theorem pmm_init_takes_largest:
  assumes "list_all entry_fits (iter_entries m (memory_map boot))"
    and "pmm_init m boot (pmm_static, s) = (p, s')" and "NEXT_FREE p \<noteq> 0"
  shows "\<exists>e \<in> set (iter_entries m (memory_map boot)). is_usable e \<and>
      unat (base_addr e) \<le> unat (NEXT_FREE p) \<and> NEXT_FREE p < LIMIT p \<and>
      unat (LIMIT p) \<le> unat (base_addr e) + unat (region_length e) \<and>
      4096 dvd unat (NEXT_FREE p) \<and> 4096 dvd unat (LIMIT p) \<and>
      (\<forall>e' \<in> set (iter_entries m (memory_map boot)). is_usable e' \<longrightarrow>
         span_hi e' - span_lo e' \<le> unat (LIMIT p) - unat (NEXT_FREE p))"
proof -
  let ?es = "iter_entries m (memory_map boot)"
  obtain b l where bl: "best_region ?es = (b, l)" by (cases "best_region ?es")
  have big: "PAGE_SIZE \<le> l" and p: "NEXT_FREE p = b" "LIMIT p = b + l"
    using assms(2,3) by (auto simp: pmm_init_def bl pmm_static_def split: if_splits)
  have ch: "chosen_from ?es (b, l)" using best_region_chosen [OF assms(1)] by (simp add: bl)
  have l: "4096 \<le> unat l" using big by (simp add: word_le_nat_alt)
  have "(b, l) \<noteq> (0, 0)" using l by auto
  then obtain e where e: "e \<in> set ?es" "is_usable e" "unat b = span_lo e" "unat b + unat l = span_hi e"
    using ch by (auto simp: chosen_from_def)
  have fit: "entry_fits e" using assms(1) e(1) by (simp add: list_all_iff)
  have hi: "span_hi e \<le> unat (base_addr e) + unat (region_length e)"
    by (simp add: span_hi_def round_down_def)
  have "unat b + unat l < 2 ^ 64" using e(4) hi fit by (simp add: entry_fits_def)
  then have lim: "unat (LIMIT p) = span_hi e" using e(4) p by (simp add: unat_add_no_wrap)
  have lo: "unat (base_addr e) \<le> span_lo e" "4096 dvd span_lo e"
    unfolding span_lo_def by (rule round_up_props, simp)+
  have "4096 dvd span_hi e" by (simp add: span_hi_def round_down_def)
  then show ?thesis
    using e l hi lo lim p ch
    by (intro bexI [of _ e]) (auto simp: chosen_from_def word_less_nat_alt)
qed

definition example_map :: mem where
  "example_map = write_bytes (\<lambda>_. 0) 0x5000
     [0x10, 0, 0x10, 0, 0, 0, 0, 0,  0, 0, 0x10, 0, 0, 0, 0, 0,  1, 0, 0, 0,  0, 0, 0, 0]"

definition example_boot :: BootInfo where
  "example_boot = \<lparr>memory_map_ptr = 0x5000, memory_map_len = 1, memory_map_entry_size = 20,
     initrd_base = 0, initrd_len = 0\<rparr>"

lemma example_entries:
  "iter_entries example_map (memory_map example_boot) =
     [\<lparr>base_addr = 0x100010, region_length = 0x100000, region_type = 1, attributes = 0\<rparr>]"
  by (simp add: iter_entries_eq memory_map_def example_boot_def read_entry_def read_bytes_def
      example_map_def write_bytes_def le_word_def upt_rec MEMORY_MAP_ENTRY_BYTES_def)

theorem pmm_init_takes_largest_witness:
  "\<exists>s. NEXT_FREE (fst (pmm_init example_map example_boot (pmm_static, s))) = 0x101000 \<and>
     LIMIT (fst (pmm_init example_map example_boot (pmm_static, s))) = 0x200000 \<and>
     (\<exists>e \<in> set (iter_entries example_map (memory_map example_boot)). is_usable e \<and>
        unat (base_addr e) \<le> 0x101000 \<and> 0x200000 \<le> unat (base_addr e) + unat (region_length e))"
proof -
  let ?s = "\<lparr>outs = [], lsr_tape = (\<lambda>_. 0x20), lsr_pos = 0, INITIALIZED = False\<rparr>"
  obtain p s' where run: "pmm_init example_map example_boot (pmm_static, ?s) = (p, s')"
    by (cases "pmm_init example_map example_boot (pmm_static, ?s)")
  then have p: "NEXT_FREE p = 0x101000" "LIMIT p = 0x200000"
    by (auto simp: pmm_init_def example_entries best_region_def consider_entry_def is_usable_def
        align_up_def align_down_def PAGE_SIZE_def Let_def pmm_static_def)
  have "list_all entry_fits (iter_entries example_map (memory_map example_boot))"
    by (simp add: example_entries entry_fits_def)
  moreover have "NEXT_FREE p \<noteq> 0" by (simp add: p)
  ultimately obtain e where "e \<in> set (iter_entries example_map (memory_map example_boot))" "is_usable e"
    "unat (base_addr e) \<le> 0x101000" "0x200000 \<le> unat (base_addr e) + unat (region_length e)"
    using pmm_init_takes_largest [OF _ run] p by auto
  then show ?thesis using run p by (intro exI [of _ ?s]) auto
qed

text \<open>a request close to 2^64 bytes is not refused: the size computation wraps around, so the
  allocator grants a block of length zero at the current mark.\<close>

theorem huge_request_granted_empty:
  "alloc_aligned (2 ^ 64 - 1) 4096 \<lparr>NEXT_FREE = 0x100000, LIMIT = 0x200000\<rparr> =
     (Some 0x100000, \<lparr>NEXT_FREE = 0x100000, LIMIT = 0x200000\<rparr>)"
  by (simp add: alloc_aligned_def alloc_attempt_def bad_align_def adj_size_def align_up_def
      PAGE_SIZE_def checked_add_def max_def Let_def)

end
