(* ===== verification/Xhci_Regs.thy ===== *)
theory Xhci_Regs
  imports Xhci_Ring Xhci_Hid Pmm
begin

text \<open>
  The state of the USB host controller driver and its register blocks (\<^verbatim>\<open>kernel/src/xhci.rs\<close>).
  The controller is an arbitrary environment: every register read returns the next value of a
  tape, register writes form a trace that keeps with each write the memory the controller finds at
  that moment (what a doorbell or a ring pointer announces), and before each look at the event ring the controller may
  have changed memory in any way. An operation ends with a value and a state or stops: in a
  panic, in a deadlock on the driver's own spin lock, or by running for ever.
\<close>

section \<open>State and outcomes\<close>

record XhciInfo =
  info_base :: u64
  cap_length :: u8
  hci_version :: u16
  hcsparams1 :: u32
  hcsparams2 :: u32
  hcsparams3 :: u32
  hccparams1 :: u32
  dboff :: u32
  rtsoff :: u32

definition max_slots :: "XhciInfo \<Rightarrow> u8" where
  "max_slots i = ucast (hcsparams1 i AND 0xFF)"

definition max_ports :: "XhciInfo \<Rightarrow> u8" where
  "max_ports i = ucast (drop_bit 24 (hcsparams1 i) AND 0xFF)"

definition context_size :: "XhciInfo \<Rightarrow> u16" where
  "context_size i = (if hccparams1 i AND push_bit 2 1 \<noteq> 0 then 64 else 32)"

record ControllerState =
  info :: XhciInfo
  command_ring_phys :: u64
  command_ring_len :: nat
  command_ring_enqueue :: nat
  command_ring_cycle :: bool
  event_ring_phys :: u64
  event_ring_len :: nat
  event_ring_dequeue :: nat
  event_ring_cycle :: bool
  dcbaa_phys :: u64
  erst_phys :: u64
  last_completion_code :: "u8 option"
  last_completed_slot :: "u8 option"
  last_transfer_code :: "u8 option"
  last_transfer_len :: "u32 option"
  last_transfer_ep :: "u8 option"
  last_transfer_slot :: "u8 option"
  active_slot :: "u8 option"
  ep0_ring_phys :: u64
  ep0_ring_len :: nat
  ep0_enqueue :: nat
  ep0_cycle :: bool
  intr_ep_addr :: u8
  intr_ep_id :: u8
  intr_ring_phys :: u64
  intr_ring_len :: nat
  intr_enqueue :: nat
  intr_cycle :: bool
  hid_buf_phys :: u64
  hid_buf_len :: nat

record xsys =
  ram :: mem
  reg_tape :: "nat \<Rightarrow> u64 \<Rightarrow> u32"
  reg_pos :: nat
  reg_out :: "(u64 \<times> u32 \<times> mem) list"
  dma_tape :: "nat \<Rightarrow> mem \<Rightarrow> mem"
  dma_pos :: nat
  xio :: io
  con :: Console
  xpmm :: pmm
  ctl :: "ControllerState option"
  held :: bool

datatype stop = Panicked | Deadlocked | Diverged

type_synonym 'a xm = "xsys \<Rightarrow> stop + 'a \<times> xsys"

definition ret :: "'a \<Rightarrow> 'a xm" where
  "ret a s = Inr (a, s)"

definition bindx :: "'a xm \<Rightarrow> ('a \<Rightarrow> 'b xm) \<Rightarrow> 'b xm" where
  "bindx f g s = (case f s of Inl e \<Rightarrow> Inl e | Inr (a, s') \<Rightarrow> g a s')"

definition thenx :: "'a xm \<Rightarrow> 'b xm \<Rightarrow> 'b xm" where
  "thenx f g = bindx f (\<lambda>_. g)"

definition stopx :: "stop \<Rightarrow> 'a xm" where
  "stopx e s = Inl e"

definition get :: "(xsys \<Rightarrow> 'a) \<Rightarrow> 'a xm" where
  "get f s = Inr (f s, s)"

definition upd :: "(xsys \<Rightarrow> xsys) \<Rightarrow> unit xm" where
  "upd f s = Inr ((), f s)"

text \<open>A checked index: a value that is missing panics.\<close>

definition expect :: "'a option \<Rightarrow> 'a xm" where
  "expect r = (case r of None \<Rightarrow> stopx Panicked | Some a \<Rightarrow> ret a)"

fun for_x :: "'x list \<Rightarrow> ('x \<Rightarrow> unit xm) \<Rightarrow> unit xm" where
  "for_x [] f = ret ()"
| "for_x (x # xs) f = thenx (f x) (for_x xs f)"

section \<open>Logging, memory and the lock\<close>

definition log_fmt :: "bytes \<Rightarrow> unit xm" where
  "log_fmt bs = upd (\<lambda>s. s\<lparr>xio := serial_write_fmt bs (xio s)\<rparr>)"

definition log_str :: "bytes \<Rightarrow> unit xm" where
  "log_str bs = upd (\<lambda>s. s\<lparr>xio := serial_write_str bs (xio s)\<rparr>)"

definition alloc :: "u64 \<Rightarrow> u64 \<Rightarrow> u64 option xm" where
  "alloc sz align s = (let (r, p) = alloc_aligned sz align (xpmm s) in Inr (r, s\<lparr>xpmm := p\<rparr>))"

definition in_ram :: "(mem \<Rightarrow> mem) \<Rightarrow> unit xm" where
  "in_ram f = upd (\<lambda>s. s\<lparr>ram := f (ram s)\<rparr>)"

definition zero_phys :: "u64 \<Rightarrow> nat \<Rightarrow> unit xm" where
  "zero_phys phys n = in_ram (\<lambda>m. write_bytes m phys (replicate n 0))"

definition write_u32 :: "u64 \<Rightarrow> nat \<Rightarrow> u32 \<Rightarrow> unit xm" where
  "write_u32 p k v = in_ram (\<lambda>m. write_bytes m (p + of_nat (4 * k)) (word_le 4 v))"

definition lock :: "unit xm" where
  "lock s = (if held s then Inl Deadlocked else Inr ((), s\<lparr>held := True\<rparr>))"

definition unlock :: "unit xm" where
  "unlock = upd (\<lambda>s. s\<lparr>held := False\<rparr>)"

text \<open>\<^verbatim>\<open>if let Some(l) = CONTROLLER_STATE.get() { let st = l.lock(); ... }\<close>: the body runs on the
  state with the lock held, which is released at the end of the scope.\<close>

definition with_state :: "'a \<Rightarrow> (ControllerState \<Rightarrow> ('a \<times> ControllerState) xm) \<Rightarrow> 'a xm" where
  "with_state dflt body s =
     (case ctl s of
        None \<Rightarrow> Inr (dflt, s)
      | Some c \<Rightarrow>
          bindx lock (\<lambda>_. bindx (body c)
            (\<lambda>(a, c'). bindx (upd (\<lambda>s. s\<lparr>ctl := Some c'\<rparr>)) (\<lambda>_. bindx unlock (\<lambda>_. ret a)))) s)"

section \<open>Register access\<close>

definition read_reg :: "u64 \<Rightarrow> u32 xm" where
  "read_reg a s = Inr (reg_tape s (reg_pos s) a, s\<lparr>reg_pos := Suc (reg_pos s)\<rparr>)"

definition write_reg :: "u64 \<Rightarrow> u32 \<Rightarrow> unit xm" where
  "write_reg a v = upd (\<lambda>s. s\<lparr>reg_out := reg_out s @ [(a, v, ram s)]\<rparr>)"

definition write_reg64 :: "u64 \<Rightarrow> u64 \<Rightarrow> unit xm" where
  "write_reg64 a v = thenx (write_reg a (ucast v)) (write_reg (a + 4) (ucast (drop_bit 32 v)))"

definition read_reg64 :: "u64 \<Rightarrow> u64 \<Rightarrow> u64 xm" where
  "read_reg64 a mask_low =
     bindx (read_reg a) (\<lambda>low. bindx (read_reg (a + 4)) (\<lambda>high.
       ret (push_bit 32 (ucast high) OR (ucast low AND mask_low))))"

text \<open>The flag types: unknown bits are dropped when a register is read.\<close>

definition RUN_STOP :: u32 where "RUN_STOP = 1"
definition HOST_CONTROLLER_RESET :: u32 where "HOST_CONTROLLER_RESET = 2"
definition INTERRUPTER_ENABLE :: u32 where "INTERRUPTER_ENABLE = 4"
definition USBCMD_ALL :: u32 where "USBCMD_ALL = 0x8F"
definition HOST_CONTROLLER_HALTED :: u32 where "HOST_CONTROLLER_HALTED = 1"
definition HOST_SYSTEM_ERROR :: u32 where "HOST_SYSTEM_ERROR = 4"
definition EVENT_INTERRUPT :: u32 where "EVENT_INTERRUPT = 8"
definition PORT_CHANGE_DETECT :: u32 where "PORT_CHANGE_DETECT = 16"
definition USBSTS_ALL :: u32 where "USBSTS_ALL = 0x1D"

definition contains :: "u32 \<Rightarrow> u32 \<Rightarrow> bool" where
  "contains v flag \<longleftrightarrow> v AND flag = flag"

definition operational :: "XhciInfo \<Rightarrow> u64" where
  "operational i = info_base i + ucast (cap_length i)"

definition runtime :: "XhciInfo \<Rightarrow> u64" where
  "runtime i = info_base i + ucast (rtsoff i)"

definition doorbells :: "XhciInfo \<Rightarrow> u64" where
  "doorbells i = info_base i + ucast (dboff i)"

definition usbcmd :: "XhciInfo \<Rightarrow> u32 xm" where
  "usbcmd i = bindx (read_reg (operational i + 0x00)) (\<lambda>v. ret (v AND USBCMD_ALL))"

definition set_usbcmd :: "XhciInfo \<Rightarrow> u32 \<Rightarrow> unit xm" where
  "set_usbcmd i v = write_reg (operational i + 0x00) v"

definition usbsts :: "XhciInfo \<Rightarrow> u32 xm" where
  "usbsts i = bindx (read_reg (operational i + 0x04)) (\<lambda>v. ret (v AND USBSTS_ALL))"

definition clear_usbsts :: "XhciInfo \<Rightarrow> u32 \<Rightarrow> unit xm" where
  "clear_usbsts i v = write_reg (operational i + 0x04) v"

definition crcr :: "XhciInfo \<Rightarrow> u64 xm" where
  "crcr i = read_reg64 (operational i + 0x18) (NOT 0xF)"

definition set_crcr :: "XhciInfo \<Rightarrow> u64 \<Rightarrow> unit xm" where
  "set_crcr i v = write_reg64 (operational i + 0x18) v"

definition dcbaap :: "XhciInfo \<Rightarrow> u64 xm" where
  "dcbaap i = read_reg64 (operational i + 0x30) (NOT 0x3F)"

definition set_dcbaap :: "XhciInfo \<Rightarrow> u64 \<Rightarrow> unit xm" where
  "set_dcbaap i v = write_reg64 (operational i + 0x30) v"

definition op_config :: "XhciInfo \<Rightarrow> u32 xm" where
  "op_config i = read_reg (operational i + 0x38)"

definition set_config :: "XhciInfo \<Rightarrow> u32 \<Rightarrow> unit xm" where
  "set_config i v = write_reg (operational i + 0x38) v"

definition port :: "XhciInfo \<Rightarrow> nat \<Rightarrow> u64" where
  "port i index = operational i + of_nat (0x400 + index * 0x10)"

definition portsc :: "u64 \<Rightarrow> u32 xm" where
  "portsc p = read_reg p"

definition write_portsc :: "u64 \<Rightarrow> u32 \<Rightarrow> unit xm" where
  "write_portsc p v = write_reg p v"

definition interrupter_register_set :: "XhciInfo \<Rightarrow> nat \<Rightarrow> u64" where
  "interrupter_register_set i index = runtime i + of_nat (0x20 + index * 32)"

definition iman :: "u64 \<Rightarrow> u32 xm" where "iman ir = read_reg (ir + 0x00)"
definition set_iman :: "u64 \<Rightarrow> u32 \<Rightarrow> unit xm" where "set_iman ir v = write_reg (ir + 0x00) v"
definition imod :: "u64 \<Rightarrow> u32 xm" where "imod ir = read_reg (ir + 0x04)"
definition set_imod :: "u64 \<Rightarrow> u32 \<Rightarrow> unit xm" where "set_imod ir v = write_reg (ir + 0x04) v"
definition erstsz :: "u64 \<Rightarrow> u16 xm" where "erstsz ir = bindx (read_reg (ir + 0x08)) (\<lambda>v. ret (ucast v))"

definition set_erstsz :: "u64 \<Rightarrow> u16 \<Rightarrow> unit xm" where
  "set_erstsz ir v =
     bindx (read_reg (ir + 0x08)) (\<lambda>current. write_reg (ir + 0x08) ((current AND NOT 0xFFFF) OR ucast v))"

definition erstba :: "u64 \<Rightarrow> u64 xm" where "erstba ir = read_reg64 (ir + 0x10) (NOT 0x3)"
definition set_erstba :: "u64 \<Rightarrow> u64 \<Rightarrow> unit xm" where "set_erstba ir v = write_reg64 (ir + 0x10) v"
definition erdp :: "u64 \<Rightarrow> u64 xm" where "erdp ir = read_reg64 (ir + 0x18) (- 1)"
definition set_erdp :: "u64 \<Rightarrow> u64 \<Rightarrow> unit xm" where "set_erdp ir v = write_reg64 (ir + 0x18) v"

definition ring_db :: "XhciInfo \<Rightarrow> nat \<Rightarrow> u32 \<Rightarrow> unit xm" where
  "ring_db i index target = write_reg (doorbells i + of_nat (index * 4)) target"

definition xhci_read :: "u64 \<Rightarrow> nat \<Rightarrow> u32 xm" where
  "xhci_read p index = read_reg (p + of_nat (4 * index))"

definition inspect :: "u64 \<Rightarrow> XhciInfo option xm" where
  "inspect b =
     (if b = 0 then ret None
      else
        bindx (xhci_read b 0) (\<lambda>cap.
        bindx (xhci_read b 1) (\<lambda>p1.
        bindx (xhci_read b 2) (\<lambda>p2.
        bindx (xhci_read b 3) (\<lambda>p3.
        bindx (xhci_read b 4) (\<lambda>c1.
        bindx (xhci_read b 5) (\<lambda>db.
        bindx (xhci_read b 6) (\<lambda>rts.
          ret (Some \<lparr>info_base = b, cap_length = ucast (cap AND 0xFF), hci_version = ucast (drop_bit 16 cap AND 0xFFFF),
            hcsparams1 = p1, hcsparams2 = p2, hcsparams3 = p3, hccparams1 = c1, dboff = db, rtsoff = rts\<rparr>)))))))))"

section \<open>Bounded waiting\<close>

fun wait_loop :: "nat \<Rightarrow> bool xm \<Rightarrow> bool xm" where
  "wait_loop 0 predicate = ret False"
| "wait_loop (Suc n) predicate = bindx predicate (\<lambda>b. if b then ret True else wait_loop n predicate)"

definition wait_for :: "bool xm \<Rightarrow> bool xm" where
  "wait_for predicate = wait_loop 1000000 predicate"

end
