(* ===== verification/Xhci_Driver.thy ===== *)
theory Xhci_Driver
  imports Xhci_Regs
begin

text \<open>
  The operations of the USB host controller driver (\<^verbatim>\<open>kernel/src/xhci.rs\<close>) on the state of
  \<^verbatim>\<open>Xhci_Regs\<close>: enqueueing commands and transfers, the event loop, controller start-up, device
  addressing, control transfers and the HID polling. Each operation keeps the order of the source:
  its locks, its allocations, its register and memory writes, its log lines and its early returns.
\<close>

section \<open>Doorbells and enqueueing\<close>

definition ring_doorbell :: "u8 \<Rightarrow> u32 \<Rightarrow> unit xm" where
  "ring_doorbell slot_id target =
     with_state () (\<lambda>c.
       thenx (if info_base (info c) = 0 then ret () else ring_db (info c) (unat slot_id) target) (ret ((), c)))"

definition put_command :: "u64 \<Rightarrow> u32 \<Rightarrow> u32 \<Rightarrow> ControllerState \<Rightarrow> ControllerState xm" where
  "put_command param stat ctrl c =
     (let usable = command_ring_len c - 1;
          index = command_ring_enqueue c mod usable;
          (e, cy) = advance (command_ring_enqueue c) (command_ring_cycle c) usable
      in thenx (in_ram (write_trb (command_ring_phys c) index \<lparr>parameter = param, status = stat, control = ctrl\<rparr>))
           (ret (c\<lparr>command_ring_enqueue := e, command_ring_cycle := cy\<rparr>)))"

definition ring_unusable :: "unit xm" where
  "ring_unusable = log_str (str_bytes ''[xhci] command ring unusable'' @ CRLF)"

definition enqueue_noop_command :: "unit xm" where
  "enqueue_noop_command =
     with_state () (\<lambda>c.
       if command_ring_len c - 1 = 0 then thenx ring_unusable (ret ((), c))
       else
         (let index = command_ring_enqueue c mod (command_ring_len c - 1)
          in bindx (put_command 0 0 (command_control TRB_TYPE_NO_OP_COMMAND (command_ring_cycle c)) c)
               (\<lambda>c'. thenx (log_fmt (str_bytes ''[xhci] queued noop index='' @ dec_digits index @ str_bytes '' cycle='' @
                         dec_digits (if command_ring_cycle c then 1 else 0) @ CRLF))
                       (ret ((), c')))))"

definition enqueue_command_trb :: "u32 \<Rightarrow> u64 \<Rightarrow> u32 \<Rightarrow> unit xm" where
  "enqueue_command_trb ty param stat =
     with_state () (\<lambda>c.
       if command_ring_len c - 1 = 0 then thenx ring_unusable (ret ((), c))
       else bindx (put_command param stat (command_control ty (command_ring_cycle c)) c) (\<lambda>c'. ret ((), c')))"

definition enqueue_command_trb_slot :: "u32 \<Rightarrow> u64 \<Rightarrow> u32 \<Rightarrow> u8 \<Rightarrow> unit xm" where
  "enqueue_command_trb_slot ty param stat slot_id =
     with_state () (\<lambda>c.
       if command_ring_len c - 1 = 0 then thenx ring_unusable (ret ((), c))
       else bindx (put_command param stat (command_control ty (command_ring_cycle c) OR push_bit 16 (ucast slot_id)) c)
              (\<lambda>c'. ret ((), c')))"

definition ep0_enqueue_trb :: "Trb \<Rightarrow> unit xm" where
  "ep0_enqueue_trb t =
     with_state () (\<lambda>c.
       if ep0_ring_len c = 0 then thenx (log_str (str_bytes ''[xhci] ep0 ring not ready'' @ CRLF)) (ret ((), c))
       else
         (let usable = ep0_ring_len c - 1
          in if usable = 0 then ret ((), c)
             else
               (let index = ep0_enqueue c mod usable; (e, cy) = advance (ep0_enqueue c) (ep0_cycle c) usable
                in thenx (in_ram (write_trb (ep0_ring_phys c) index t))
                     (ret ((), c\<lparr>ep0_enqueue := e, ep0_cycle := cy\<rparr>)))))"

definition ep0_cycle_bit :: "u32 xm" where
  "ep0_cycle_bit = with_state 1 (\<lambda>c. ret (if ep0_cycle c then 1 else 0, c))"

definition ring_ep0 :: "u8 \<Rightarrow> unit xm" where
  "ring_ep0 slot_id = ring_doorbell slot_id 1"

definition intr_cycle_bit :: "u32 xm" where
  "intr_cycle_bit = with_state 1 (\<lambda>c. ret (if intr_cycle c then 1 else 0, c))"

definition put_intr :: "Trb \<Rightarrow> ControllerState \<Rightarrow> ControllerState xm" where
  "put_intr t c =
     (let usable = intr_ring_len c - 1;
          idx = intr_enqueue c mod usable;
          (e, cy) = advance (intr_enqueue c) (intr_cycle c) usable
      in thenx (in_ram (write_trb (intr_ring_phys c) idx t)) (ret (c\<lparr>intr_enqueue := e, intr_cycle := cy\<rparr>)))"

definition intr_enqueue_trb :: "Trb \<Rightarrow> unit xm" where
  "intr_enqueue_trb t =
     with_state () (\<lambda>c. if intr_ring_len c - 1 = 0 then ret ((), c) else bindx (put_intr t c) (\<lambda>c'. ret ((), c')))"

section \<open>Events\<close>

definition decode_report :: "u64 \<Rightarrow> nat \<Rightarrow> unit xm" where
  "decode_report buf len s =
     (case decode_hid_report (ram s) buf len (xio s) (con s) of
        None \<Rightarrow> Inl Panicked
      | Some (o', c') \<Rightarrow> Inr ((), s\<lparr>xio := o', con := c'\<rparr>))"

definition port_line :: "bytes \<Rightarrow> u32 \<Rightarrow> bytes" where
  "port_line nr sc =
     str_bytes ''[xhci] port'' @ nr @ str_bytes '' sc='' @ fmt_alt_hex 10 sc @
     str_bytes '' ccs='' @ dec_digits (if sc AND 0x1 \<noteq> 0 then 1 else 0) @
     str_bytes '' ped='' @ dec_digits (if sc AND 0x2 \<noteq> 0 then 1 else 0) @
     str_bytes '' speed='' @ fmt_dec (drop_bit 10 sc AND 0xF) @ str_bytes '' pls='' @ fmt_dec (drop_bit 5 sc AND 0xF) @ CRLF"

definition handle_completion :: "ControllerState \<Rightarrow> Trb \<Rightarrow> ControllerState xm" where
  "handle_completion c t =
     (let completion_code = ucast (drop_bit 24 (status t) AND 0xFF);
          slot_id = ucast (parameter t AND 0xFF)
      in thenx (log_fmt (str_bytes ''[xhci] command completion code='' @ fmt_alt_hex 0 completion_code @
             str_bytes '' slot='' @ fmt_dec slot_id @ CRLF))
           (ret (c\<lparr>last_completion_code := Some completion_code, last_completed_slot := Some slot_id\<rparr>)))"

definition repost_report :: "ControllerState \<Rightarrow> ControllerState xm" where
  "repost_report c =
     (let t = \<lparr>parameter = hid_buf_phys c, status = of_nat (hid_buf_len c), control = command_control TRB_TYPE_NORMAL (intr_cycle c)\<rparr>
      in if intr_ring_len c - 1 > 0
         then bindx (put_intr t c)
                (\<lambda>c. case active_slot c of
                        None \<Rightarrow> ret c
                      | Some slot \<Rightarrow> thenx (ring_doorbell slot (ucast (intr_ep_id c))) (ret c))
         else ret c)"

definition handle_transfer :: "ControllerState \<Rightarrow> Trb \<Rightarrow> ControllerState xm" where
  "handle_transfer c t =
     (let completion_code = ucast (drop_bit 24 (status t) AND 0xFF) :: u8;
          trb_len = status t AND 0x00FFFFFF;
          ep_id = ucast (drop_bit 16 (control t) AND 0x1F);
          c = c\<lparr>last_transfer_code := Some completion_code, last_transfer_len := Some trb_len,
                last_transfer_ep := Some ep_id, last_transfer_slot := active_slot c\<rparr>
      in thenx (log_fmt (str_bytes ''[xhci] transfer event ep='' @ fmt_dec ep_id @ str_bytes '' code='' @ fmt_alt_hex 0 completion_code @
             str_bytes '' len='' @ fmt_dec trb_len @ str_bytes '' param='' @ fmt_alt_hex 0 (parameter t) @ CRLF))
           (if completion_code = 1 \<and> intr_ring_len c > 0 \<and> ep_id = intr_ep_id c \<and> hid_buf_phys c \<noteq> 0
            then thenx (decode_report (hid_buf_phys c) (min (unat trb_len) (hid_buf_len c))) (repost_report c)
            else ret c))"

definition handle_port_change :: "ControllerState \<Rightarrow> Trb \<Rightarrow> ControllerState xm" where
  "handle_port_change c t =
     (let port_id = ucast (drop_bit 24 (parameter t) AND 0xFF) :: u8
      in thenx (log_fmt (str_bytes ''[xhci] port status change: port='' @ fmt_dec port_id @ str_bytes '' status='' @
             fmt_alt_hex 0 (status t) @ CRLF))
           (thenx
              (if info_base (info c) = 0 then ret ()
               else bindx (portsc (port (info c) (unat (saturating_sub port_id 1)))) (\<lambda>sc. log_fmt (port_line (fmt_dec port_id) sc)))
              (ret c)))"

definition handle_event :: "ControllerState \<Rightarrow> u8 \<Rightarrow> Trb \<Rightarrow> ControllerState xm" where
  "handle_event c ty t =
     (if ty = TRB_TYPE_COMMAND_COMPLETION then handle_completion c t
      else if ty = TRB_TYPE_TRANSFER_EVENT then handle_transfer c t
      else if ty = TRB_TYPE_PORT_STATUS_CHANGE then handle_port_change c t
      else thenx (log_fmt (str_bytes ''[xhci] event type='' @ fmt_dec ty @ str_bytes '' status='' @ fmt_alt_hex 0 (status t) @
             str_bytes '' param='' @ fmt_alt_hex 0 (parameter t) @ CRLF)) (ret c))"

definition dma :: "xsys \<Rightarrow> xsys" where
  "dma s = s\<lparr>ram := dma_tape s (dma_pos s) (ram s), dma_pos := Suc (dma_pos s)\<rparr>"

definition finish_event :: "u64 \<Rightarrow> ControllerState \<Rightarrow> ControllerState xm" where
  "finish_event ir c =
     (let (d, cy) = advance (event_ring_dequeue c) (event_ring_cycle c) (event_ring_len c);
          c = c\<lparr>event_ring_dequeue := d, event_ring_cycle := cy\<rparr>;
          new_erdp = event_ring_phys c + of_nat d * 16
      in thenx (set_erdp ir (new_erdp OR push_bit 3 1)) (ret c))"

partial_function (option) poll_loop ::
  "u64 \<Rightarrow> ControllerState \<Rightarrow> bool \<Rightarrow> xsys \<Rightarrow> (stop + (bool \<times> ControllerState) \<times> xsys) option" where
  "poll_loop ir c processed s0 =
     (let s = dma s0; index = event_ring_dequeue c
      in if index \<ge> event_ring_len c then Some (Inl Panicked)
         else
           (let t = read_trb (ram s) (event_ring_phys c) index;
                cycle = control t AND 1 \<noteq> 0
            in if cycle \<noteq> event_ring_cycle c then Some (Inr ((processed, c), s))
               else
                 (case bindx (handle_event c (ucast (drop_bit 10 (control t) AND 0x3F)) t) (finish_event ir) s of
                    Inl e \<Rightarrow> Some (Inl e)
                  | Inr (c', s') \<Rightarrow> poll_loop ir c' True s')))"

definition poll_events :: "bool xm" where
  "poll_events =
     with_state False (\<lambda>c.
       if info_base (info c) = 0 then ret (False, c)
       else (\<lambda>s. case poll_loop (interrupter_register_set (info c) 0) c False s of None \<Rightarrow> Inl Diverged | Some r \<Rightarrow> r))"

definition take_completion :: "(u8 \<times> u8) option xm" where
  "take_completion =
     with_state None (\<lambda>c.
       case last_completion_code c of
         None \<Rightarrow> ret (None, c)
       | Some code \<Rightarrow>
           ret (Some (code, case last_completed_slot c of None \<Rightarrow> 0 | Some slot \<Rightarrow> slot),
                c\<lparr>last_completion_code := None, last_completed_slot := None\<rparr>))"

fun completion_loop :: "nat \<Rightarrow> (u8 \<times> u8) option xm" where
  "completion_loop 0 = ret None"
| "completion_loop (Suc n) =
     thenx poll_events (bindx take_completion (\<lambda>r. case r of Some x \<Rightarrow> ret (Some x) | None \<Rightarrow> completion_loop n))"

definition wait_for_command_completion :: "nat \<Rightarrow> (u8 \<times> u8) option xm" where
  "wait_for_command_completion iterations s = (if ctl s = None then ret None s else completion_loop iterations s)"

text \<open>Waiting for a transfer event: \<open>fin\<close> is what the caller does, under the lock, with its code.\<close>

fun await_transfer :: "nat \<Rightarrow> (u8 \<Rightarrow> ControllerState \<Rightarrow> ('a \<times> ControllerState) xm) \<Rightarrow> 'a \<Rightarrow> 'a xm" where
  "await_transfer 0 fin dflt = ret dflt"
| "await_transfer (Suc n) fin dflt =
     thenx poll_events
       (bindx
          (with_state None (\<lambda>c.
             case last_transfer_code c of
               None \<Rightarrow> ret (None, c)
             | Some code \<Rightarrow> bindx (fin code (c\<lparr>last_transfer_code := None\<rparr>)) (\<lambda>(a, c). ret (Some a, c))))
          (\<lambda>r. case r of Some a \<Rightarrow> ret a | None \<Rightarrow> await_transfer n fin dflt))"

section \<open>Ports\<close>

fun scan_ports :: "XhciInfo \<Rightarrow> nat list \<Rightarrow> nat option xm" where
  "scan_ports i [] = ret None"
| "scan_ports i (p # ps) =
     bindx (portsc (port i p)) (\<lambda>sc. if sc AND 0x1 \<noteq> 0 then ret (Some p) else scan_ports i ps)"

definition controller_info :: "XhciInfo option xm" where
  "controller_info = with_state None (\<lambda>c. ret (Some (info c), c))"

definition find_first_connected_port :: "nat option xm" where
  "find_first_connected_port =
     bindx controller_info (\<lambda>r. case r of
       None \<Rightarrow> ret None
     | Some i \<Rightarrow> if info_base i = 0 then ret None else scan_ports i [0..<unat (max_ports i)])"

definition report_ports :: "unit xm" where
  "report_ports =
     bindx controller_info (\<lambda>r. case r of
       None \<Rightarrow> ret ()
     | Some i \<Rightarrow>
         if info_base i = 0 then ret ()
         else for_x [0..<unat (max_ports i)] (\<lambda>p.
                bindx (portsc (port i p)) (\<lambda>sc. log_fmt (port_line (fmt_dec (of_nat p + 1 :: u8)) sc))))"

definition reset_port :: "nat \<Rightarrow> bool xm" where
  "reset_port index =
     bindx controller_info (\<lambda>r. case r of
       None \<Rightarrow> ret False
     | Some i \<Rightarrow>
         if info_base i = 0 then ret False
         else
           (let regs = port i index
            in bindx (portsc regs) (\<lambda>sc.
               thenx (log_fmt (str_bytes ''[xhci] resetting port'' @ dec_digits (index + 1) @ str_bytes '' sc='' @ fmt_alt_hex 0 sc @ CRLF))
              (thenx (write_portsc regs (sc OR push_bit 4 1))
              (thenx (wait_for (bindx (portsc regs) (\<lambda>now. ret (now AND push_bit 4 1 = 0))))
              (bindx (wait_for (bindx (portsc regs) (\<lambda>now. ret (now AND 0x2 \<noteq> 0)))) (\<lambda>ok.
               bindx (portsc regs) (\<lambda>final_sc.
               thenx (log_fmt (str_bytes ''[xhci] port'' @ dec_digits (index + 1) @ str_bytes '' reset done ok='' @
                        dec_digits (if ok then 1 else 0) @ str_bytes '' sc='' @ fmt_alt_hex 0 final_sc @ CRLF))
                     (ret ok)))))))))"

definition ensure_first_port_enabled :: "bool xm" where
  "ensure_first_port_enabled =
     bindx find_first_connected_port (\<lambda>r. case r of
       None \<Rightarrow> ret False
     | Some idx \<Rightarrow>
         bindx controller_info (\<lambda>r.
           bindx (case r of
                    None \<Rightarrow> ret False
                  | Some i \<Rightarrow>
                      if info_base i = 0 then ret False
                      else bindx (portsc (port i idx)) (\<lambda>sc. ret (sc AND 0x2 \<noteq> 0)))
             (\<lambda>enabled. if enabled then ret True else reset_port idx)))"

section \<open>Start-up\<close>

definition CMD_RING_TRBS :: nat where "CMD_RING_TRBS = 256"
definition EVENT_RING_TRBS :: nat where "EVENT_RING_TRBS = 256"

text \<open>The two early returns of the driver: a failed condition and a missing value.\<close>

definition unless :: "bool xm \<Rightarrow> 'r \<Rightarrow> 'r xm \<Rightarrow> 'r xm" where
  "unless cond r rest = bindx cond (\<lambda>ok. if ok then rest else ret r)"

definition alloc_or :: "u64 \<Rightarrow> u64 \<Rightarrow> 'r xm \<Rightarrow> (u64 \<Rightarrow> 'r xm) \<Rightarrow> 'r xm" where
  "alloc_or sz align failed rest =
     bindx (alloc sz align) (\<lambda>r. case r of None \<Rightarrow> failed | Some p \<Rightarrow> rest p)"

record ErstEntry =
  segment_base :: u64
  segment_size :: u32
  reserved :: u32

definition write_erst :: "u64 \<Rightarrow> ErstEntry \<Rightarrow> mem \<Rightarrow> mem" where
  "write_erst phys e m =
     write_bytes m phys (word_le 8 (segment_base e) @ word_le 4 (segment_size e) @ word_le 4 (reserved e))"

definition zero_erst :: "u64 \<Rightarrow> mem \<Rightarrow> mem" where
  "zero_erst phys m = write_erst phys \<lparr>segment_base = 0, segment_size = 0, reserved = 0\<rparr> m"

definition halt_and_reset :: "XhciInfo \<Rightarrow> (string + unit) xm \<Rightarrow> (string + unit) xm" where
  "halt_and_reset i rest =
     bindx (usbcmd i) (\<lambda>cmd.
       let reset =
             bindx (usbcmd i) (\<lambda>cmd.
             thenx (set_usbcmd i (cmd OR HOST_CONTROLLER_RESET))
               (unless (wait_for (bindx (usbcmd i) (\<lambda>v. ret (\<not> contains v HOST_CONTROLLER_RESET)))) (Inl ''xhci: reset bit stuck'')
               (unless (wait_for (bindx (usbsts i) (\<lambda>v. ret (contains v HOST_CONTROLLER_HALTED)))) (Inl ''xhci: reset halt timeout'')
                  rest)))
       in if contains cmd RUN_STOP
          then thenx (set_usbcmd i (cmd AND NOT RUN_STOP))
                 (unless (wait_for (bindx (usbsts i) (\<lambda>v. ret (contains v HOST_CONTROLLER_HALTED)))) (Inl ''xhci: halt timeout'')
                    reset)
          else reset)"

definition program_registers :: "XhciInfo \<Rightarrow> u64 \<Rightarrow> u64 \<Rightarrow> u64 \<Rightarrow> u64 \<Rightarrow> unit xm" where
  "program_registers i cmd_ring dcbaa event_ring erst =
     (let ir0 = interrupter_register_set i 0
      in thenx (set_dcbaap i dcbaa)
        (thenx (set_crcr i ((cmd_ring AND NOT 0xF) OR 1))
        (thenx (set_config i (ucast (max_slots i) AND 0xFF))
        (thenx (set_erstsz ir0 1)
        (thenx (set_erstba ir0 erst)
        (thenx (set_erdp ir0 event_ring)
        (thenx (bindx (iman ir0) (\<lambda>v. set_iman ir0 (v OR 1)))
        (thenx (set_imod ir0 0)
        (thenx (clear_usbsts i (EVENT_INTERRUPT OR PORT_CHANGE_DETECT OR HOST_SYSTEM_ERROR))
               (bindx (usbcmd i) (\<lambda>cmd. set_usbcmd i (cmd OR (RUN_STOP OR INTERRUPTER_ENABLE)))))))))))))"

definition initial_state :: "XhciInfo \<Rightarrow> u64 \<Rightarrow> u64 \<Rightarrow> u64 \<Rightarrow> u64 \<Rightarrow> ControllerState" where
  "initial_state i cmd_ring dcbaa event_ring erst =
     \<lparr>info = i, command_ring_phys = cmd_ring, command_ring_len = CMD_RING_TRBS, command_ring_enqueue = 0,
      command_ring_cycle = True, event_ring_phys = event_ring, event_ring_len = EVENT_RING_TRBS,
      event_ring_dequeue = 0, event_ring_cycle = True, dcbaa_phys = dcbaa, erst_phys = erst,
      last_completion_code = None, last_completed_slot = None, last_transfer_code = None,
      last_transfer_len = None, last_transfer_ep = None, last_transfer_slot = None, active_slot = None,
      ep0_ring_phys = 0, ep0_ring_len = 0, ep0_enqueue = 0, ep0_cycle = True, intr_ep_addr = 0,
      intr_ep_id = 0, intr_ring_phys = 0, intr_ring_len = 0, intr_enqueue = 0, intr_cycle = True,
      hid_buf_phys = 0, hid_buf_len = 0\<rparr>"

definition call_once :: "ControllerState \<Rightarrow> unit xm" where
  "call_once c = upd (\<lambda>s. case ctl s of None \<Rightarrow> s\<lparr>ctl := Some c\<rparr> | Some _ \<Rightarrow> s)"

definition announce :: "XhciInfo \<Rightarrow> u64 \<Rightarrow> u64 \<Rightarrow> (string + unit) xm" where
  "announce i erst event_ring =
     bindx (crcr i) (\<lambda>cr.
     thenx (log_fmt (str_bytes ''[xhci] runtime ready cr='' @ fmt_alt_hex 0 cr @ str_bytes '' erst='' @ fmt_alt_hex 0 erst @
              str_bytes '' erdp='' @ fmt_alt_hex 0 event_ring @ CRLF))
    (thenx enqueue_noop_command
    (thenx (ring_doorbell 0 0)
    (thenx (bindx (wait_for_command_completion 1000000) (\<lambda>r. case r of
              Some (code, slot) \<Rightarrow> log_fmt (str_bytes ''[xhci] command completed code='' @ fmt_alt_hex 0 code @
                                     str_bytes '' slot='' @ fmt_dec slot @ CRLF)
            | None \<Rightarrow> log_str (str_bytes ''[xhci] command timeout'' @ CRLF)))
           (bindx (usbsts i) (\<lambda>v. thenx (log_fmt (str_bytes ''[xhci] usbsts='' @ fmt_alt_hex 0 v @ CRLF)) (ret (Inr ()))))))))"

definition init_controller :: "XhciInfo \<Rightarrow> (string + unit) xm" where
  "init_controller i =
     (if info_base i = 0 then ret (Inl ''xhci: null base'')
      else halt_and_reset i
        (alloc_or (of_nat (CMD_RING_TRBS * TRB_SIZE)) 64 (ret (Inl ''xhci: no memory for command ring'')) (\<lambda>cmd_ring.
         thenx (in_ram (zero_trbs cmd_ring CMD_RING_TRBS))
        (thenx (in_ram (init_link_trb cmd_ring CMD_RING_TRBS cmd_ring True))
         (let dcbaa_size = (unat (max_slots i) + 1) * 8
          in alloc_or (of_nat dcbaa_size) 64 (ret (Inl ''xhci: no dcbaa'')) (\<lambda>dcbaa.
             thenx (zero_phys dcbaa dcbaa_size)
            (alloc_or (of_nat (EVENT_RING_TRBS * TRB_SIZE)) 64 (ret (Inl ''xhci: no event ring'')) (\<lambda>event_ring.
             thenx (in_ram (zero_trbs event_ring EVENT_RING_TRBS))
            (alloc_or 16 64 (ret (Inl ''xhci: no erst'')) (\<lambda>erst.
             thenx (in_ram (zero_erst erst))
            (thenx (in_ram (write_erst erst \<lparr>segment_base = event_ring, segment_size = of_nat EVENT_RING_TRBS, reserved = 0\<rparr>))
            (thenx (program_registers i cmd_ring dcbaa event_ring erst)
            (unless (wait_for (bindx (usbsts i) (\<lambda>v. ret (\<not> contains v HOST_CONTROLLER_HALTED)))) (Inl ''xhci: run timeout'')
            (thenx (call_once (initial_state i cmd_ring dcbaa event_ring erst))
                   (announce i erst event_ring)))))))))))))))"

section \<open>Device set-up\<close>

definition enable_slot :: "u8 option xm" where
  "enable_slot =
     thenx (enqueue_command_trb TRB_TYPE_ENABLE_SLOT 0 0)
    (thenx (ring_doorbell 0 0)
    (bindx (wait_for_command_completion 1000000) (\<lambda>r. case r of
       None \<Rightarrow> ret None
     | Some (code, slot) \<Rightarrow>
         thenx (log_fmt (str_bytes ''[xhci] enable slot completion code='' @ fmt_alt_hex 0 code @ str_bytes '' slot='' @ fmt_dec slot @ CRLF))
               (ret (if code = 1 then Some slot else None)))))"

definition port_speed :: "u32 xm" where
  "port_speed =
     bindx find_first_connected_port (\<lambda>r. case r of
       None \<Rightarrow> ret 0
     | Some idx \<Rightarrow>
         bindx controller_info (\<lambda>r. case r of
           None \<Rightarrow> ret 0
         | Some i \<Rightarrow> if info_base i = 0 then ret 0
                      else bindx (portsc (port i idx)) (\<lambda>sc. ret (drop_bit 10 sc AND 0xF))))"

definition max_packet :: "u32 \<Rightarrow> u32" where
  "max_packet speed_code =
     (if speed_code = 4 then 512 else if speed_code = 3 then 64
      else if speed_code = 1 \<or> speed_code = 2 then 8 else 64)"

definition fill_address_context :: "nat \<Rightarrow> u64 \<Rightarrow> u64 \<Rightarrow> unit xm" where
  "fill_address_context ctx_size ic ep0_ring =
     (let d = ctx_size div 4
      in thenx (write_u32 ic 1 3)
        (thenx (write_u32 ic (d + 0) 0)
        (bindx port_speed (\<lambda>speed_code.
         thenx (write_u32 ic (d + 1) (push_bit 20 speed_code))
        (thenx (write_u32 ic (d + 2) (push_bit 27 1))
        (thenx (write_u32 ic (d + d + 1) (push_bit 16 (max_packet speed_code)))
        (thenx (write_u32 ic (d + d + 2) (ucast ep0_ring AND NOT 0xF))
               (write_u32 ic (d + d + 3) (ucast (drop_bit 32 ep0_ring))))))))))"

definition install_context :: "u64 \<Rightarrow> nat \<Rightarrow> u8 \<Rightarrow> u64 \<Rightarrow> unit xm" where
  "install_context dcbaa entries slot_id dc =
     (if unat slot_id < entries then in_ram (\<lambda>m. write_bytes m (dcbaa + of_nat (8 * unat slot_id)) (word_le 8 dc))
      else stopx Panicked)"

definition make_ring :: "u64 \<Rightarrow> nat \<Rightarrow> unit xm" where
  "make_ring phys entries =
     thenx (in_ram (zero_trbs phys entries)) (in_ram (init_link_trb phys entries phys True))"

definition address_device :: "u8 \<Rightarrow> bool xm" where
  "address_device slot_id =
     bindx (with_state None (\<lambda>c. ret (Some (info c, dcbaa_phys c), c))) (\<lambda>r. case r of
       None \<Rightarrow> ret False
     | Some (i, dcbaa) \<Rightarrow>
         (let ctx_size = unat (context_size i); dc_bytes = ctx_size * (1 + 31); ic_bytes = ctx_size * 3
          in alloc_or (of_nat dc_bytes) 64 (thenx (log_str (str_bytes ''[xhci] no memory for device context'' @ CRLF)) (ret False)) (\<lambda>dc.
             thenx (zero_phys dc dc_bytes)
            (thenx (install_context dcbaa (unat (max_slots i) + 1) slot_id dc)
            (alloc_or (of_nat (64 * TRB_SIZE)) 64 (thenx (log_str (str_bytes ''[xhci] no memory for ep0 ring'' @ CRLF)) (ret False)) (\<lambda>ep0.
             thenx (make_ring ep0 64)
            (alloc_or (of_nat ic_bytes) 64 (thenx (log_str (str_bytes ''[xhci] no memory for input context'' @ CRLF)) (ret False)) (\<lambda>ic.
             thenx (zero_phys ic ic_bytes)
            (thenx (fill_address_context ctx_size ic ep0)
            (thenx (enqueue_command_trb_slot TRB_TYPE_ADDRESS_DEVICE ic 0 slot_id)
            (thenx (ring_doorbell 0 0)
            (bindx (wait_for_command_completion 1000000) (\<lambda>r. case r of
               None \<Rightarrow> ret False
             | Some (code, slot) \<Rightarrow>
                 thenx (log_fmt (str_bytes ''[xhci] address device completion code='' @ fmt_alt_hex 0 code @
                          str_bytes '' slot='' @ fmt_dec slot @ CRLF))
                   (if code = 1 \<and> slot = slot_id
                    then with_state True (\<lambda>c. ret (True, c\<lparr>active_slot := Some slot_id, ep0_ring_phys := ep0,
                           ep0_ring_len := 64, ep0_enqueue := 0, ep0_cycle := True\<rparr>))
                    else ret False))))))))))))))"

text \<open>The setup packet is transmuted to the parameter word: its fields in little-endian order.\<close>

definition setup_param :: "u8 \<Rightarrow> u8 \<Rightarrow> u16 \<Rightarrow> u16 \<Rightarrow> u16 \<Rightarrow> u64" where
  "setup_param bmRequestType bRequest wValue wIndex wLength =
     le_word ([bmRequestType, bRequest] @ word_le 2 wValue @ word_le 2 wIndex @ word_le 2 wLength)"

definition ep0_stage :: "u64 \<Rightarrow> u32 \<Rightarrow> u32 \<Rightarrow> unit xm" where
  "ep0_stage param stat ctrl =
     bindx ep0_cycle_bit (\<lambda>cy. ep0_enqueue_trb \<lparr>parameter = param, status = stat, control = ctrl OR push_bit 5 1 OR cy\<rparr>)"

definition control_in :: "u8 \<Rightarrow> u8 \<Rightarrow> u8 \<Rightarrow> u16 \<Rightarrow> u16 \<Rightarrow> u16 \<Rightarrow> u64 \<Rightarrow> bool xm" where
  "control_in slot_id request_type request val index len data_phys =
     thenx (ep0_stage (setup_param request_type request val index len) 8 (push_bit 10 (TRB_TYPE_SETUP_STAGE AND 0x3F)))
    (thenx (ep0_stage data_phys (ucast len) (push_bit 10 (TRB_TYPE_DATA_STAGE AND 0x3F) OR push_bit 16 1))
    (thenx (ep0_stage 0 0 (push_bit 10 (TRB_TYPE_STATUS_STAGE AND 0x3F) OR push_bit 16 0))
    (thenx (ring_ep0 slot_id)
       (await_transfer 1000000
          (\<lambda>code c.
             (let n = (case last_transfer_len c of None \<Rightarrow> 0 | Some n \<Rightarrow> n)
              in thenx (log_fmt (str_bytes ''[xhci] control_in done code='' @ fmt_alt_hex 0 code @ str_bytes '' len='' @ fmt_dec n @ CRLF))
                   (ret (code = 1, c\<lparr>last_transfer_len := None\<rparr>))))
          False))))"

definition get_device_descriptor :: "u8 \<Rightarrow> u64 option xm" where
  "get_device_descriptor slot_id =
     alloc_or 256 64 (thenx (log_str (str_bytes ''[xhci] no mem for dev desc'' @ CRLF)) (ret None)) (\<lambda>buf.
     thenx (zero_phys buf 256)
     (bindx (control_in slot_id 0x80 6 (push_bit 8 1 OR 0) 0 18 buf) (\<lambda>ok. ret (if ok then Some buf else None))))"

definition control_no_data :: "u8 \<Rightarrow> u8 \<Rightarrow> u8 \<Rightarrow> u16 \<Rightarrow> u16 \<Rightarrow> bool xm" where
  "control_no_data slot_id request_type request val index =
     thenx (ep0_stage (setup_param request_type request val index 0) 8 (push_bit 10 (TRB_TYPE_SETUP_STAGE AND 0x3F)))
    (thenx (ep0_stage 0 0 (push_bit 10 (TRB_TYPE_STATUS_STAGE AND 0x3F) OR push_bit 16 1))
    (thenx (ring_ep0 slot_id)
       (await_transfer 1000000
          (\<lambda>code c. thenx (log_fmt (str_bytes ''[xhci] control_out(no-data) done code='' @ fmt_alt_hex 0 code @ CRLF))
                       (ret (code = 1, c)))
          False)))"

definition get_configuration_descriptor_header :: "u8 \<Rightarrow> (u64 \<times> u16 \<times> u8) option xm" where
  "get_configuration_descriptor_header slot_id =
     alloc_or 64 64 (thenx (log_str (str_bytes ''[xhci] no mem for cfg head'' @ CRLF)) (ret None)) (\<lambda>buf.
     thenx (zero_phys buf 64)
     (bindx (control_in slot_id 0x80 6 (push_bit 8 2 OR 0) 0 9 buf) (\<lambda>ok.
        if \<not> ok then ret None
        else get (\<lambda>s. Some (buf, ucast (ram s (buf + 2)) OR push_bit 8 (ucast (ram s (buf + 3))), ram s (buf + 5))))))"

definition get_configuration_descriptor :: "u8 \<Rightarrow> u16 \<Rightarrow> u64 option xm" where
  "get_configuration_descriptor slot_id total_len =
     alloc_or (ucast total_len) 64 (thenx (log_str (str_bytes ''[xhci] no mem for cfg desc'' @ CRLF)) (ret None)) (\<lambda>buf.
     thenx (zero_phys buf (unat total_len))
     (bindx (control_in slot_id 0x80 6 (push_bit 8 2 OR 0) 0 total_len buf) (\<lambda>ok. ret (if ok then Some buf else None))))"

definition set_configuration :: "u8 \<Rightarrow> u8 \<Rightarrow> bool xm" where
  "set_configuration slot_id cfg_value = control_no_data slot_id 0x00 9 (ucast cfg_value) 0"

definition fill_endpoint_context :: "nat \<Rightarrow> u64 \<Rightarrow> u8 \<Rightarrow> u16 \<Rightarrow> u64 \<Rightarrow> unit xm" where
  "fill_endpoint_context ctx_size ic ep_id maxp ring =
     (let d = ctx_size div 4; ep = d + d * unat ep_id
      in thenx (write_u32 ic 1 (1 OR push_bit (unat ep_id) 1))
        (thenx (write_u32 ic (d + 2) (push_bit 27 (ucast ep_id)))
        (thenx (write_u32 ic (ep + 1) (push_bit 16 (ucast maxp)))
        (thenx (write_u32 ic (ep + 2) (ucast ring AND NOT 0xF))
               (write_u32 ic (ep + 3) (ucast (drop_bit 32 ring)))))))"

definition configure_interrupt_in_endpoint :: "u8 \<Rightarrow> u8 \<Rightarrow> u16 \<Rightarrow> u8 \<Rightarrow> bool xm" where
  "configure_interrupt_in_endpoint slot_id ep_addr maxp interval =
     (let ep_id = endpoint_id_from_addr ep_addr
      in bindx controller_info (\<lambda>r. case r of
           None \<Rightarrow> ret False
         | Some i \<Rightarrow>
             (let ctx_size = unat (context_size i); ic_bytes = ctx_size * (1 + 1 + unat ep_id)
              in alloc_or (of_nat (128 * TRB_SIZE)) 64 (thenx (log_str (str_bytes ''[xhci] no memory for intr ring'' @ CRLF)) (ret False)) (\<lambda>ring.
                 thenx (make_ring ring 128)
                (alloc_or (of_nat ic_bytes) 64 (thenx (log_str (str_bytes ''[xhci] no memory for conf ic'' @ CRLF)) (ret False)) (\<lambda>ic.
                 thenx (zero_phys ic ic_bytes)
                (thenx (fill_endpoint_context ctx_size ic ep_id maxp ring)
                (thenx (enqueue_command_trb_slot TRB_TYPE_CONFIGURE_ENDPOINT ic 0 slot_id)
                (thenx (ring_doorbell 0 0)
                (bindx (wait_for_command_completion 1000000) (\<lambda>r. case r of
                   None \<Rightarrow> ret False
                 | Some (code, slot) \<Rightarrow>
                     thenx (log_fmt (str_bytes ''[xhci] configure ep completion code='' @ fmt_alt_hex 0 code @
                              str_bytes '' slot='' @ fmt_dec slot @ CRLF))
                       (if code = 1 \<and> slot = slot_id
                        then with_state True (\<lambda>c. ret (True, c\<lparr>intr_ep_addr := ep_addr, intr_ep_id := ep_id,
                               intr_ring_phys := ring, intr_ring_len := 128, intr_enqueue := 0, intr_cycle := True\<rparr>))
                        else ret False))))))))))))"

section \<open>HID polling\<close>

definition request_hid_report_once :: "u8 \<Rightarrow> u8 \<Rightarrow> u16 \<Rightarrow> u64 option xm" where
  "request_hid_report_once slot_id ep_addr maxp =
     (let ep_id = endpoint_id_from_addr ep_addr; buf_len = unat maxp
      in alloc_or (of_nat buf_len) 64 (thenx (log_str (str_bytes ''[xhci] no mem for hid buf'' @ CRLF)) (ret None)) (\<lambda>buf.
         thenx (zero_phys buf buf_len)
        (thenx (bindx intr_cycle_bit (\<lambda>cy. intr_enqueue_trb
                  \<lparr>parameter = buf, status = ucast maxp, control = push_bit 10 (TRB_TYPE_NORMAL AND 0x3F) OR push_bit 5 1 OR cy\<rparr>))
        (thenx (ring_doorbell slot_id (ucast ep_id))
           (await_transfer 1000000
              (\<lambda>code c.
                 (let n = (case last_transfer_len c of None \<Rightarrow> 0 | Some n \<Rightarrow> n)
                  in thenx (log_fmt (str_bytes ''[hid] report event code='' @ fmt_alt_hex 0 code @ str_bytes '' len='' @ dec_digits (unat n) @ CRLF))
                       (ret (if code = 1 then Some buf else None, c\<lparr>last_transfer_len := None\<rparr>))))
              None)))))"

text \<open>The report buffer is allocated under the lock, once; a failed allocation returns.\<close>

definition hid_buffer :: "u16 \<Rightarrow> ControllerState \<Rightarrow> ControllerState option xm" where
  "hid_buffer maxp c =
     (if hid_buf_phys c = 0
      then alloc_or (ucast maxp) 64 (ret None) (\<lambda>buf.
             thenx (zero_phys buf (unat maxp)) (ret (Some (c\<lparr>hid_buf_phys := buf, hid_buf_len := unat maxp\<rparr>))))
      else ret (Some c))"

definition start_hid_polling :: "u8 \<Rightarrow> u8 \<Rightarrow> u16 \<Rightarrow> bool xm" where
  "start_hid_polling slot_id ep_addr maxp =
     with_state False (\<lambda>c.
       if intr_ring_len c = 0 then ret (False, c)
       else
         bindx (hid_buffer maxp c) (\<lambda>r. case r of
           None \<Rightarrow> ret (False, c)
         | Some c \<Rightarrow>
             if intr_ring_len c - 1 = 0 then ret (False, c)
             else bindx (put_intr \<lparr>parameter = hid_buf_phys c, status = ucast maxp,
                                   control = command_control TRB_TYPE_NORMAL (intr_cycle c)\<rparr> c)
                    (\<lambda>c. thenx (ring_doorbell slot_id (ucast (endpoint_id_from_addr ep_addr))) (ret (True, c)))))"

end
