(* ===== verification/Xhci_Contracts.thy ===== *)
theory Xhci_Contracts
  imports Xhci_Driver
begin

text \<open>
  Contracts of the USB host controller driver. A contract is an invariant of the system state and
  a relation between the states before and after an operation; the locale \<open>contract\<close> has the
  structural rules, \<open>memory_contract\<close> those for operations that allocate and write memory. It is
  interpreted for the driver's lock and for the register writes and the part of the controller
  state that never changes after start-up.
\<close>

section \<open>Contracts of driver operations\<close>

text \<open>An operation guards \<open>I\<close> and \<open>R\<close> when, started in \<open>I\<close>, every return is in \<open>I\<close> again and
  \<open>R\<close> relates the two states. Stopping is allowed: it is stated separately where it matters.\<close>

definition guards :: "(xsys \<Rightarrow> bool) \<Rightarrow> (xsys \<Rightarrow> xsys \<Rightarrow> bool) \<Rightarrow> 'a xm \<Rightarrow> bool" where
  "guards I R f \<longleftrightarrow> (\<forall>s a s'. I s \<longrightarrow> f s = Inr (a, s') \<longrightarrow> I s' \<and> R s s')"

lemma guardsI: "(\<And>s a s'. I s \<Longrightarrow> f s = Inr (a, s') \<Longrightarrow> I s' \<and> R s s') \<Longrightarrow> guards I R f"
  by (auto simp: guards_def)

lemma guardsD: "guards I R f \<Longrightarrow> I s \<Longrightarrow> f s = Inr (a, s') \<Longrightarrow> I s' \<and> R s s'"
  by (auto simp: guards_def)

lemma bindx_Inr: "bindx f g s = Inr r \<longleftrightarrow> (\<exists>a s'. f s = Inr (a, s') \<and> g a s' = Inr r)"
  by (auto simp: bindx_def split: sum.splits)

lemma bindx_ret [simp]: "bindx (ret a) g = g a"
  by (simp add: bindx_def ret_def fun_eq_iff)

lemma bindx_upd [simp]: "bindx (upd f) g s = g () (f s)"
  by (simp add: bindx_def upd_def)

lemma thenx_upd [simp]: "thenx (upd f) g s = g (f s)"
  by (simp add: thenx_def)

locale contract =
  fixes I :: "xsys \<Rightarrow> bool" and R :: "xsys \<Rightarrow> xsys \<Rightarrow> bool"
  assumes R_refl: "I s \<Longrightarrow> R s s"
    and R_trans: "I s \<Longrightarrow> R s t \<Longrightarrow> R t u \<Longrightarrow> R s u"
    and frame_xio: "I s \<Longrightarrow> I (s\<lparr>xio := x\<rparr>) \<and> R s (s\<lparr>xio := x\<rparr>)"
    and frame_reg: "I s \<Longrightarrow> I (s\<lparr>reg_pos := n\<rparr>) \<and> R s (s\<lparr>reg_pos := n\<rparr>)"
begin

lemma ret_ok: "guards I R (ret a)"
  by (auto simp: guards_def ret_def R_refl)

lemma get_ok: "guards I R (get f)"
  by (auto simp: guards_def get_def R_refl)

lemma stop_ok: "guards I R (stopx e)"
  by (auto simp: guards_def stopx_def)

lemma bind_ok: "guards I R f \<Longrightarrow> (\<And>a. guards I R (g a)) \<Longrightarrow> guards I R (bindx f g)"
  unfolding guards_def bindx_Inr by (meson R_trans)

lemma bind_value_ok:
  "guards I R f \<Longrightarrow> (\<And>s a s'. I s \<Longrightarrow> f s = Inr (a, s') \<Longrightarrow> P a) \<Longrightarrow> (\<And>a. P a \<Longrightarrow> guards I R (g a)) \<Longrightarrow> guards I R (bindx f g)"
  unfolding guards_def bindx_Inr by (meson R_trans)

lemma then_ok: "guards I R f \<Longrightarrow> guards I R g \<Longrightarrow> guards I R (thenx f g)"
  by (simp add: thenx_def bind_ok)

lemma if_ok: "guards I R f \<Longrightarrow> guards I R g \<Longrightarrow> guards I R (if b then f else g)"
  by simp

lemma option_ok: "guards I R f \<Longrightarrow> (\<And>x. guards I R (g x)) \<Longrightarrow> guards I R (case r of None \<Rightarrow> f | Some x \<Rightarrow> g x)"
  by (simp split: option.split)

lemma prod_ok: "(\<And>x y. guards I R (g x y)) \<Longrightarrow> guards I R (case r of (x, y) \<Rightarrow> g x y)"
  by (simp split: prod.split)

lemma unless_ok: "guards I R c \<Longrightarrow> guards I R f \<Longrightarrow> guards I R (unless c r f)"
  unfolding unless_def by (intro bind_ok if_ok ret_ok)

lemma for_ok: "(\<And>x. guards I R (f x)) \<Longrightarrow> guards I R (for_x xs f)"
  by (induction xs) (auto intro: ret_ok then_ok)

lemma wait_ok: "guards I R p \<Longrightarrow> guards I R (wait_for p)"
proof -
  assume p: "guards I R p"
  have "guards I R (wait_loop n p)" for n
    by (induction n) (auto intro!: ret_ok bind_ok p)
  then show ?thesis by (simp add: wait_for_def)
qed

lemma log_fmt_ok: "guards I R (log_fmt bs)"
  by (auto simp: guards_def log_fmt_def upd_def dest: frame_xio)

lemma log_str_ok: "guards I R (log_str bs)"
  by (auto simp: guards_def log_str_def upd_def dest: frame_xio)

lemma read_reg_ok: "guards I R (read_reg a)"
  by (auto simp: guards_def read_reg_def dest: frame_reg)

lemma scan_ok: "guards I R (scan_ports i ps)"
  by (induction ps) (auto intro!: ret_ok bind_ok if_ok read_reg_ok simp: portsc_def)

lemma completion_ok:
  "guards I R poll_events \<Longrightarrow> guards I R take_completion \<Longrightarrow> guards I R (wait_for_command_completion n)"
proof -
  assume p: "guards I R poll_events" "guards I R take_completion"
  have "guards I R (completion_loop n)"
    by (induction n) (auto intro!: ret_ok bind_ok then_ok option_ok p)
  then show ?thesis by (auto simp: guards_def wait_for_command_completion_def ret_def R_refl)
qed

lemmas structural = ret_ok get_ok stop_ok bind_ok then_ok if_ok option_ok prod_ok unless_ok for_ok wait_ok
  log_fmt_ok log_str_ok read_reg_ok scan_ok

end

text \<open>A contract that says nothing of memory and of the allocator.\<close>

locale memory_contract = contract +
  assumes frame_ram: "I s \<Longrightarrow> I (s\<lparr>ram := m\<rparr>) \<and> R s (s\<lparr>ram := m\<rparr>)"
    and frame_pmm: "I s \<Longrightarrow> I (s\<lparr>xpmm := p\<rparr>) \<and> R s (s\<lparr>xpmm := p\<rparr>)"
begin

lemma alloc_ok: "guards I R (alloc sz al)"
  by (auto simp: guards_def alloc_def dest: frame_pmm split: prod.splits)

lemma in_ram_ok: "guards I R (in_ram f)"
  by (auto simp: guards_def in_ram_def upd_def dest: frame_ram)

lemma alloc_or_ok: "guards I R f \<Longrightarrow> (\<And>p. guards I R (g p)) \<Longrightarrow> guards I R (alloc_or sz al f g)"
  unfolding alloc_or_def by (intro bind_ok option_ok alloc_ok)

lemmas memory_rules = structural alloc_ok in_ram_ok alloc_or_ok

end

section \<open>The lock\<close>

definition same_lock :: "xsys \<Rightarrow> xsys \<Rightarrow> bool" where
  "same_lock s s' \<longleftrightarrow> held s' = held s"

interpretation locking: memory_contract "\<lambda>_. True" same_lock
  by unfold_locales (auto simp: same_lock_def)

lemma with_state_locking: "guards (\<lambda>_. True) same_lock (with_state d b)"
  by (auto simp: guards_def same_lock_def with_state_def bindx_Inr lock_def unlock_def upd_def ret_def
      split: option.splits if_splits)

lemma write_reg_locking: "guards (\<lambda>_. True) same_lock (write_reg a v)"
  by (auto simp: guards_def same_lock_def write_reg_def upd_def)

lemma call_once_locking: "guards (\<lambda>_. True) same_lock (call_once c)"
  by (auto simp: guards_def same_lock_def call_once_def upd_def split: option.splits)

lemma await_locking: "guards (\<lambda>_. True) same_lock (await_transfer n fin d)"
  by (induction n) (auto intro!: locking.memory_rules with_state_locking simp: poll_events_def)

lemma completion_locking: "guards (\<lambda>_. True) same_lock (wait_for_command_completion n)"
  by (intro locking.completion_ok) (simp_all add: poll_events_def take_completion_def with_state_locking)

lemmas register_defs = usbcmd_def set_usbcmd_def usbsts_def clear_usbsts_def crcr_def set_crcr_def dcbaap_def set_dcbaap_def
  op_config_def set_config_def portsc_def write_portsc_def iman_def set_iman_def imod_def set_imod_def erstsz_def set_erstsz_def
  erstba_def set_erstba_def erdp_def set_erdp_def ring_db_def write_reg64_def read_reg64_def zero_phys_def write_u32_def

lemmas enqueue_defs = ring_doorbell_def enqueue_noop_command_def enqueue_command_trb_def enqueue_command_trb_slot_def
  ep0_enqueue_trb_def ep0_cycle_bit_def ring_ep0_def intr_cycle_bit_def intr_enqueue_trb_def controller_info_def ep0_stage_def

lemmas locking_intros = locking.memory_rules with_state_locking write_reg_locking call_once_locking await_locking
  completion_locking

lemma enqueue_locking: "guards (\<lambda>_. True) same_lock enqueue_noop_command" "guards (\<lambda>_. True) same_lock (ring_doorbell k t)"
  by (simp_all add: enqueue_defs with_state_locking)

lemma find_port_locking: "guards (\<lambda>_. True) same_lock find_first_connected_port"
  unfolding find_first_connected_port_def controller_info_def by (intro locking_intros)

lemma init_locking: "guards (\<lambda>_. True) same_lock (init_controller i)"
  unfolding init_controller_def halt_and_reset_def program_registers_def announce_def Let_def register_defs
  by (intro locking_intros enqueue_locking)

lemma address_locking: "guards (\<lambda>_. True) same_lock (address_device k)"
  unfolding address_device_def fill_address_context_def install_context_def make_ring_def port_speed_def enqueue_defs Let_def register_defs
  by (intro locking_intros find_port_locking)

lemma control_locking: "guards (\<lambda>_. True) same_lock (control_in k rt rq v i l d)"
  "guards (\<lambda>_. True) same_lock (control_no_data k rt rq v i)"
  unfolding control_in_def control_no_data_def enqueue_defs by (intro locking_intros)+

lemma descriptor_locking: "guards (\<lambda>_. True) same_lock (get_device_descriptor k)"
  "guards (\<lambda>_. True) same_lock (get_configuration_descriptor_header k)"
  "guards (\<lambda>_. True) same_lock (get_configuration_descriptor k n)"
  unfolding get_device_descriptor_def get_configuration_descriptor_header_def get_configuration_descriptor_def zero_phys_def
  by (intro locking_intros control_locking)+

lemma slot_locking: "guards (\<lambda>_. True) same_lock enable_slot"
  unfolding enable_slot_def enqueue_defs by (intro locking_intros)

lemma configure_locking: "guards (\<lambda>_. True) same_lock (configure_interrupt_in_endpoint k a mp iv)"
  unfolding configure_interrupt_in_endpoint_def fill_endpoint_context_def make_ring_def enqueue_defs Let_def register_defs
  by (intro locking_intros)

lemma request_locking: "guards (\<lambda>_. True) same_lock (request_hid_report_once k a mp)"
  unfolding request_hid_report_once_def enqueue_defs Let_def register_defs by (intro locking_intros)

lemma ports_locking: "guards (\<lambda>_. True) same_lock report_ports" "guards (\<lambda>_. True) same_lock ensure_first_port_enabled"
  unfolding report_ports_def ensure_first_port_enabled_def reset_port_def controller_info_def Let_def register_defs
  by (intro locking_intros find_port_locking)+

section \<open>Register writes and the fixed part of the state\<close>

definition fixed_part :: "ControllerState \<Rightarrow> XhciInfo \<times> u64 \<times> nat \<times> u64 \<times> nat \<times> u64 \<times> u64" where
  "fixed_part c = (info c, command_ring_phys c, command_ring_len c, event_ring_phys c, event_ring_len c, dcbaa_phys c, erst_phys c)"

definition installed :: "ControllerState \<Rightarrow> xsys \<Rightarrow> bool" where
  "installed c0 s \<longleftrightarrow> (\<exists>c. ctl s = Some c \<and> fixed_part c = fixed_part c0)"

text \<open>The registers the driver may write once it runs: status and control of the controller's ports, the
  dequeue pointer of interrupter 0 and the 256 doorbells of the controller it was started on.\<close>

definition registers :: "XhciInfo \<Rightarrow> u64 set" where
  "registers i = {interrupter_register_set i 0 + 0x18, interrupter_register_set i 0 + 0x1C} \<union>
     {port i k |k. k < unat (max_ports i)} \<union> {doorbells i + of_nat (k * 4) |k. k < 256}"

definition mmio :: "XhciInfo \<Rightarrow> xsys \<Rightarrow> xsys \<Rightarrow> bool" where
  "mmio i s s' \<longleftrightarrow> (\<exists>ws. reg_out s' = reg_out s @ ws \<and> fst ` set ws \<subseteq> registers i)"

definition returns :: "('a \<Rightarrow> bool) \<Rightarrow> 'a xm \<Rightarrow> bool" where
  "returns Q f \<longleftrightarrow> (\<forall>s a s'. f s = Inr (a, s') \<longrightarrow> Q a)"

lemma returns_ret: "Q a \<Longrightarrow> returns Q (ret a)"
  by (simp add: returns_def ret_def)

lemma returns_bind: "returns Q f \<Longrightarrow> (\<And>a. Q a \<Longrightarrow> returns P (g a)) \<Longrightarrow> returns P (bindx f g)"
  unfolding returns_def bindx_Inr by blast

lemma returns_then: "returns P g \<Longrightarrow> returns P (thenx f g)"
  by (auto simp: returns_def thenx_def bindx_Inr)

lemma returns_option: "returns P f \<Longrightarrow> (\<And>x. returns P (g x)) \<Longrightarrow> returns P (case r of None \<Rightarrow> f | Some x \<Rightarrow> g x)"
  by (simp split: option.split)

lemma mmioI: "reg_out s' = reg_out s @ ws \<Longrightarrow> fst ` set ws \<subseteq> registers i \<Longrightarrow> mmio i s s'"
  unfolding mmio_def by blast

interpretation mmio: memory_contract "installed c0" "mmio (info c0)" for c0
proof unfold_locales
  show "mmio i s u" if st: "mmio i s t" and tu: "mmio i t u" for i s t u
  proof -
    obtain ws where "reg_out t = reg_out s @ ws" "fst ` set ws \<subseteq> registers i" using st by (auto simp: mmio_def)
    moreover obtain vs where "reg_out u = reg_out t @ vs" "fst ` set vs \<subseteq> registers i" using tu by (auto simp: mmio_def)
    ultimately show ?thesis by (intro mmioI [of _ _ "ws @ vs"]) auto
  qed
qed (auto simp: installed_def intro: mmioI [of _ _ "[]"])

definition body_ok :: "ControllerState \<Rightarrow> (ControllerState \<Rightarrow> ('a \<times> ControllerState) xm) \<Rightarrow> bool" where
  "body_ok c0 b \<longleftrightarrow> (\<forall>c s a c' s'. fixed_part c = fixed_part c0 \<longrightarrow> installed c0 s \<longrightarrow> b c s = Inr ((a, c'), s') \<longrightarrow>
     installed c0 s' \<and> mmio (info c0) s s' \<and> fixed_part c' = fixed_part c0)"

lemma fixed_part_info: "fixed_part c = fixed_part c0 \<Longrightarrow> info c = info c0"
  by (simp add: fixed_part_def)

lemma body_okI:
  "(\<And>c. fixed_part c = fixed_part c0 \<Longrightarrow> info c = info c0 \<Longrightarrow> guards (installed c0) (mmio (info c0)) (b c)) \<Longrightarrow>
   (\<And>c. fixed_part c = fixed_part c0 \<Longrightarrow> returns (\<lambda>(a, c'). fixed_part c' = fixed_part c0) (b c)) \<Longrightarrow> body_ok c0 b"
  unfolding body_ok_def
proof (intro allI impI)
  fix c s a c' s'
  assume g: "\<And>c. fixed_part c = fixed_part c0 \<Longrightarrow> info c = info c0 \<Longrightarrow> guards (installed c0) (mmio (info c0)) (b c)"
    and q: "\<And>c. fixed_part c = fixed_part c0 \<Longrightarrow> returns (\<lambda>(a, c'). fixed_part c' = fixed_part c0) (b c)"
    and c: "fixed_part c = fixed_part c0" and i: "installed c0 s" and r: "b c s = Inr ((a, c'), s')"
  show "installed c0 s' \<and> mmio (info c0) s s' \<and> fixed_part c' = fixed_part c0"
    using guardsD [OF g [OF c fixed_part_info [OF c]] i r] q [OF c, unfolded returns_def, rule_format, OF r] by simp
qed

lemma installed_held [simp]: "installed c0 (s\<lparr>held := b\<rparr>) = installed c0 s"
  by (simp add: installed_def)

lemma mmio_held [simp]: "mmio i (s\<lparr>held := b\<rparr>) t = mmio i s t" "mmio i s (t\<lparr>held := b\<rparr>) = mmio i s t"
  "mmio i s (t\<lparr>ctl := x\<rparr>) = mmio i s t"
  by (simp_all add: mmio_def)

lemma with_state_InrD:
  assumes "with_state d b s = Inr (a, s')" "ctl s = Some c"
  shows "\<not> held s \<and> (\<exists>c' t. b c (s\<lparr>held := True\<rparr>) = Inr ((a, c'), t) \<and> s' = t\<lparr>ctl := Some c', held := False\<rparr>)"
proof (cases "b c (s\<lparr>held := True\<rparr>)")
  case (Inl e)
  then show ?thesis using assms by (simp add: with_state_def bindx_def lock_def split: if_splits)
next
  case (Inr r)
  then show ?thesis using assms
    by (cases r) (auto simp: with_state_def bindx_def lock_def unlock_def upd_def ret_def split: if_splits)
qed

lemma with_state_mmio: "body_ok c0 b \<Longrightarrow> guards (installed c0) (mmio (info c0)) (with_state d b)"
proof (rule guardsI)
  fix s a s' assume b: "body_ok c0 b" and i: "installed c0 s" and r: "with_state d b s = Inr (a, s')"
  obtain c where c: "ctl s = Some c" "fixed_part c = fixed_part c0" using i by (auto simp: installed_def)
  obtain c' t where t: "b c (s\<lparr>held := True\<rparr>) = Inr ((a, c'), t)" and s': "s' = t\<lparr>ctl := Some c', held := False\<rparr>"
    using with_state_InrD [OF r c(1)] by blast
  have "mmio (info c0) (s\<lparr>held := True\<rparr>) t" "fixed_part c' = fixed_part c0"
    using b [unfolded body_ok_def, rule_format, OF c(2) _ t] i by simp_all
  then show "installed c0 s' \<and> mmio (info c0) s s'" using s' by (simp add: installed_def)
qed

lemma write_reg_mmio: "a \<in> registers (info c0) \<Longrightarrow> guards (installed c0) (mmio (info c0)) (write_reg a v)"
  by (auto simp: guards_def write_reg_def upd_def installed_def intro: mmioI [where ws = "[(a, v, m)]" for m])

lemma doorbell_register: "doorbells i + of_nat (unat (k :: u8) * 4) \<in> registers i"
proof -
  have "unat k < 256" using unsigned_less [of k] by simp
  then show ?thesis unfolding registers_def by blast
qed

lemma ring_db_mmio: "guards (installed c0) (mmio (info c0)) (ring_db (info c0) (unat (k :: u8)) t)"
  unfolding ring_db_def by (rule write_reg_mmio, rule doorbell_register)

lemma port_register: "k < unat (max_ports i) \<Longrightarrow> port i k \<in> registers i"
  by (auto simp: registers_def)

text \<open>No port's register is one of the operational registers below offset 0x400: the command and status
  words, the ring and context pointers and the slot count.\<close>

lemma port_not_operational:
  assumes "k < unat (max_ports i)" "off < 0x400"
  shows "operational i + of_nat off \<noteq> port i k"
proof
  assume "operational i + of_nat off = port i k"
  then have "(of_nat off :: u64) = of_nat (0x400 + k * 0x10)" by (simp add: port_def)
  moreover have "unat (max_ports i) < 256" using unsigned_less [of "max_ports i"] by simp
  then have "k < 256" using assms(1) by simp
  ultimately have "unat (of_nat off :: u64) = unat (of_nat (0x400 + k * 0x10) :: u64)" "0x400 + k * 0x10 < 2 ^ 64" "off < 2 ^ 64"
    using assms(2) by simp_all
  then have "off = 0x400 + k * 0x10" by (simp only: unat_of_nat) simp
  then show False using assms(2) by simp
qed

lemma ring_doorbell_mmio: "guards (installed c0) (mmio (info c0)) (ring_doorbell k t)"
  unfolding ring_doorbell_def
  by (intro with_state_mmio body_okI) (auto intro!: mmio.memory_rules ring_db_mmio returns_then returns_ret)

lemma controller_info_mmio:
  "guards (installed c0) (mmio (info c0)) (g (Some (info c0))) \<Longrightarrow> guards (installed c0) (mmio (info c0)) (bindx controller_info g)"
proof (rule guardsI)
  fix s a s' assume g: "guards (installed c0) (mmio (info c0)) (g (Some (info c0)))" and i: "installed c0 s"
    and r: "bindx controller_info g s = Inr (a, s')"
  obtain c where c: "ctl s = Some c" "fixed_part c = fixed_part c0" using i by (auto simp: installed_def)
  have "g (Some (info c0)) (s\<lparr>ctl := Some c, held := False\<rparr>) = Inr (a, s')"
    using r c fixed_part_info [OF c(2)]
    by (simp add: controller_info_def with_state_def bindx_def lock_def unlock_def upd_def ret_def split: if_splits)
  from guardsD [OF g _ this] c show "installed c0 s' \<and> mmio (info c0) s s'" by (simp add: installed_def mmio_def)
qed

lemma put_command_ok: "guards (installed c0) (mmio (info c0)) (put_command p st ct c)"
  "returns (\<lambda>c'. fixed_part c' = fixed_part c) (put_command p st ct c)"
  unfolding put_command_def Let_def
  by (auto intro!: mmio.memory_rules returns_then returns_ret simp: fixed_part_def split: prod.split)

lemma put_intr_ok: "guards (installed c0) (mmio (info c0)) (put_intr t c)"
  "returns (\<lambda>c'. fixed_part c' = fixed_part c) (put_intr t c)"
  unfolding put_intr_def Let_def
  by (auto intro!: mmio.memory_rules returns_then returns_ret simp: fixed_part_def split: prod.split)

lemma enqueue_command_mmio: "guards (installed c0) (mmio (info c0)) enqueue_noop_command"
  "guards (installed c0) (mmio (info c0)) (enqueue_command_trb ty p st)"
  "guards (installed c0) (mmio (info c0)) (enqueue_command_trb_slot ty p st k)"
  unfolding enqueue_noop_command_def enqueue_command_trb_def enqueue_command_trb_slot_def ring_unusable_def Let_def
  by (intro with_state_mmio body_okI; auto intro!: mmio.memory_rules put_command_ok(1) returns_then returns_ret
      returns_bind [OF put_command_ok(2)])+

lemma enqueue_transfer_mmio: "guards (installed c0) (mmio (info c0)) (ep0_enqueue_trb t)"
  "guards (installed c0) (mmio (info c0)) ep0_cycle_bit" "guards (installed c0) (mmio (info c0)) intr_cycle_bit"
  "guards (installed c0) (mmio (info c0)) (intr_enqueue_trb t)"
  unfolding ep0_enqueue_trb_def ep0_cycle_bit_def intr_cycle_bit_def intr_enqueue_trb_def Let_def
  by (intro with_state_mmio body_okI; auto intro!: mmio.memory_rules put_intr_ok(1) returns_then returns_ret
      returns_bind [OF put_intr_ok(2)] simp: fixed_part_def split: prod.split)+

lemma decode_report_mmio: "guards (installed c0) (mmio (info c0)) (decode_report buf len)"
  by (auto simp: guards_def decode_report_def installed_def split: option.splits intro: mmioI [of _ _ "[]"])

lemma handle_event_mmio:
  assumes "fixed_part c = fixed_part c0"
  shows "guards (installed c0) (mmio (info c0)) (handle_event c ty t)"
    "returns (\<lambda>c'. fixed_part c' = fixed_part c) (handle_event c ty t)"
proof -
  show "guards (installed c0) (mmio (info c0)) (handle_event c ty t)"
    unfolding handle_event_def handle_completion_def handle_transfer_def handle_port_change_def repost_report_def Let_def portsc_def
    by (intro mmio.memory_rules decode_report_mmio put_intr_ok(1) ring_doorbell_mmio)
  have "returns (\<lambda>c'. fixed_part c' = fixed_part c) (repost_report d)" if "fixed_part d = fixed_part c" for d
    unfolding repost_report_def Let_def
    by (auto intro!: returns_bind [OF put_intr_ok(2)] returns_then returns_ret returns_option simp: that)
  then show "returns (\<lambda>c'. fixed_part c' = fixed_part c) (handle_event c ty t)"
    unfolding handle_event_def handle_completion_def handle_transfer_def handle_port_change_def Let_def
    by (auto intro!: returns_then returns_ret simp: fixed_part_def)
qed

lemma finish_event_mmio:
  assumes "ir = interrupter_register_set (info c0) 0"
  shows "guards (installed c0) (mmio (info c0)) (finish_event ir c)" "returns (\<lambda>c'. fixed_part c' = fixed_part c) (finish_event ir c)"
  using assms unfolding finish_event_def Let_def set_erdp_def write_reg64_def
  by (auto intro!: mmio.memory_rules write_reg_mmio returns_then returns_ret simp: registers_def fixed_part_def split: prod.split)

lemma poll_loop_mmio:
  "poll_loop ir c p s = Some r \<Longrightarrow> ir = interrupter_register_set (info c0) 0 \<longrightarrow> fixed_part c = fixed_part c0 \<longrightarrow>
    installed c0 s \<longrightarrow> (\<forall>q c' s'. r = Inr ((q, c'), s') \<longrightarrow>
      installed c0 s' \<and> mmio (info c0) s s' \<and> fixed_part c' = fixed_part c0)"
proof (induction ir c p s r rule: poll_loop.raw_induct [rotated, consumes 1, case_names step])
  case (step loop ir c p s0 r)
  let ?s = "dma s0" and ?i = "event_ring_dequeue c"
  let ?t = "read_trb (ram ?s) (event_ring_phys c) ?i"
  let ?b = "bindx (handle_event c (ucast (drop_bit 10 (control ?t) AND 0x3F)) ?t) (finish_event ir)"
  show ?case
  proof (intro impI allI)
    fix q c' s'
    assume ir: "ir = interrupter_register_set (info c0) 0" and f: "fixed_part c = fixed_part c0" and i: "installed c0 s0"
      and r: "r = Inr ((q, c'), s')"
    have d: "installed c0 ?s" "mmio (info c0) s0 ?s"
      using i by (auto simp: dma_def installed_def intro: mmioI [of _ _ "[]"])
    have nx: "?i < event_ring_len c" using step(2) r by (auto simp: Let_def split: if_splits)
    show "installed c0 s' \<and> mmio (info c0) s0 s' \<and> fixed_part c' = fixed_part c0"
    proof (cases "(control ?t AND 1 \<noteq> 0) = event_ring_cycle c")
      case False
      then have "c' = c" "s' = ?s" using step(2) r nx by (auto simp: Let_def)
      then show ?thesis using d f by simp
    next
      case True
      obtain c1 s1 where b: "?b ?s = Inr (c1, s1)" and l: "loop ir c1 True s1 = Some r"
        using step(2) r nx True by (auto simp: Let_def split: sum.splits)
      have "guards (installed c0) (mmio (info c0)) ?b"
        by (intro mmio.bind_ok handle_event_mmio(1) [OF f] finish_event_mmio(1) [OF ir])
      from guardsD [OF this d(1) b] have s1: "installed c0 s1" "mmio (info c0) ?s s1" by simp_all
      have "returns (\<lambda>c'. fixed_part c' = fixed_part c) ?b"
        by (rule returns_bind [OF handle_event_mmio(2) [OF f]]) (use finish_event_mmio(2) [OF ir] in \<open>simp add: returns_def\<close>)
      then have "fixed_part c1 = fixed_part c0" using b f by (auto simp: returns_def)
      with step(1) [OF l] ir s1 r have "installed c0 s' \<and> mmio (info c0) s1 s' \<and> fixed_part c' = fixed_part c0" by simp
      then show ?thesis using s1 d i mmio.R_trans by blast
    qed
  qed
qed

lemma poll_events_mmio: "guards (installed c0) (mmio (info c0)) poll_events"
proof -
  let ?b = "\<lambda>c s. case poll_loop (interrupter_register_set (info c) 0) c False s of None \<Rightarrow> Inl Diverged | Some r \<Rightarrow> r"
  have "installed c0 s' \<and> mmio (info c0) s s' \<and> fixed_part c' = fixed_part c0"
    if "fixed_part c = fixed_part c0" "installed c0 s" "?b c s = Inr ((q, c'), s')" for c s q c' s'
  proof -
    have "poll_loop (interrupter_register_set (info c0) 0) c False s = Some (Inr ((q, c'), s'))"
      using that(3) fixed_part_info [OF that(1)] by (auto split: option.splits)
    from poll_loop_mmio [OF this] that(1,2) show ?thesis by simp
  qed
  then have "body_ok c0 (\<lambda>c. if info_base (info c) = 0 then ret (False, c) else ?b c)"
    unfolding body_ok_def
  proof (intro allI impI)
    fix c s a c' s'
    assume loop: "\<And>c s q c' s'. fixed_part c = fixed_part c0 \<Longrightarrow> installed c0 s \<Longrightarrow> ?b c s = Inr ((q, c'), s') \<Longrightarrow>
        installed c0 s' \<and> mmio (info c0) s s' \<and> fixed_part c' = fixed_part c0"
      and c: "fixed_part c = fixed_part c0" and i: "installed c0 s"
      and r: "(if info_base (info c) = 0 then ret (False, c) else ?b c) s = Inr ((a, c'), s')"
    show "installed c0 s' \<and> mmio (info c0) s s' \<and> fixed_part c' = fixed_part c0"
    proof (cases "info_base (info c) = 0")
      case True
      then show ?thesis using r c i mmio.R_refl [OF i] by (simp add: ret_def)
    next
      case False
      then show ?thesis using loop [OF c i] r by (simp only: if_False)
    qed
  qed
  then show ?thesis unfolding poll_events_def by (rule with_state_mmio)
qed

lemma completion_mmio: "guards (installed c0) (mmio (info c0)) (wait_for_command_completion n)"
proof (rule mmio.completion_ok [OF poll_events_mmio])
  show "guards (installed c0) (mmio (info c0)) take_completion"
    unfolding take_completion_def
    by (intro with_state_mmio body_okI) (auto intro!: mmio.memory_rules returns_option returns_ret simp: fixed_part_def)
qed

lemma await_mmio:
  assumes "\<And>code. body_ok c0 (fin code)"
  shows "guards (installed c0) (mmio (info c0)) (await_transfer n fin d)"
proof (induction n)
  case (Suc n)
  have "body_ok c0 (\<lambda>c. case last_transfer_code c of None \<Rightarrow> ret (None, c)
      | Some code \<Rightarrow> bindx (fin code (c\<lparr>last_transfer_code := None\<rparr>)) (\<lambda>(a, c). ret (Some a, c)))"
    unfolding body_ok_def
  proof (intro allI impI)
    fix c :: ControllerState and s a c' s'
    let ?d = "c\<lparr>last_transfer_code := None\<rparr>"
    assume c: "fixed_part c = fixed_part c0" and i: "installed c0 s"
      and r: "(case last_transfer_code c of None \<Rightarrow> ret (None, c)
        | Some code \<Rightarrow> bindx (fin code ?d) (\<lambda>(a, c). ret (Some a, c))) s = Inr ((a, c'), s')"
    show "installed c0 s' \<and> mmio (info c0) s s' \<and> fixed_part c' = fixed_part c0"
    proof (cases "last_transfer_code c")
      case None
      then show ?thesis using r c i mmio.R_refl [OF i] by (simp add: ret_def)
    next
      case (Some code)
      then obtain b where b: "fin code ?d s = Inr ((b, c'), s')"
        using r by (auto simp: bindx_Inr ret_def split: prod.splits)
      have "fixed_part ?d = fixed_part c0" using c by (simp add: fixed_part_def)
      from assms [of code, unfolded body_ok_def, rule_format, OF this i b] show ?thesis .
    qed
  qed
  then show ?case using Suc by (auto intro!: mmio.memory_rules poll_events_mmio with_state_mmio)
qed (simp add: mmio.ret_ok)

lemma find_port_mmio: "guards (installed c0) (mmio (info c0)) find_first_connected_port"
  unfolding find_first_connected_port_def
  by (intro controller_info_mmio) (auto intro!: mmio.memory_rules)

lemmas mmio_intros = mmio.memory_rules ring_doorbell_mmio enqueue_command_mmio enqueue_transfer_mmio completion_mmio find_port_mmio
  poll_events_mmio

lemma scan_ports_bound: "scan_ports i ps s = Inr (Some k, s') \<Longrightarrow> k \<in> set ps"
  by (induction ps arbitrary: s) (auto simp: bindx_Inr ret_def split: if_splits)

lemma find_port_bound:
  assumes "installed c0 s" "find_first_connected_port s = Inr (Some k, s')"
  shows "k < unat (max_ports (info c0))"
proof -
  obtain c where c: "ctl s = Some c" "fixed_part c = fixed_part c0" using assms(1) by (auto simp: installed_def)
  have "info c = info c0" by (rule fixed_part_info [OF c(2)])
  then have "\<exists>s1. scan_ports (info c0) [0..<unat (max_ports (info c0))] s1 = Inr (Some k, s')"
    using assms(2) c(1)
    by (auto simp: find_first_connected_port_def controller_info_def with_state_def bindx_Inr lock_def unlock_def upd_def ret_def
        split: if_splits)
  then show ?thesis using scan_ports_bound by fastforce
qed

lemma reset_port_mmio: "k < unat (max_ports (info c0)) \<Longrightarrow> guards (installed c0) (mmio (info c0)) (reset_port k)"
  unfolding reset_port_def Let_def portsc_def write_portsc_def
  by (intro controller_info_mmio) (auto intro!: mmio_intros write_reg_mmio port_register)

lemma ports_mmio: "guards (installed c0) (mmio (info c0)) report_ports" "guards (installed c0) (mmio (info c0)) ensure_first_port_enabled"
proof -
  show "guards (installed c0) (mmio (info c0)) report_ports"
    unfolding report_ports_def portsc_def by (intro controller_info_mmio) (auto intro!: mmio_intros)
  have "guards (installed c0) (mmio (info c0)) (bindx controller_info (\<lambda>r. bindx (case r of None \<Rightarrow> ret False
        | Some i \<Rightarrow> if info_base i = 0 then ret False else bindx (portsc (port i idx)) (\<lambda>sc. ret (sc AND 0x2 \<noteq> 0)))
      (\<lambda>enabled. if enabled then ret True else reset_port idx)))" if "idx < unat (max_ports (info c0))" for idx
    using that unfolding portsc_def by (intro controller_info_mmio) (auto intro!: mmio_intros reset_port_mmio)
  then show "guards (installed c0) (mmio (info c0)) ensure_first_port_enabled"
    unfolding ensure_first_port_enabled_def
    using find_port_bound [of c0]
    by (intro mmio.bind_value_ok [where P = "\<lambda>r. \<forall>k. r = Some k \<longrightarrow> k < unat (max_ports (info c0))", OF find_port_mmio])
      (auto intro: mmio.ret_ok split: option.split)
qed

lemma slot_mmio: "guards (installed c0) (mmio (info c0)) enable_slot"
  unfolding enable_slot_def by (intro mmio_intros)

lemma port_speed_mmio: "guards (installed c0) (mmio (info c0)) port_speed"
proof -
  have "guards (installed c0) (mmio (info c0)) (bindx controller_info (\<lambda>r. case r of None \<Rightarrow> ret 0
     | Some i \<Rightarrow> if info_base i = 0 then ret 0 else bindx (portsc (port i idx)) (\<lambda>sc. ret (drop_bit 10 sc AND 0xF))))" for idx
    unfolding portsc_def by (intro controller_info_mmio) (auto intro!: mmio_intros)
  then show ?thesis unfolding port_speed_def by (intro mmio.bind_ok [OF find_port_mmio] mmio.option_ok mmio.ret_ok)
qed

lemma address_mmio: "guards (installed c0) (mmio (info c0)) (address_device k)"
proof -
  have "guards (installed c0) (mmio (info c0)) (with_state None (\<lambda>c. ret (Some (info c, dcbaa_phys c), c)))"
    by (intro with_state_mmio body_okI mmio.memory_rules) (auto intro: returns_ret)
  moreover have "guards (installed c0) (mmio (info c0)) (with_state True (\<lambda>c. ret (True, c\<lparr>active_slot := Some k, ep0_ring_phys := ep0,
                           ep0_ring_len := 64, ep0_enqueue := 0, ep0_cycle := True\<rparr>)))" for ep0
    by (intro with_state_mmio body_okI mmio.memory_rules) (auto intro: returns_ret simp: fixed_part_def)
  ultimately show ?thesis
    unfolding address_device_def fill_address_context_def install_context_def make_ring_def Let_def zero_phys_def write_u32_def
    by (intro mmio_intros port_speed_mmio)
qed

lemma control_mmio: "guards (installed c0) (mmio (info c0)) (control_in k rt rq v i l d)"
  "guards (installed c0) (mmio (info c0)) (control_no_data k rt rq v i)"
  unfolding control_in_def control_no_data_def ep0_stage_def ring_ep0_def Let_def
  by (intro mmio_intros await_mmio body_okI, auto intro!: returns_then returns_ret simp: fixed_part_def)+

lemma descriptor_mmio: "guards (installed c0) (mmio (info c0)) (get_device_descriptor k)"
  "guards (installed c0) (mmio (info c0)) (get_configuration_descriptor_header k)"
  "guards (installed c0) (mmio (info c0)) (get_configuration_descriptor k n)"
  unfolding get_device_descriptor_def get_configuration_descriptor_header_def get_configuration_descriptor_def zero_phys_def
  by (intro mmio_intros control_mmio)+

lemma configure_mmio: "guards (installed c0) (mmio (info c0)) (configure_interrupt_in_endpoint k a mp iv)"
proof -
  have "guards (installed c0) (mmio (info c0)) (with_state True (\<lambda>c. ret (True, c\<lparr>intr_ep_addr := a, intr_ep_id := e,
        intr_ring_phys := ring, intr_ring_len := 128, intr_enqueue := 0, intr_cycle := True\<rparr>)))" for e ring
    by (intro with_state_mmio body_okI mmio.memory_rules) (auto intro: returns_ret simp: fixed_part_def)
  then show ?thesis
    unfolding configure_interrupt_in_endpoint_def fill_endpoint_context_def make_ring_def Let_def zero_phys_def write_u32_def
    by (intro controller_info_mmio) (auto intro!: mmio_intros)
qed

lemma request_mmio: "guards (installed c0) (mmio (info c0)) (request_hid_report_once k a mp)"
  unfolding request_hid_report_once_def zero_phys_def Let_def
  by (intro mmio_intros await_mmio body_okI, auto intro!: returns_then returns_ret simp: fixed_part_def)

lemma hid_buffer_mmio: "guards (installed c0) (mmio (info c0)) (hid_buffer mp c)"
  "returns (\<lambda>r. \<forall>c'. r = Some c' \<longrightarrow> fixed_part c' = fixed_part c) (hid_buffer mp c)"
proof -
  show "guards (installed c0) (mmio (info c0)) (hid_buffer mp c)"
    unfolding hid_buffer_def zero_phys_def by (intro mmio.memory_rules)
  show "returns (\<lambda>r. \<forall>c'. r = Some c' \<longrightarrow> fixed_part c' = fixed_part c) (hid_buffer mp c)"
    by (auto simp: returns_def hid_buffer_def alloc_or_def alloc_def zero_phys_def in_ram_def bindx_Inr thenx_def upd_def ret_def fixed_part_def
        split: if_splits option.splits prod.splits)
qed

lemma polling_mmio: "guards (installed c0) (mmio (info c0)) (start_hid_polling k a mp)"
  unfolding start_hid_polling_def
  by (intro with_state_mmio body_okI)
    (auto intro!: mmio.memory_rules hid_buffer_mmio(1) put_intr_ok(1) ring_doorbell_mmio returns_ret returns_then
      returns_bind [OF hid_buffer_mmio(2)] returns_bind [OF put_intr_ok(2)] split: option.split)

section \<open>Properties\<close>

text \<open>No operation of the driver returns with its spin lock in another state than it found it in:
  whatever the controller's registers and memory hold, an operation that returns has released
  what it took.\<close>
theorem driver_releases_lock:
  "guards (\<lambda>_. True) same_lock (init_controller i) \<and> guards (\<lambda>_. True) same_lock poll_events \<and>
   guards (\<lambda>_. True) same_lock enable_slot \<and> guards (\<lambda>_. True) same_lock (address_device slot) \<and>
   guards (\<lambda>_. True) same_lock (control_in slot rt rq val idx len buf) \<and>
   guards (\<lambda>_. True) same_lock (get_device_descriptor slot) \<and>
   guards (\<lambda>_. True) same_lock (get_configuration_descriptor_header slot) \<and>
   guards (\<lambda>_. True) same_lock (get_configuration_descriptor slot len) \<and>
   guards (\<lambda>_. True) same_lock (set_configuration slot cfg) \<and>
   guards (\<lambda>_. True) same_lock (configure_interrupt_in_endpoint slot ep mp iv) \<and>
   guards (\<lambda>_. True) same_lock (request_hid_report_once slot ep mp) \<and>
   guards (\<lambda>_. True) same_lock (start_hid_polling slot ep mp) \<and>
   guards (\<lambda>_. True) same_lock report_ports \<and> guards (\<lambda>_. True) same_lock ensure_first_port_enabled"
  by (simp add: init_locking address_locking control_locking descriptor_locking configure_locking request_locking ports_locking
      slot_locking set_configuration_def poll_events_def start_hid_polling_def with_state_locking)

end
