(* ===== verification/Xhci_Events.thy ===== *)
theory Xhci_Events
  imports Xhci_Contracts
begin

text \<open>
  Waiting and the event loop of the USB host controller driver: bounded waiting on a register, and
  what \<^verbatim>\<open>poll_events\<close> takes from the event ring, against the list of pending events as
  the reference.
\<close>

section \<open>Bounded waiting\<close>

lemma wait_loop_exact:
  "wait_loop n (bindx (read_reg a) (\<lambda>v. ret (P v))) s =
     (let seen = map (\<lambda>k. reg_tape s (reg_pos s + k) a) [0..<n]; k = length (takeWhile (\<lambda>v. \<not> P v) seen)
      in Inr (k < n, s\<lparr>reg_pos := reg_pos s + min (Suc k) n\<rparr>))"
proof (induction n arbitrary: s)
  case 0
  then show ?case by (simp add: ret_def)
next
  case (Suc n)
  have "map (\<lambda>k. reg_tape s (reg_pos s + k) a) [0..<Suc n] =
      reg_tape s (reg_pos s) a # map (\<lambda>k. reg_tape s (Suc (reg_pos s) + k) a) [0..<n]"
    by (simp add: upt_conv_Cons map_Suc_upt [symmetric] del: upt_Suc)
  then show ?case
    using Suc [of "s\<lparr>reg_pos := Suc (reg_pos s)\<rparr>"] by (simp add: bindx_def read_reg_def ret_def Let_def)
qed

section \<open>The event loop\<close>

text \<open>The part of an event that the state records.\<close>

definition absorb :: "Trb \<Rightarrow> ControllerState \<Rightarrow> ControllerState" where
  "absorb t c =
     (let ty = ucast (drop_bit 10 (control t) AND 0x3F) :: u8; code = ucast (drop_bit 24 (status t) AND 0xFF)
      in if ty = TRB_TYPE_COMMAND_COMPLETION
         then c\<lparr>last_completion_code := Some code, last_completed_slot := Some (ucast (parameter t AND 0xFF))\<rparr>
         else if ty = TRB_TYPE_TRANSFER_EVENT
         then c\<lparr>last_transfer_code := Some code, last_transfer_len := Some (status t AND 0x00FFFFFF),
                last_transfer_ep := Some (ucast (drop_bit 16 (control t) AND 0x1F)), last_transfer_slot := active_slot c\<rparr>
         else c)"

definition event_at :: "mem \<Rightarrow> ControllerState \<Rightarrow> nat \<Rightarrow> Trb" where
  "event_at m c k = read_trb m (event_ring_phys c) ((event_ring_dequeue c + k) mod event_ring_len c)"

definition cycle_at :: "ControllerState \<Rightarrow> nat \<Rightarrow> bool" where
  "cycle_at c k = (if event_ring_dequeue c + k < event_ring_len c then event_ring_cycle c else \<not> event_ring_cycle c)"

definition pending :: "mem \<Rightarrow> ControllerState \<Rightarrow> Trb list" where
  "pending m c = map (event_at m c)
     (takeWhile (\<lambda>k. (control (event_at m c k) AND 1 \<noteq> 0) = cycle_at c k) [0..<event_ring_len c])"

definition after_events :: "ControllerState \<Rightarrow> Trb list \<Rightarrow> ControllerState" where
  "after_events c ts =
     (fold absorb ts c)\<lparr>event_ring_dequeue := (event_ring_dequeue c + length ts) mod event_ring_len c,
        event_ring_cycle := cycle_at c (length ts)\<rparr>"

definition same_memory :: "xsys \<Rightarrow> xsys \<Rightarrow> bool" where
  "same_memory s s' \<longleftrightarrow> ram s' = ram s \<and> dma_tape s' = dma_tape s \<and> dma_pos s' = dma_pos s \<and> xpmm s' = xpmm s"

lemma absorb_fields [simp]: "event_ring_dequeue (absorb t c) = event_ring_dequeue c" "event_ring_cycle (absorb t c) = event_ring_cycle c"
  "event_ring_len (absorb t c) = event_ring_len c" "event_ring_phys (absorb t c) = event_ring_phys c"
  "hid_buf_phys (absorb t c) = hid_buf_phys c"
  by (simp_all add: absorb_def Let_def)

lemma handle_event_quiet:
  assumes "hid_buf_phys c = 0"
  shows "\<exists>s'. handle_event c (ucast (drop_bit 10 (control t) AND 0x3F)) t s = Inr (absorb t c, s') \<and> same_memory s s'"
  using assms
  by (auto simp: handle_event_def handle_completion_def handle_transfer_def handle_port_change_def absorb_def Let_def
      log_fmt_def portsc_def read_reg_def ret_def thenx_def bindx_def upd_def same_memory_def
      TRB_TYPE_COMMAND_COMPLETION_def TRB_TYPE_TRANSFER_EVENT_def TRB_TYPE_PORT_STATUS_CHANGE_def)

lemma absorb_move: "absorb t (c\<lparr>event_ring_dequeue := d, event_ring_cycle := b\<rparr>) =
    (absorb t c)\<lparr>event_ring_dequeue := d, event_ring_cycle := b\<rparr>"
  by (simp add: absorb_def Let_def)

lemma fold_absorb_fields [simp]:
  "event_ring_len (fold absorb ts c) = event_ring_len c" "event_ring_phys (fold absorb ts c) = event_ring_phys c"
  "hid_buf_phys (fold absorb ts c) = hid_buf_phys c"
  by (induction ts arbitrary: c) simp_all

lemma after_events_fields [simp]:
  "event_ring_len (after_events c ts) = event_ring_len c" "event_ring_phys (after_events c ts) = event_ring_phys c"
  "hid_buf_phys (after_events c ts) = hid_buf_phys c"
  "event_ring_dequeue (after_events c ts) = (event_ring_dequeue c + length ts) mod event_ring_len c"
  "event_ring_cycle (after_events c ts) = cycle_at c (length ts)"
  by (simp_all add: after_events_def)

lemma advance_cycle_at:
  assumes "event_ring_dequeue c < event_ring_len c" "k < event_ring_len c"
  shows "advance ((event_ring_dequeue c + k) mod event_ring_len c) (cycle_at c k) (event_ring_len c) =
    ((event_ring_dequeue c + Suc k) mod event_ring_len c, cycle_at c (Suc k))"
proof -
  let ?d = "event_ring_dequeue c" and ?n = "event_ring_len c"
  have m: "((?d + k) mod ?n + 1) mod ?n = (?d + Suc k) mod ?n" by (simp add: mod_simps)
  have "(?d + Suc k) mod ?n = 0 \<longleftrightarrow> ?d + Suc k = ?n"
  proof
    assume "(?d + Suc k) mod ?n = 0"
    then obtain q where q: "?d + Suc k = ?n * q" by auto
    have "?n * q < ?n * 2" using q assms by linarith
    then have "q < 2" by simp
    moreover have "q \<noteq> 0" using q by (cases q) simp_all
    ultimately have "q = 1" by linarith
    then show "?d + Suc k = ?n" using q by simp
  qed (use assms in simp)
  then have "cycle_at c (Suc k) = (if (?d + Suc k) mod ?n = 0 then \<not> cycle_at c k else cycle_at c k)"
    using assms by (auto simp: cycle_at_def)
  then show ?thesis by (simp only: advance_def m Let_def)
qed

lemma finish_event_step:
  assumes "event_ring_dequeue c < event_ring_len c" "length ts < event_ring_len c"
  shows "\<exists>s'. finish_event ir (absorb t (after_events c ts)) s = Inr (after_events c (ts @ [t]), s') \<and> same_memory s s'"
proof -
  have "(absorb t (after_events c ts))\<lparr>event_ring_dequeue := (event_ring_dequeue c + Suc (length ts)) mod event_ring_len c,
      event_ring_cycle := cycle_at c (Suc (length ts))\<rparr> = after_events c (ts @ [t])"
    by (simp add: after_events_def absorb_move)
  then show ?thesis
    using advance_cycle_at [OF assms]
    by (simp add: finish_event_def Let_def set_erdp_def write_reg64_def write_reg_def thenx_def bindx_def upd_def ret_def same_memory_def)
qed

lemma poll_loop_step:
  assumes "event_ring_dequeue c < event_ring_len c" "hid_buf_phys c = 0" "length ts < event_ring_len c"
    and "m = dma_tape s (dma_pos s) (ram s)" "t = event_at m c (length ts)"
    and "(control t AND 1 \<noteq> 0) = cycle_at c (length ts)"
  shows "\<exists>s'. poll_loop ir (after_events c ts) p s = poll_loop ir (after_events c (ts @ [t])) True s' \<and>
    ram s' = m \<and> dma_tape s' = dma_tape s \<and> dma_pos s' = Suc (dma_pos s) \<and> xpmm s' = xpmm s"
proof -
  let ?c = "after_events c ts"
  have t: "read_trb m (event_ring_phys ?c) (event_ring_dequeue ?c) = t" using assms(5) by (simp add: event_at_def)
  obtain s1 where s1: "handle_event ?c (ucast (drop_bit 10 (control t) AND 0x3F)) t (dma s) = Inr (absorb t ?c, s1)" "same_memory (dma s) s1"
    using handle_event_quiet [of ?c t "dma s"] assms(2) by auto
  obtain s2 where s2: "finish_event ir (absorb t ?c) s1 = Inr (after_events c (ts @ [t]), s2)" "same_memory s1 s2"
    using finish_event_step [OF assms(1,3)] by blast
  have d: "ram (dma s) = m" "dma_pos (dma s) = Suc (dma_pos s)" "dma_tape (dma s) = dma_tape s" "xpmm (dma s) = xpmm s"
    using assms(4) by (simp_all add: dma_def)
  have b: "bindx (handle_event ?c (ucast (drop_bit 10 (control t) AND 0x3F)) t) (finish_event ir) (dma s) = Inr (after_events c (ts @ [t]), s2)"
    using s1(1) s2(1) by (simp add: bindx_def)
  have "event_ring_dequeue ?c < event_ring_len ?c" using assms(1) by simp
  then have "poll_loop ir ?c p s = poll_loop ir (after_events c (ts @ [t])) True s2"
    using poll_loop.simps [of ir ?c p s, unfolded Let_def d(1) t] b assms(6) by simp
  then show ?thesis using s1(2) s2(2) d by (intro exI [of _ s2]) (simp add: same_memory_def)
qed

lemma poll_loop_stop:
  assumes "event_ring_dequeue c < event_ring_len c" "m = dma_tape s (dma_pos s) (ram s)"
    and "(control (event_at m c (length ts)) AND 1 \<noteq> 0) \<noteq> cycle_at c (length ts)"
  shows "poll_loop ir (after_events c ts) p s = Some (Inr ((p, after_events c ts), dma s))"
proof -
  have "event_ring_dequeue (after_events c ts) < event_ring_len (after_events c ts)" using assms(1) by simp
  moreover have "read_trb (ram (dma s)) (event_ring_phys c) ((event_ring_dequeue c + length ts) mod event_ring_len c) = event_at m c (length ts)"
    using assms(2) by (simp add: event_at_def dma_def)
  ultimately show ?thesis
    using poll_loop.simps [of ir "after_events c ts" p s] assms(3) by (simp add: Let_def)
qed

lemma pending_nth:
  "k < length (pending m c) \<Longrightarrow> pending m c ! k = event_at m c k \<and> (control (event_at m c k) AND 1 \<noteq> 0) = cycle_at c k \<and>
    k < event_ring_len c"
proof -
  let ?P = "\<lambda>k. (control (event_at m c k) AND 1 \<noteq> 0) = cycle_at c k"
  assume k: "k < length (pending m c)"
  have le: "length (takeWhile ?P [0..<event_ring_len c]) \<le> event_ring_len c"
    using length_takeWhile_le [of ?P "[0..<event_ring_len c]"] by simp
  have kk: "k < length (takeWhile ?P [0..<event_ring_len c])" using k by (simp add: pending_def)
  then have e: "takeWhile ?P [0..<event_ring_len c] ! k = k" using le takeWhile_nth [OF kk] by simp
  have "?P (takeWhile ?P [0..<event_ring_len c] ! k)" using set_takeWhileD [OF nth_mem [OF kk]] by blast
  then have P: "?P k" by (simp only: e)
  have "pending m c ! k = event_at m c k" unfolding pending_def using kk e by (simp only: nth_map)
  then show ?thesis using P kk le by linarith
qed

lemma pending_end:
  assumes "event_ring_dequeue c < event_ring_len c"
  shows "(control (event_at m c (length (pending m c))) AND 1 \<noteq> 0) \<noteq> cycle_at c (length (pending m c))"
proof -
  let ?P = "\<lambda>k. (control (event_at m c k) AND 1 \<noteq> 0) = cycle_at c k" and ?n = "event_ring_len c"
  let ?K = "length (takeWhile ?P [0..<?n])"
  have K: "length (pending m c) = ?K" by (simp add: pending_def)
  show ?thesis
  proof (cases "?K = ?n")
    case False
    then have "?K < ?n" using length_takeWhile_le [of ?P "[0..<?n]"] by simp
    then show ?thesis using nth_length_takeWhile [of ?P "[0..<?n]"] K by simp
  next
    case True
    then have "0 < length (pending m c)" using assms K by simp
    from pending_nth [OF this] have "(control (event_at m c 0) AND 1 \<noteq> 0) = event_ring_cycle c"
      using assms by (simp add: cycle_at_def)
    moreover have "event_at m c ?n = event_at m c 0" "cycle_at c ?n = (\<not> event_ring_cycle c)"
      by (simp_all add: event_at_def cycle_at_def)
    ultimately show ?thesis using K True by simp
  qed
qed

lemma poll_loop_run:
  assumes "event_ring_dequeue c < event_ring_len c" "hid_buf_phys c = 0"
    and "m = dma_tape s (dma_pos s) (ram s)" "\<forall>n > dma_pos s. dma_tape s n m = m" "j \<le> length (pending m c)"
  shows "\<exists>s'. poll_loop ir (after_events c (take j (pending m c))) p s =
      Some (Inr ((p \<or> j < length (pending m c), after_events c (pending m c)), s')) \<and>
    ram s' = m \<and> dma_tape s' = dma_tape s \<and> dma_pos s' = dma_pos s + Suc (length (pending m c) - j) \<and> xpmm s' = xpmm s"
  using assms(3-5)
proof (induction "length (pending m c) - j" arbitrary: j p s)
  case 0
  then have "j = length (pending m c)" by simp
  then show ?case
    using poll_loop_stop [OF assms(1) 0(2) pending_end [OF assms(1), of m], of ir p] 0(2)
    by (simp add: dma_def)
next
  case (Suc k)
  let ?ev = "pending m c"
  have j: "j < length ?ev" using Suc(2) by simp
  note at = pending_nth [OF j]
  have len: "length (take j ?ev) = j" using j by simp
  have nxt: "take j ?ev @ [event_at m c j] = take (Suc j) ?ev" using at j by (simp add: take_Suc_conv_app_nth)
  obtain s1 where s1: "poll_loop ir (after_events c (take j ?ev)) p s = poll_loop ir (after_events c (take (Suc j) ?ev)) True s1"
    "ram s1 = m" "dma_tape s1 = dma_tape s" "dma_pos s1 = Suc (dma_pos s)" "xpmm s1 = xpmm s"
    using poll_loop_step [OF assms(1,2) _ Suc(3), of "take j ?ev" "event_at m c j" ir p] at len nxt by auto
  have "\<exists>s'. poll_loop ir (after_events c (take (Suc j) ?ev)) True s1 =
      Some (Inr ((True \<or> Suc j < length ?ev, after_events c ?ev), s')) \<and>
    ram s' = m \<and> dma_tape s' = dma_tape s1 \<and> dma_pos s' = dma_pos s1 + Suc (length ?ev - Suc j) \<and> xpmm s' = xpmm s1"
    using Suc(2) j Suc(4) s1(2-4) by (intro Suc(1)) auto
  then show ?case using s1 j by auto
qed

lemma after_events_none: "event_ring_dequeue c < event_ring_len c \<Longrightarrow> after_events c [] = c"
  by (simp add: after_events_def cycle_at_def)

lemma poll_events_run:
  assumes "ctl s = Some c" "\<not> held s" "info_base (info c) \<noteq> 0" "event_ring_dequeue c < event_ring_len c" "hid_buf_phys c = 0"
    and "m = dma_tape s (dma_pos s) (ram s)" "\<forall>n > dma_pos s. dma_tape s n m = m"
  shows "\<exists>s'. poll_events s = Inr (pending m c \<noteq> [], s') \<and> ctl s' = Some (after_events c (pending m c)) \<and> \<not> held s' \<and>
    ram s' = m \<and> dma_tape s' = dma_tape s \<and> dma_pos s' = dma_pos s + Suc (length (pending m c)) \<and> xpmm s' = xpmm s"
proof -
  let ?s = "s\<lparr>held := True\<rparr>"
  obtain s1 where s1: "poll_loop (interrupter_register_set (info c) 0) c False ?s =
      Some (Inr ((pending m c \<noteq> [], after_events c (pending m c)), s1))"
    "ram s1 = m" "dma_tape s1 = dma_tape s" "dma_pos s1 = dma_pos s + Suc (length (pending m c))" "xpmm s1 = xpmm s"
    using poll_loop_run [OF assms(4,5), of m ?s 0 "interrupter_register_set (info c) 0" False] assms(6,7)
    by (auto simp: after_events_none [OF assms(4)])
  then show ?thesis
    using assms(1-3) by (simp add: poll_events_def with_state_def bindx_def lock_def unlock_def upd_def ret_def)
qed


lemma wait_for_now: "p s = Inr (True, s') \<Longrightarrow> wait_for p s = Inr (True, s')"
  using wait_loop.simps(2) [of 999999 p] by (simp add: wait_for_def bindx_def ret_def)

lemma silent_completion:
  assumes "info_base (info c) \<noteq> 0" "event_ring_dequeue c < event_ring_len c" "hid_buf_phys c = 0" "last_completion_code c = None"
    and "pending m c = []"
    and "ctl s = Some c" "\<not> held s" "m = dma_tape s (dma_pos s) (ram s)" "\<forall>n > dma_pos s. dma_tape s n m = m"
  shows "\<exists>s'. wait_for_command_completion k s = Inr (None, s') \<and> ctl s' = Some c \<and> \<not> held s'"
proof -
  have "\<exists>s'. completion_loop k s = Inr (None, s') \<and> ctl s' = Some c \<and> \<not> held s'"
    using assms(6-9)
  proof (induction k arbitrary: s)
    case (Suc k)
    obtain s1 where s1: "poll_events s = Inr (False, s1)" "ctl s1 = Some c" "\<not> held s1" "ram s1 = m"
      "dma_tape s1 = dma_tape s" "dma_pos s1 = Suc (dma_pos s)"
      using poll_events_run [OF Suc.prems(1,2) assms(1-3) Suc.prems(3,4)] assms(5) after_events_none [OF assms(2)] by auto
    have t: "take_completion s1 = Inr (None, s1\<lparr>ctl := Some c, held := False\<rparr>)"
      using s1(2,3) assms(4)
      by (simp add: take_completion_def with_state_def bindx_def lock_def unlock_def upd_def ret_def)
    have "\<exists>s'. completion_loop k (s1\<lparr>ctl := Some c, held := False\<rparr>) = Inr (None, s') \<and> ctl s' = Some c \<and> \<not> held s'"
      using s1(4-6) Suc.prems(4) by (intro Suc.IH) auto
    then show ?case using s1(1) t by (simp add: thenx_def bindx_def)
  qed (simp add: ret_def)
  then show ?thesis using assms(6) by (simp add: wait_for_command_completion_def)
qed

definition example_info :: XhciInfo where
  "example_info = \<lparr>info_base = 0xFEB00000, cap_length = 0x20, hci_version = 0x100, hcsparams1 = 0x04000020, hcsparams2 = 0,
     hcsparams3 = 0, hccparams1 = 0, dboff = 0x2000, rtsoff = 0x1000\<rparr>"

definition example_sys :: "ControllerState option \<Rightarrow> xsys" where
  "example_sys c = \<lparr>ram = (\<lambda>_. 0), reg_tape = (\<lambda>n a. if a = 0xFEB00024 \<and> n < 5 then 1 else 0), reg_pos = 0, reg_out = [],
     dma_tape = (\<lambda>_ _ _. 0), dma_pos = 0,
     xio = \<lparr>outs = [], lsr_tape = (\<lambda>_. 0x20), lsr_pos = 0, INITIALIZED = False\<rparr>, con = Console_new (\<lambda>_. 0),
     xpmm = \<lparr>NEXT_FREE = 0x100000, LIMIT = 0x200000\<rparr>, ctl = c, held = False\<rparr>"

lemma zero_memory_trb: "control (read_trb (\<lambda>_. 0) phys i) = 0"
  by (simp add: read_trb_def read_bytes_def le_word_def upt_rec)

lemma no_events: "event_ring_cycle c \<Longrightarrow> event_ring_dequeue c < event_ring_len c \<Longrightarrow> pending (\<lambda>_. 0) c = []"
  by (simp add: pending_def event_at_def zero_memory_trb cycle_at_def upt_conv_Cons)

lemma read_trb_other:
  assumes "i \<noteq> j" "i < 256" "j < 256"
  shows "read_trb (write_trb phys i t m) phys j = read_trb m phys j"
proof -
  have "ring_trbs (write_trb phys i t m) phys 256 ! j = ring_trbs m phys 256 ! j"
    using ring_trbs_write [of i 256 phys t m] assms by simp
  then show ?thesis using assms(3) by (simp add: ring_trbs_def)
qed

definition example_state :: ControllerState where
  "example_state = initial_state example_info 0x100000 0x101000 0x102000 0x103000"

definition example_event :: Trb where
  "example_event = \<lparr>parameter = 3, status = 0x01000000, control = 0x8401\<rparr>"

text \<open>A controller with a device on its first port, which is not enabled until it was reset.\<close>

definition example_port :: xsys where
  "example_port = (example_sys (Some example_state))\<lparr>reg_tape := (\<lambda>n _. if n < 4 then 1 else 3)\<rparr>"

lemma example_port_enabled:
  "\<exists>s'. ensure_first_port_enabled example_port = Inr (True, s') \<and> reg_out s' = [(0xFEB00420, 0x11, \<lambda>_. 0)]"
proof -
  define st where "st n x w = example_port\<lparr>reg_pos := n, xio := x, reg_out := w\<rparr>" for n x w
  let ?p = "0xFEB00420 :: u64"
  have i: "controller_info (st n x w) = Inr (Some example_info, st n x w)" for n x w
    by (simp add: controller_info_def with_state_def lock_def unlock_def bindx_def upd_def ret_def st_def example_port_def example_sys_def
        example_state_def initial_state_def)
  have base: "info_base example_info = 0 \<longleftrightarrow> False" "port example_info 0 = ?p" "[0..<unat (max_ports example_info)] = [0, 1, 2, 3]"
    by (simp_all add: example_info_def port_def operational_def max_ports_def upt_rec)
  have r: "portsc ?p (st n x w) = Inr (if n < 4 then 1 else 3, st (Suc n) x w)" for n x w
    by (simp add: portsc_def read_reg_def example_port_def st_def)
  have f: "find_first_connected_port (st 0 x []) = Inr (Some 0, st (Suc 0) x [])" for x
    by (simp add: find_first_connected_port_def bindx_def i base r ret_def)
  have w1: "wait_for (bindx (portsc ?p) (\<lambda>now. ret (now AND 16 = 0))) (st 3 x w) = Inr (True, st 4 x w)" for x w
    by (rule wait_for_now) (simp add: bindx_def r ret_def)
  have w2: "wait_for (bindx (portsc ?p) (\<lambda>now. ret (now AND 2 \<noteq> 0))) (st 4 x w) = Inr (True, st 5 x w)" for x w
    by (rule wait_for_now) (simp add: bindx_def r ret_def)
  have wr: "write_portsc ?p 0x11 (st n x []) = Inr ((), st n x [(?p, 0x11, \<lambda>_. 0)])" for n x
    by (simp add: write_portsc_def write_reg_def upd_def st_def example_port_def example_sys_def)
  have lg: "log_fmt bs (st n x w) = Inr ((), st n (serial_write_fmt bs x) w)" for bs n x w
    by (simp add: log_fmt_def upd_def st_def)
  have rs: "\<exists>x'. reset_port 0 (st 2 x []) = Inr (True, st 6 x' [(?p, 0x11, \<lambda>_. 0)])" for x
    unfolding reset_port_def Let_def thenx_def bindx_def [of controller_info] i
    by (simp add: base) (simp add: bindx_def [of "portsc ?p"] bindx_def [of "log_fmt bs" for bs] bindx_def [of "write_portsc ?p v" for v]
        bindx_def [of "wait_for g" for g] r lg wr w1 w2 ret_def, blast)
  have "example_port = st 0 (xio example_port) []" by (simp add: st_def example_port_def example_sys_def)
  moreover have "ensure_first_port_enabled (st 0 x []) = reset_port 0 (st 2 x [])" for x
    by (simp add: ensure_first_port_enabled_def bindx_def f i base r ret_def numeral_2_eq_2)
  moreover have "reg_out (st n x w) = w" for n x w by (simp add: st_def)
  ultimately show ?thesis using rs [of "xio example_port"] by metis
qed

section \<open>Properties\<close>

text \<open>Waiting on a register ends after at most a million reads and says exactly whether one of
  these reads satisfied the predicate; it stops at the first that does.\<close>
theorem wait_for_decides:
  "wait_for (bindx (read_reg a) (\<lambda>v. ret (P v))) s =
     (let seen = map (\<lambda>k. reg_tape s (reg_pos s + k) a) [0..<1000000]; k = length (takeWhile (\<lambda>v. \<not> P v) seen)
      in Inr (k < 1000000, s\<lparr>reg_pos := reg_pos s + min (Suc k) 1000000\<rparr>))"
  unfolding wait_for_def by (rule wait_loop_exact)

text \<open>C12: Polling takes from the event ring exactly the pending events, those whose cycle bit says that
  the controller has written them since the last lap, in ring order and each once, and returns:
  the state afterwards has absorbed them one after the other, the dequeue index and cycle bit have
  moved past them, the lock is free, and the result says whether there was one. The controller may
  have changed memory in any way before the call and is quiet during it; HID polling is not active.\<close>
theorem poll_events_takes_pending:
  assumes "ctl s = Some c" and "\<not> held s" and "info_base (info c) \<noteq> 0" and "event_ring_dequeue c < event_ring_len c"
    and "hid_buf_phys c = 0" and "m = dma_tape s (dma_pos s) (ram s)" and "\<forall>n > dma_pos s. dma_tape s n m = m"
  shows "\<exists>s'. poll_events s = Inr (pending m c \<noteq> [], s') \<and> ctl s' = Some (after_events c (pending m c)) \<and> \<not> held s' \<and> ram s' = m"
  using poll_events_run [OF assms] by blast

theorem poll_events_takes_pending_witness:
  "\<exists>s' c'. poll_events ((example_sys (Some example_state))\<lparr>dma_tape := \<lambda>_ _. write_trb 0x102000 0 example_event (\<lambda>_. 0)\<rparr>) = Inr (True, s') \<and>
     ctl s' = Some c' \<and> last_completion_code c' = Some 1 \<and> last_completed_slot c' = Some 3 \<and> event_ring_dequeue c' = 1"
proof -
  let ?m = "write_trb 0x102000 0 example_event (\<lambda>_. 0)" and ?c = example_state
  let ?s = "(example_sys (Some ?c))\<lparr>dma_tape := \<lambda>_ _. ?m\<rparr>"
  have c: "event_ring_phys ?c = 0x102000" "event_ring_len ?c = 256" "event_ring_dequeue ?c = 0" "event_ring_cycle ?c" "hid_buf_phys ?c = 0"
    "info_base (info ?c) \<noteq> 0"
    by (simp_all add: example_state_def initial_state_def EVENT_RING_TRBS_def example_info_def)
  have e: "event_at ?m ?c 0 = example_event" "control (event_at ?m ?c (Suc 0)) = 0"
    using read_trb_write_same [of "0x102000" 0 example_event "\<lambda>_. 0"] read_trb_other [of 0 "Suc 0" "0x102000" example_event "\<lambda>_. 0"]
      zero_memory_trb [of "0x102000" "Suc 0"]
    by (simp_all add: event_at_def c)
  have u: "[0..<256] = 0 # Suc 0 # [2..<256]" by (simp add: upt_conv_Cons)
  have p: "pending ?m ?c = [example_event]"
    unfolding pending_def c(2) u using e c by (simp add: cycle_at_def example_event_def)
  have "\<exists>s'. poll_events ?s = Inr (pending ?m ?c \<noteq> [], s') \<and> ctl s' = Some (after_events ?c (pending ?m ?c)) \<and> \<not> held s' \<and> ram s' = ?m"
    by (rule poll_events_takes_pending) (use c in \<open>simp_all add: example_sys_def\<close>)
  then obtain s' where s': "poll_events ?s = Inr (True, s')" "ctl s' = Some (after_events ?c [example_event])"
    by (auto simp: p)
  have "last_completion_code (after_events ?c [example_event]) = Some 1" "last_completed_slot (after_events ?c [example_event]) = Some 3"
    "event_ring_dequeue (after_events ?c [example_event]) = 1"
    using c by (simp_all add: after_events_def absorb_def example_event_def TRB_TYPE_COMMAND_COMPLETION_def)
  with s' show ?thesis by blast
qed

text \<open>C25: A running driver writes only registers that belong to it: every register write of an
  operation that returns goes to the status register of one of the controller's ports, to the event
  dequeue pointer of interrupter 0 or to one of the 256 doorbells of the controller it was started
  on; none of these port registers is an operational register (command, status, ring and context
  pointers, slot count). And no operation changes which controller, command ring, event ring, event
  ring segment table and context array the driver works on.\<close>
theorem running_driver_writes_own_registers:
  "guards (installed c) (mmio (info c)) poll_events \<and> guards (installed c) (mmio (info c)) enable_slot \<and>
   guards (installed c) (mmio (info c)) (address_device slot) \<and>
   guards (installed c) (mmio (info c)) (control_in slot rt rq val idx len buf) \<and>
   guards (installed c) (mmio (info c)) (get_device_descriptor slot) \<and>
   guards (installed c) (mmio (info c)) (get_configuration_descriptor_header slot) \<and>
   guards (installed c) (mmio (info c)) (get_configuration_descriptor slot len) \<and>
   guards (installed c) (mmio (info c)) (set_configuration slot cfg) \<and>
   guards (installed c) (mmio (info c)) (configure_interrupt_in_endpoint slot ep mp iv) \<and>
   guards (installed c) (mmio (info c)) (request_hid_report_once slot ep mp) \<and>
   guards (installed c) (mmio (info c)) (start_hid_polling slot ep mp) \<and>
   guards (installed c) (mmio (info c)) report_ports \<and> guards (installed c) (mmio (info c)) ensure_first_port_enabled \<and>
   (\<forall>k off. k < unat (max_ports (info c)) \<longrightarrow> off < 0x400 \<longrightarrow> operational (info c) + of_nat off \<noteq> port (info c) k)"
  using port_not_operational
  by (simp add: poll_events_mmio slot_mmio address_mmio control_mmio descriptor_mmio set_configuration_def configure_mmio
      request_mmio ports_mmio polling_mmio)

theorem running_driver_writes_own_registers_witness:
  "\<exists>s'. ensure_first_port_enabled example_port = Inr (True, s') \<and> installed example_state s' \<and>
     mmio example_info example_port s' \<and> reg_out s' = [(0xFEB00420, 0x11, \<lambda>_. 0)]"
proof -
  obtain s' where s': "ensure_first_port_enabled example_port = Inr (True, s')" "reg_out s' = [(0xFEB00420, 0x11, \<lambda>_. 0)]"
    using example_port_enabled by blast
  have "installed example_state example_port" "info example_state = example_info"
    by (simp_all add: installed_def example_port_def example_sys_def example_state_def initial_state_def)
  moreover have "guards (installed example_state) (mmio (info example_state)) ensure_first_port_enabled"
    using running_driver_writes_own_registers [of example_state] by blast
  ultimately have "installed example_state s' \<and> mmio example_info example_port s'"
    using guardsD [of "installed example_state" "mmio example_info" ensure_first_port_enabled example_port True s'] s'(1) by simp
  then show ?thesis using s' by blast
qed

end
