(* ===== verification/Xhci_Start.thy ===== *)
theory Xhci_Start
  imports Xhci_Events
begin

text \<open>
  Start-up of the USB host controller and its use of memory: what \<^verbatim>\<open>init_controller\<close> leaves behind
  when it fails and when it succeeds, the enqueue operations as steps of the ring protocol, and the
  start of HID polling.
\<close>

section \<open>Start-up\<close>

lemma alloc_aligned_start: "pmm_good p \<Longrightarrow> alloc_aligned sz al p = (Some a, p') \<Longrightarrow> unat a = round_up (unat al) (unat (NEXT_FREE p))"
  by (auto simp: alloc_aligned_def pmm_good_nat split: if_splits attempt.splits dest: alloc_attempt_TryD(2))

definition idle :: "xsys \<Rightarrow> xsys \<Rightarrow> bool" where
  "idle s s' \<longleftrightarrow> ctl s' = ctl s \<and> xpmm s' = xpmm s \<and> held s' = held s"

interpretation idling: contract "\<lambda>_. True" idle
  by unfold_locales (auto simp: idle_def)

lemma write_reg_idle: "guards (\<lambda>_. True) idle (write_reg a v)"
  by (auto simp: guards_def idle_def write_reg_def upd_def)

lemma in_ram_idle: "guards (\<lambda>_. True) idle (in_ram f)"
  by (auto simp: guards_def idle_def in_ram_def upd_def)

lemmas idle_intros = idling.structural write_reg_idle in_ram_idle

text \<open>\<open>f\<close> defers to \<open>rest\<close>: it fails without installing anything, or it goes on with \<open>rest\<close>.\<close>

definition fails :: "xsys \<Rightarrow> string + unit \<Rightarrow> xsys \<Rightarrow> bool" where
  "fails s x s' \<longleftrightarrow> isl x \<and> ctl s' = ctl s"

definition defers :: "(string + unit) xm \<Rightarrow> (string + unit) xm \<Rightarrow> bool" where
  "defers f rest \<longleftrightarrow> (\<forall>s x s'. f s = Inr (x, s') \<longrightarrow> fails s x s' \<or> (\<exists>t. idle s t \<and> rest t = Inr (x, s')))"

lemma defersD: "defers f rest \<Longrightarrow> f s = Inr (x, s') \<Longrightarrow> fails s x s' \<or> (\<exists>t. idle s t \<and> rest t = Inr (x, s'))"
  by (auto simp: defers_def)

lemma defers_refl: "defers f f"
  by (auto simp: defers_def idle_def)

lemma defers_bind: "guards (\<lambda>_. True) idle f \<Longrightarrow> (\<And>a. defers (g a) rest) \<Longrightarrow> defers (bindx f g) rest"
  unfolding defers_def bindx_Inr guards_def fails_def idle_def by metis

lemma defers_then: "guards (\<lambda>_. True) idle f \<Longrightarrow> defers g rest \<Longrightarrow> defers (thenx f g) rest"
  by (simp add: thenx_def defers_bind)

lemma defers_if: "defers f rest \<Longrightarrow> defers g rest \<Longrightarrow> defers (if b then f else g) rest"
  by simp

lemma defers_err: "defers (ret (Inl e)) rest"
  by (auto simp: defers_def fails_def ret_def)

lemma defers_unless: "guards (\<lambda>_. True) idle c \<Longrightarrow> defers f rest \<Longrightarrow> defers (unless c (Inl e) f) rest"
  unfolding unless_def by (intro defers_bind defers_if defers_err)

lemmas defers_intros = defers_refl defers_bind defers_then defers_if defers_unless

lemma halt_and_reset_defers: "defers (halt_and_reset i rest) rest"
  unfolding halt_and_reset_def Let_def register_defs
  by (intro defers_unless defers_if defers_then defers_bind idle_intros) (rule defers_refl)+

lemma alloc_or_defersE:
  assumes "defers f (alloc_or sz al (ret (Inl e)) g)" "f s = Inr (x, s')" "pmm_good (xpmm s)" "modest sz"
  obtains (failed) "fails s x s'"
  | (granted) a t where "g a t = Inr (x, s')" "ctl t = ctl s" "pmm_good (xpmm t)" "unat (NEXT_FREE (xpmm s)) \<le> unat a"
      "unat al dvd unat a" "unat a + unat sz \<le> unat (NEXT_FREE (xpmm t))" "LIMIT (xpmm t) = LIMIT (xpmm s)"
      "unat a = round_up (unat al) (unat (NEXT_FREE (xpmm s)))"
proof (cases "fails s x s'")
  case False
  then obtain u where u: "idle s u" "alloc_or sz al (ret (Inl e)) g u = Inr (x, s')" using defersD [OF assms(1,2)] by blast
  obtain r p where r: "alloc_aligned sz al (xpmm u) = (r, p)" by (cases "alloc_aligned sz al (xpmm u)")
  have s: "xpmm u = xpmm s" "ctl u = ctl s" "held u = held s" using u(1) by (simp_all add: idle_def)
  show ?thesis
  proof (cases r)
    case None
    then have "x = Inl e" "s' = u\<lparr>xpmm := p\<rparr>" using u(2) r by (simp_all add: alloc_or_def alloc_def bindx_def ret_def)
    then show ?thesis using s failed by (simp add: fails_def)
  next
    case (Some a)
    then have g: "g a (u\<lparr>xpmm := p\<rparr>) = Inr (x, s')" using u(2) r by (simp add: alloc_or_def alloc_def bindx_def)
    have k: "alloc_aligned sz al (xpmm s) = (Some a, p)" using r Some s by simp
    show ?thesis
      using alloc_aligned_grant [OF assms(3,4) k] alloc_aligned_good [OF assms(3) k] alloc_aligned_LIMIT [OF k] alloc_aligned_start [OF assms(3) k] g s
      by (intro granted [of a "u\<lparr>xpmm := p\<rparr>"]) simp_all
  qed
qed (rule failed)

lemma announce_mmio: "guards (installed c0) (mmio (info c0)) (announce i erst ev)"
  unfolding announce_def register_defs by (intro mmio_intros)

lemma announce_Inr: "announce i erst ev s = Inr (x, s') \<Longrightarrow> x = Inr ()"
  by (auto simp: announce_def bindx_Inr thenx_def ret_def)

lemma finish_init:
  assumes "f s = Inr (x, s')" "ctl s = None"
    "defers f (thenx (call_once c0) (announce i erst ev))"
  shows "isl x \<and> ctl s' = None \<or> x = Inr () \<and> installed c0 s'"
proof (cases "fails s x s'")
  case True
  then show ?thesis using assms(2) by (simp add: fails_def)
next
  case False
  then obtain t where t: "idle s t" "thenx (call_once c0) (announce i erst ev) t = Inr (x, s')"
    using defersD [OF assms(3,1)] by blast
  then have a: "announce i erst ev (t\<lparr>ctl := Some c0\<rparr>) = Inr (x, s')"
    using assms(2) by (simp add: call_once_def idle_def)
  moreover have "installed c0 (t\<lparr>ctl := Some c0\<rparr>)" by (simp add: installed_def)
  ultimately show ?thesis using guardsD [OF announce_mmio] announce_Inr by blast
qed


lemma program_registers_idle: "guards (\<lambda>_. True) idle (program_registers i a b c d)"
  unfolding program_registers_def Let_def register_defs by (intro idle_intros)

lemma of_nat_sizes [simp]: "unat (of_nat (CMD_RING_TRBS * TRB_SIZE) :: u64) = 4096" "unat (of_nat (EVENT_RING_TRBS * TRB_SIZE) :: u64) = 4096"
  "unat (of_nat ((unat (max_slots i) + 1) * 8) :: u64) = (unat (max_slots i) + 1) * 8"
proof -
  have "unat (max_slots i) < 256" using unsigned_less [of "max_slots i"] by simp
  then show "unat (of_nat ((unat (max_slots i) + 1) * 8) :: u64) = (unat (max_slots i) + 1) * 8"
    by (simp only: unat_of_nat) simp
qed (simp_all add: CMD_RING_TRBS_def EVENT_RING_TRBS_def TRB_SIZE_def)

text \<open>What a successful start leaves: the controller state with its four blocks of memory, aligned
  and one after the other inside the region the allocator had left.\<close>

definition blocks_ok :: "pmm \<Rightarrow> ControllerState \<Rightarrow> bool" where
  "blocks_ok p c \<longleftrightarrow>
     ascending_from (unat (NEXT_FREE p))
       [(command_ring_phys c, 4096), (dcbaa_phys c, of_nat ((unat (max_slots (info c)) + 1) * 8)), (event_ring_phys c, 4096), (erst_phys c, 16)]
       (unat (LIMIT p)) \<and>
     list_all (\<lambda>a. 64 dvd unat a) [command_ring_phys c, dcbaa_phys c, event_ring_phys c, erst_phys c] \<and>
     unat (command_ring_phys c) = round_up 64 (unat (NEXT_FREE p))"

lemma blocks_okI:
  assumes "command_ring_phys c = cmd" "dcbaa_phys c = dcbaa" "event_ring_phys c = ev" "erst_phys c = erst"
    and "unat (NEXT_FREE p) \<le> unat cmd" "unat cmd + unat (of_nat (CMD_RING_TRBS * TRB_SIZE) :: u64) \<le> n1"
    and "n1 \<le> unat dcbaa" "unat dcbaa + unat (of_nat ((unat (max_slots i) + 1) * 8) :: u64) \<le> n2"
    and "n2 \<le> unat ev" "unat ev + unat (of_nat (EVENT_RING_TRBS * TRB_SIZE) :: u64) \<le> n3"
    and "n3 \<le> unat erst" "unat erst + unat (16 :: u64) \<le> n4" "info c = i" "n4 \<le> unat (LIMIT p)"
    and "64 dvd unat cmd" "64 dvd unat dcbaa" "64 dvd unat ev" "64 dvd unat erst" "unat cmd = round_up 64 (unat (NEXT_FREE p))"
  shows "blocks_ok p c"
proof -
  have d: "unat (of_nat ((unat (max_slots (info c)) + 1) * 8) :: u64) = (unat (max_slots i) + 1) * 8"
    using assms(13) of_nat_sizes(3) by simp
  have "unat cmd + 4096 \<le> n1" "unat dcbaa + (unat (max_slots i) + 1) * 8 \<le> n2" "unat ev + 4096 \<le> n3" "unat erst + 16 \<le> n4"
    using assms(6,8,10,12) by (simp_all only: of_nat_sizes) simp
  then show ?thesis
    unfolding blocks_ok_def ascending_from.simps d assms(1-4) using assms by simp
qed

lemma block_sizes_modest:
  "modest (of_nat (CMD_RING_TRBS * TRB_SIZE))" "modest (of_nat (EVENT_RING_TRBS * TRB_SIZE))" "modest 16"
  "modest (of_nat ((unat (max_slots i) + 1) * 8))"
proof -
  have "unat (max_slots i) < 256" using unsigned_less [of "max_slots i"] by simp
  then show "modest (of_nat ((unat (max_slots i) + 1) * 8))" unfolding modest_nat of_nat_sizes by simp
qed (simp_all add: modest_def CMD_RING_TRBS_def EVENT_RING_TRBS_def TRB_SIZE_def)

lemma wait_running_idle:
  "guards (\<lambda>_. True) idle (wait_for (bindx (usbsts i) (\<lambda>v. ret (\<not> contains v HOST_CONTROLLER_HALTED))))"
  unfolding usbsts_def by (intro idle_intros)

lemma init_controller_outcome:
  assumes "init_controller i s = Inr (x, s')" "ctl s = None" "pmm_good (xpmm s)"
  shows "isl x \<and> ctl s' = None \<or>
    x = Inr () \<and> (\<exists>c. installed c s' \<and> info c = i \<and> command_ring_len c = 256 \<and> event_ring_len c = 256 \<and> blocks_ok (xpmm s) c)"
proof (cases "info_base i = 0")
  case True
  then show ?thesis using assms by (auto simp: init_controller_def ret_def)
next
  case False
  note m = block_sizes_modest(1-3) block_sizes_modest(4) [of i]
  note r = assms(1) [unfolded init_controller_def Let_def zero_phys_def if_not_P [OF False]]
  show ?thesis
  proof (cases rule: alloc_or_defersE [OF halt_and_reset_defers r assms(3) m(1), consumes 0, case_names failed granted])
    case failed
    then show ?thesis using assms(2) by (simp add: fails_def)
  next
    case (granted cmd t1)
    note 1 = this
    show ?thesis
    proof (cases rule: alloc_or_defersE [OF defers_then [OF in_ram_idle defers_then [OF in_ram_idle defers_refl]] 1(1,3) m(4), consumes 0, case_names failed granted])
      case failed
      then show ?thesis using assms(2) 1(2) by (simp add: fails_def)
    next
      case (granted dcbaa t2)
      note 2 = this
      show ?thesis
      proof (cases rule: alloc_or_defersE [OF defers_then [OF in_ram_idle defers_refl] 2(1,3) m(2), consumes 0, case_names failed granted])
        case failed
        then show ?thesis using assms(2) 1(2) 2(2) by (simp add: fails_def)
      next
        case (granted ev t3)
        note 3 = this
        show ?thesis
        proof (cases rule: alloc_or_defersE [OF defers_then [OF in_ram_idle defers_refl] 3(1,3) m(3), consumes 0, case_names failed granted])
          case failed
          then show ?thesis using assms(2) 1(2) 2(2) 3(2) by (simp add: fails_def)
        next
          case (granted erst t4)
          note 4 = this
          let ?c = "initial_state i cmd dcbaa ev erst"
          have "isl x \<and> ctl s' = None \<or> x = Inr () \<and> installed ?c s'"
            by (rule finish_init [OF 4(1) _ defers_then [OF in_ram_idle defers_then [OF in_ram_idle
                  defers_then [OF program_registers_idle defers_unless [OF wait_running_idle defers_refl]]]]])
              (simp add: assms(2) 1(2) 2(2) 3(2) 4(2))
          moreover have "blocks_ok (xpmm s) ?c"
            by (rule blocks_okI [OF _ _ _ _ 1(4,6) 2(4,6) 3(4,6) 4(4,6)])
              (use 1(5,7,8) 2(5,7) 3(5,7) 4(3,5,7) in \<open>simp_all add: initial_state_def pmm_good_nat\<close>)
          moreover have "info ?c = i" "command_ring_len ?c = 256" "event_ring_len ?c = 256"
            by (simp_all add: initial_state_def CMD_RING_TRBS_def EVENT_RING_TRBS_def)
          ultimately show ?thesis by blast
        qed
      qed
    qed
  qed
qed

lemmas run_defs = with_state_def bindx_def thenx_def lock_def unlock_def upd_def ret_def

lemma noop_returns:
  assumes "ctl s = Some c" "\<not> held s" "command_ring_len c = 256"
  shows "\<exists>s'. enqueue_noop_command s = Inr ((), s') \<and> \<not> held s' \<and> dma_tape s' = dma_tape s \<and>
    ctl s' = Some (c\<lparr>command_ring_enqueue := fst (advance (command_ring_enqueue c) (command_ring_cycle c) 255),
      command_ring_cycle := snd (advance (command_ring_enqueue c) (command_ring_cycle c) 255)\<rparr>)"
  using assms by (simp add: enqueue_noop_command_def put_command_def in_ram_def log_fmt_def Let_def run_defs split: prod.split)

lemma doorbell_returns:
  assumes "ctl s = Some c" "\<not> held s"
  shows "\<exists>s'. ring_doorbell k t s = Inr ((), s') \<and> \<not> held s' \<and> dma_tape s' = dma_tape s \<and> ctl s' = Some c"
  using assms by (simp add: ring_doorbell_def ring_db_def write_reg_def run_defs)

lemma announce_silent:
  assumes "ctl s = Some (initial_state i a b c d)" "\<not> held s" "dma_tape s = (\<lambda>_ _ _. 0)" "info_base i \<noteq> 0"
  shows "\<exists>s'. announce i d c s = Inr (Inr (), s')"
proof -
  let ?ini = "initial_state i a b c d"
  let ?c = "?ini\<lparr>command_ring_enqueue := fst (advance (command_ring_enqueue ?ini) (command_ring_cycle ?ini) 255),
      command_ring_cycle := snd (advance (command_ring_enqueue ?ini) (command_ring_cycle ?ini) 255)\<rparr>"
  have "\<exists>v s1. crcr i s = Inr (v, s1) \<and> ctl s1 = ctl s \<and> held s1 = held s \<and> dma_tape s1 = dma_tape s"
    by (simp add: crcr_def read_reg64_def read_reg_def run_defs)
  then obtain v s1 where s1: "crcr i s = Inr (v, s1)" "ctl s1 = ctl s" "held s1 = held s" "dma_tape s1 = dma_tape s" by blast
  let ?log = "str_bytes ''[xhci] runtime ready cr='' @ fmt_alt_hex 0 v @ str_bytes '' erst='' @ fmt_alt_hex 0 d @
              str_bytes '' erdp='' @ fmt_alt_hex 0 c @ CRLF"
  let ?logged = "s1\<lparr>xio := serial_write_fmt ?log (xio s1)\<rparr>"
  obtain s2 where s2: "enqueue_noop_command ?logged = Inr ((), s2)" "\<not> held s2" "dma_tape s2 = dma_tape s" "ctl s2 = Some ?c"
  proof -
    have "ctl ?logged = Some ?ini" "\<not> held ?logged" using s1 assms(1,2) by simp_all
    moreover have "command_ring_len ?ini = 256" by (simp add: initial_state_def CMD_RING_TRBS_def)
    ultimately have "\<exists>s2. enqueue_noop_command ?logged = Inr ((), s2) \<and> \<not> held s2 \<and> dma_tape s2 = dma_tape ?logged \<and> ctl s2 = Some ?c"
      by (rule noop_returns)
    then show ?thesis using that s1(4) by auto
  qed
  obtain s3 where s3: "ring_doorbell 0 0 s2 = Inr ((), s3)" "\<not> held s3" "dma_tape s3 = dma_tape s" "ctl s3 = Some ?c"
    using doorbell_returns [OF s2(4,2)] s2(3) by auto
  have "pending (\<lambda>_. 0) ?c = []" by (rule no_events) (simp_all add: initial_state_def EVENT_RING_TRBS_def)
  moreover have "info_base (info ?c) \<noteq> 0" "event_ring_dequeue ?c < event_ring_len ?c" "hid_buf_phys ?c = 0" "last_completion_code ?c = None"
    using assms(4) by (simp_all add: initial_state_def EVENT_RING_TRBS_def)
  moreover have "(\<lambda>_. 0) = dma_tape s3 (dma_pos s3) (ram s3)" "\<forall>n > dma_pos s3. dma_tape s3 n (\<lambda>_. 0) = (\<lambda>_. 0)"
    using s3(3) assms(3) by simp_all
  ultimately have "\<exists>s4. wait_for_command_completion 1000000 s3 = Inr (None, s4) \<and> ctl s4 = Some ?c \<and> \<not> held s4"
    using s3(2,4) by (intro silent_completion)
  then obtain s4 where s4: "wait_for_command_completion 1000000 s3 = Inr (None, s4)" by blast
  show ?thesis
    using s1(1) s2(1) s3(1) s4 by (simp add: announce_def log_fmt_def log_str_def usbsts_def read_reg_def run_defs)
qed

definition example_reset :: xsys where
  "example_reset = (example_sys None)\<lparr>reg_pos := Suc (Suc (Suc (Suc 0))), reg_out := [(0xFEB00020, 2, \<lambda>_. 0)]\<rparr>"

lemma example_halts: "halt_and_reset example_info rest (example_sys None) = rest example_reset"
proof -
  let ?s = "\<lambda>n. (example_sys None)\<lparr>reg_pos := n, reg_out := [(0xFEB00020, 2, \<lambda>_. 0)]\<rparr>"
  have r: "wait_for (bindx (usbcmd example_info) (\<lambda>v. ret (\<not> contains v HOST_CONTROLLER_RESET))) (?s (Suc (Suc 0))) = Inr (True, ?s (Suc (Suc (Suc 0))))"
    by (rule wait_for_now)
      (simp add: usbcmd_def read_reg_def run_defs example_sys_def example_info_def operational_def contains_def HOST_CONTROLLER_RESET_def)
  have h: "wait_for (bindx (usbsts example_info) (\<lambda>v. ret (contains v HOST_CONTROLLER_HALTED))) (?s (Suc (Suc (Suc 0)))) = Inr (True, ?s (Suc (Suc (Suc (Suc 0)))))"
    by (rule wait_for_now)
      (simp add: usbsts_def read_reg_def run_defs example_sys_def example_info_def operational_def contains_def HOST_CONTROLLER_HALTED_def USBSTS_ALL_def)
  have u: "usbcmd example_info (example_sys None) = Inr (0, (example_sys None)\<lparr>reg_pos := Suc 0\<rparr>)"
    "usbcmd example_info ((example_sys None)\<lparr>reg_pos := Suc 0\<rparr>) = Inr (0, (example_sys None)\<lparr>reg_pos := Suc (Suc 0)\<rparr>)"
    "set_usbcmd example_info 2 ((example_sys None)\<lparr>reg_pos := Suc (Suc 0)\<rparr>) = Inr ((), ?s (Suc (Suc 0)))"
    by (simp_all add: usbcmd_def set_usbcmd_def write_reg_def read_reg_def run_defs example_sys_def example_info_def operational_def)
  show ?thesis
    unfolding halt_and_reset_def Let_def example_reset_def
    using u r h by (simp add: run_defs unless_def contains_def RUN_STOP_def HOST_CONTROLLER_RESET_def)
qed

lemma example_program:
  assumes "reg_tape s = reg_tape (example_sys None)" "reg_pos s = 4" "ctl s = None" "\<not> held s" "dma_tape s = (\<lambda>_ _ _. 0)"
  shows "\<exists>s'. thenx (program_registers example_info a b c d)
      (unless (wait_for (bindx (usbsts example_info) (\<lambda>v. ret (\<not> contains v HOST_CONTROLLER_HALTED)))) (Inl ''xhci: run timeout'')
      (thenx (call_once (initial_state example_info a b c d)) (announce example_info d c))) s = Inr (Inr (), s')"
proof -
  have "\<exists>s'. program_registers example_info a b c d s = Inr ((), s') \<and> ctl s' = ctl s \<and> held s' = held s \<and> dma_tape s' = dma_tape s \<and>
      reg_tape s' = reg_tape s \<and> reg_pos s' = reg_pos s + 3"
    by (simp add: program_registers_def Let_def register_defs write_reg_def read_reg_def run_defs)
  then obtain t where t: "program_registers example_info a b c d s = Inr ((), t)" "ctl t = None" "\<not> held t" "dma_tape t = (\<lambda>_ _ _. 0)"
    "reg_tape t = reg_tape (example_sys None)" "reg_pos t = 7" using assms by auto
  have w: "wait_for (bindx (usbsts example_info) (\<lambda>v. ret (\<not> contains v HOST_CONTROLLER_HALTED))) t = Inr (True, t\<lparr>reg_pos := Suc (reg_pos t)\<rparr>)"
    by (rule wait_for_now) (simp add: usbsts_def read_reg_def run_defs t example_sys_def contains_def HOST_CONTROLLER_HALTED_def)
  have "\<exists>s'. announce example_info d c (t\<lparr>reg_pos := Suc (reg_pos t), ctl := Some (initial_state example_info a b c d)\<rparr>) = Inr (Inr (), s')"
    by (rule announce_silent) (simp_all add: t example_info_def)
  then show ?thesis using t(1) w t(2) by (simp add: unless_def bindx_def thenx_def call_once_def upd_def)
qed

lemma example_starts: "\<exists>s'. init_controller example_info (example_sys None) = Inr (Inr (), s')"
proof -
  have al: "alloc_aligned 4096 64 \<lparr>NEXT_FREE = 0x100000, LIMIT = 0x200000\<rparr> = (Some 0x100000, \<lparr>NEXT_FREE = 0x101000, LIMIT = 0x200000\<rparr>)"
    "alloc_aligned 264 64 \<lparr>NEXT_FREE = 0x101000, LIMIT = 0x200000\<rparr> = (Some 0x101000, \<lparr>NEXT_FREE = 0x102000, LIMIT = 0x200000\<rparr>)"
    "alloc_aligned 4096 64 \<lparr>NEXT_FREE = 0x102000, LIMIT = 0x200000\<rparr> = (Some 0x102000, \<lparr>NEXT_FREE = 0x103000, LIMIT = 0x200000\<rparr>)"
    "alloc_aligned 16 64 \<lparr>NEXT_FREE = 0x103000, LIMIT = 0x200000\<rparr> = (Some 0x103000, \<lparr>NEXT_FREE = 0x104000, LIMIT = 0x200000\<rparr>)"
    by (simp_all add: alloc_aligned_def alloc_attempt_def bad_align_def adj_size_def align_up_def
        PAGE_SIZE_def checked_add_def max_def Let_def)
  have sz: "of_nat (CMD_RING_TRBS * TRB_SIZE) = (4096 :: u64)" "of_nat (EVENT_RING_TRBS * TRB_SIZE) = (4096 :: u64)"
    "of_nat ((unat (max_slots example_info) + 1) * 8) = (264 :: u64)"
    by (simp_all add: CMD_RING_TRBS_def EVENT_RING_TRBS_def TRB_SIZE_def max_slots_def example_info_def)
  have b: "info_base example_info \<noteq> 0" by (simp add: example_info_def)
  have mem: "thenx (in_ram f) g s = g (s\<lparr>ram := f (ram s)\<rparr>)" for f s and g :: "(string + unit) xm"
    by (simp add: in_ram_def)
  have step: "alloc_or sz al f g s = (case alloc_aligned sz al (xpmm s) of (None, p) \<Rightarrow> f (s\<lparr>xpmm := p\<rparr>) | (Some a, p) \<Rightarrow> g a (s\<lparr>xpmm := p\<rparr>))"
    for sz al s and f :: "(string + unit) xm" and g
    by (simp add: alloc_or_def alloc_def bindx_def split: prod.split option.split)
  have p: "xpmm example_reset = \<lparr>NEXT_FREE = 0x100000, LIMIT = 0x200000\<rparr>" by (simp add: example_reset_def example_sys_def)
  show ?thesis
    unfolding init_controller_def Let_def if_not_P [OF b] example_halts sz zero_phys_def
    by (simp add: step p al mem del: init_controller_def, rule example_program) (simp_all add: example_reset_def example_sys_def)
qed

section \<open>Enqueueing as steps of the ring protocol\<close>

lemma ring_put_step:
  assumes "cycle_bit t = r_cycle r" "trb_type t \<noteq> TRB_TYPE_LINK"
  shows "ring_step phys len r (r\<lparr>r_mem := write_trb phys (r_enq r mod (len - 1)) t (r_mem r),
     r_enq := fst (advance (r_enq r) (r_cycle r) (len - 1)), r_cycle := snd (advance (r_enq r) (r_cycle r) (len - 1)),
     produced := produced r @ [t]\<rparr>)"
  by (rule ring_step.produce [OF assms]) (simp add: ring_put_def Let_def)

definition command_view :: "ControllerState \<Rightarrow> xsys \<Rightarrow> ring_sys \<Rightarrow> bool" where
  "command_view c s r \<longleftrightarrow> r_mem r = ram s \<and> r_enq r = command_ring_enqueue c \<and> r_cycle r = command_ring_cycle c"

definition ep0_view :: "ControllerState \<Rightarrow> xsys \<Rightarrow> ring_sys \<Rightarrow> bool" where
  "ep0_view c s r \<longleftrightarrow> r_mem r = ram s \<and> r_enq r = ep0_enqueue c \<and> r_cycle r = ep0_cycle c"

lemma high_bits_fields:
  fixes w h :: u32
  assumes "\<And>n. n < 16 \<Longrightarrow> \<not> bit h n"
  shows "bit (w OR h) 0 = bit w 0" "drop_bit 10 (w OR h) AND 0x3F = drop_bit 10 w AND 0x3F"
proof -
  show "bit (w OR h) 0 = bit w 0" using assms [of 0] by (simp add: bit_or_iff)
  have m: "(0x3F :: u32) = mask 6" by (simp add: mask_eq_exp_minus_1)
  show "drop_bit 10 (w OR h) AND 0x3F = drop_bit 10 w AND 0x3F"
  proof (rule bit_word_eqI)
    fix n assume "n < LENGTH(32)"
    show "bit (drop_bit 10 (w OR h) AND 0x3F) n = bit (drop_bit 10 w AND 0x3F) n"
      unfolding m bit_and_iff bit_mask_iff bit_drop_bit_eq o_def bit_or_iff using assms [of "10 + n"] by auto
  qed
qed

lemma slot_bits: "n < 16 \<Longrightarrow> \<not> bit (push_bit 16 (w :: u32)) n"
  by (simp add: bit_push_bit_iff)

lemma slotless_command: "enqueue_command_trb ty p st = enqueue_command_trb_slot ty p st 0"
proof -
  have "ucast (0 :: u8) = (0 :: u32)" by simp
  then show ?thesis by (simp only: enqueue_command_trb_def enqueue_command_trb_slot_def push_bit_of_0 or.right_neutral)
qed

text \<open>A call posts a block on the command ring: it returns with the lock free and no register written, and
  it is one producer step of the ring protocol that appends exactly this block.\<close>

definition posts_command :: "unit xm \<Rightarrow> Trb \<Rightarrow> ControllerState \<Rightarrow> xsys \<Rightarrow> ring_sys \<Rightarrow> bool" where
  "posts_command f t c s r \<longleftrightarrow>
     (\<exists>s' c' r'. f s = Inr ((), s') \<and> ctl s' = Some c' \<and> fixed_part c' = fixed_part c \<and> \<not> held s' \<and>
        reg_out s' = reg_out s \<and> command_view c' s' r' \<and> ring_step (command_ring_phys c) 256 r r' \<and>
        consumed r' = consumed r \<and> produced r' = produced r @ [t])"

lemma command_put_posts:
  assumes "command_ring_len c = 256" "command_view c s r" "cycle_bit t = command_ring_cycle c" "trb_type t \<noteq> TRB_TYPE_LINK"
    and f: "\<And>e cy. advance (command_ring_enqueue c) (command_ring_cycle c) 255 = (e, cy) \<Longrightarrow>
      \<exists>x. f s = Inr ((), s\<lparr>ram := write_trb (command_ring_phys c) (command_ring_enqueue c mod 255) t (ram s), xio := x,
        ctl := Some (c\<lparr>command_ring_enqueue := e, command_ring_cycle := cy\<rparr>), held := False\<rparr>)"
  shows "posts_command f t c s r"
proof -
  note v = assms(2) [unfolded command_view_def]
  let ?r = "r\<lparr>r_mem := write_trb (command_ring_phys c) (r_enq r mod (256 - 1)) t (r_mem r),
     r_enq := fst (advance (r_enq r) (r_cycle r) (256 - 1)), r_cycle := snd (advance (r_enq r) (r_cycle r) (256 - 1)),
     produced := produced r @ [t]\<rparr>"
  let ?c = "c\<lparr>command_ring_enqueue := r_enq ?r, command_ring_cycle := r_cycle ?r\<rparr>"
  obtain x where x: "f s = Inr ((), s\<lparr>ram := r_mem ?r, xio := x, ctl := Some ?c, held := False\<rparr>)"
    using f [of "r_enq ?r" "r_cycle ?r"] v by auto
  let ?s = "s\<lparr>ram := r_mem ?r, xio := x, ctl := Some ?c, held := False\<rparr>"
  have "ring_step (command_ring_phys c) 256 r ?r" using assms(3,4) v by (intro ring_put_step) simp_all
  moreover have "command_view ?c ?s ?r" by (simp add: command_view_def)
  moreover have "fixed_part ?c = fixed_part c" by (simp add: fixed_part_def)
  ultimately show ?thesis
    unfolding posts_command_def using x by (intro exI [of _ ?s] exI [of _ ?c] exI [of _ ?r]) simp
qed

lemma slot_command_posts:
  assumes "ctl s = Some c" "\<not> held s" "command_ring_len c = 256" "command_view c s r" "ty < 64" "ty \<noteq> TRB_TYPE_LINK"
  shows "posts_command (enqueue_command_trb_slot ty p st k)
    \<lparr>parameter = p, status = st, control = command_control ty (command_ring_cycle c) OR push_bit 16 (ucast k)\<rparr> c s r"
proof (rule command_put_posts [OF assms(3,4)])
  fix e cy assume "advance (command_ring_enqueue c) (command_ring_cycle c) 255 = (e, cy)"
  then show "\<exists>x. enqueue_command_trb_slot ty p st k s = Inr ((), s\<lparr>ram := write_trb (command_ring_phys c) (command_ring_enqueue c mod 255)
      \<lparr>parameter = p, status = st, control = command_control ty (command_ring_cycle c) OR push_bit 16 (ucast k)\<rparr> (ram s), xio := x,
      ctl := Some (c\<lparr>command_ring_enqueue := e, command_ring_cycle := cy\<rparr>), held := False\<rparr>)"
    using assms(1-3)
    by (intro exI [of _ "xio s"])
      (simp add: enqueue_command_trb_slot_def with_state_def put_command_def in_ram_def Let_def bindx_def thenx_def
        lock_def unlock_def upd_def ret_def split: prod.split)
qed (use command_control_fields [OF assms(5), of "command_ring_cycle c"] high_bits_fields [OF slot_bits] assms(6)
  in \<open>simp_all add: cycle_bit_def trb_type_def\<close>)

lemma noop_command_posts:
  assumes "ctl s = Some c" "\<not> held s" "command_ring_len c = 256" "command_view c s r"
  shows "posts_command enqueue_noop_command
    \<lparr>parameter = 0, status = 0, control = command_control TRB_TYPE_NO_OP_COMMAND (command_ring_cycle c)\<rparr> c s r"
proof (rule command_put_posts [OF assms(3,4)])
  fix e cy assume "advance (command_ring_enqueue c) (command_ring_cycle c) 255 = (e, cy)"
  then show "\<exists>x. enqueue_noop_command s = Inr ((), s\<lparr>ram := write_trb (command_ring_phys c) (command_ring_enqueue c mod 255)
      \<lparr>parameter = 0, status = 0, control = command_control TRB_TYPE_NO_OP_COMMAND (command_ring_cycle c)\<rparr> (ram s), xio := x,
      ctl := Some (c\<lparr>command_ring_enqueue := e, command_ring_cycle := cy\<rparr>), held := False\<rparr>)"
    using assms(1-3)
    by (simp add: enqueue_noop_command_def with_state_def put_command_def in_ram_def Let_def bindx_def thenx_def log_fmt_def
        lock_def unlock_def upd_def ret_def split: prod.split) blast
qed (use command_control_fields [of TRB_TYPE_NO_OP_COMMAND "command_ring_cycle c"]
  in \<open>simp_all add: cycle_bit_def trb_type_def TRB_TYPE_NO_OP_COMMAND_def TRB_TYPE_LINK_def\<close>)

lemma ep0_stage_step:
  assumes "ctl s = Some c" "\<not> held s" "ep0_ring_len c = 64" "ep0_view c s r"
    and "drop_bit 10 ct AND 0x3F \<noteq> TRB_TYPE_LINK" "\<not> bit ct 0"
  shows "\<exists>s' c' r'. ep0_stage p st ct s = Inr ((), s') \<and> ctl s' = Some c' \<and> fixed_part c' = fixed_part c \<and> ep0_ring_len c' = 64 \<and>
    ep0_ring_phys c' = ep0_ring_phys c \<and> \<not> held s' \<and> reg_out s' = reg_out s \<and> ep0_view c' s' r' \<and>
    ring_step (ep0_ring_phys c) 64 r r' \<and> consumed r' = consumed r \<and>
    produced r' = produced r @ [\<lparr>parameter = p, status = st, control = ct OR push_bit 5 1 OR (if r_cycle r then 1 else 0)\<rparr>]"
proof -
  let ?t = "\<lparr>parameter = p, status = st, control = ct OR push_bit 5 1 OR (if r_cycle r then 1 else 0)\<rparr>"
  note v = assms(4) [unfolded ep0_view_def]
  have b: "bit (control ?t) n \<longleftrightarrow> bit ct n \<or> n = 5 \<or> n = 0 \<and> r_cycle r" for n
  proof -
    have "bit (push_bit 5 (1 :: u32)) n \<longleftrightarrow> n = 5" unfolding bit_push_bit_iff by (auto simp: bit_1_iff)
    moreover have "bit (if r_cycle r then 1 else 0 :: u32) n \<longleftrightarrow> n = 0 \<and> r_cycle r" by (auto simp: bit_1_iff)
    ultimately show ?thesis by (simp only: Trb.select_convs bit_or_iff)
  qed
  have "drop_bit 10 (control ?t) AND 0x3F = drop_bit 10 ct AND 0x3F"
    by (rule bit_word_eqI) (simp add: bit_and_iff bit_drop_bit_eq b)
  then have t: "cycle_bit ?t = r_cycle r" "trb_type ?t \<noteq> TRB_TYPE_LINK"
    using assms(5,6) b [of 0] by (simp_all only: cycle_bit_def trb_type_def) simp_all
  let ?r = "r\<lparr>r_mem := write_trb (ep0_ring_phys c) (r_enq r mod (64 - 1)) ?t (r_mem r),
     r_enq := fst (advance (r_enq r) (r_cycle r) (64 - 1)), r_cycle := snd (advance (r_enq r) (r_cycle r) (64 - 1)),
     produced := produced r @ [?t]\<rparr>"
  let ?c = "c\<lparr>ep0_enqueue := r_enq ?r, ep0_cycle := r_cycle ?r\<rparr>"
  let ?s = "s\<lparr>ram := r_mem ?r, ctl := Some ?c, held := False\<rparr>"
  have "ring_step (ep0_ring_phys c) 64 r ?r" by (intro ring_put_step t)
  moreover have "ep0_stage p st ct s = Inr ((), ?s)"
    using assms(1-3) v
    by (simp add: ep0_stage_def ep0_cycle_bit_def ep0_enqueue_trb_def with_state_def in_ram_def Let_def bindx_def thenx_def
        lock_def unlock_def upd_def ret_def split: prod.split)
  moreover have "ep0_view ?c ?s ?r" by (simp add: ep0_view_def)
  moreover have "fixed_part ?c = fixed_part c" by (simp add: fixed_part_def)
  ultimately show ?thesis by (intro exI [of _ ?s] exI [of _ ?c] exI [of _ ?r]) (simp add: assms(3))
qed

section \<open>HID polling\<close>

lemma ring_doorbell_held: "ctl s = Some c \<Longrightarrow> held s \<Longrightarrow> ring_doorbell k t s = Inl Deadlocked"
  by (simp add: ring_doorbell_def with_state_def lock_def bindx_def)

lemma hid_buffer_cases:
  assumes "hid_buffer mp c s = Inr (r, s')"
  shows "ctl s' = ctl s \<and> held s' = held s \<and> (case r of None \<Rightarrow> True | Some c' \<Rightarrow> intr_ring_len c' = intr_ring_len c)"
  using assms
  by (auto simp: hid_buffer_def alloc_or_def alloc_def zero_phys_def in_ram_def thenx_def bindx_def upd_def ret_def
      split: if_splits prod.splits option.splits)

lemma hid_buffer_Inr: "\<exists>r s'. hid_buffer mp c s = Inr (r, s')"
  by (auto simp: hid_buffer_def alloc_or_def alloc_def zero_phys_def in_ram_def thenx_def bindx_def upd_def ret_def
      split: prod.splits option.splits)

lemma hid_post_deadlocks:
  assumes "ctl s = Some c0" "held s"
  shows "bindx (put_intr t c) (\<lambda>c. thenx (ring_doorbell k tg) (ret (True, c))) s = Inl Deadlocked"
  using assms ring_doorbell_held [of "s\<lparr>ram := m\<rparr>" c0 k tg for m]
  by (simp add: put_intr_def in_ram_def Let_def bindx_def thenx_def upd_def ret_def split: prod.split)


section \<open>Contexts in memory\<close>

definition changed :: "xsys \<Rightarrow> xsys \<Rightarrow> u64 set" where
  "changed s s' = {x. ram s' x \<noteq> ram s x}"

lemma write_u32_changed:
  assumes "4 * k + 4 \<le> n" "n < 2 ^ 32"
  shows "\<exists>s'. write_u32 p k v s = Inr ((), s') \<and> changed s s' \<subseteq> region p n"
proof -
  have "x \<in> region p n" if "unat (x - (p + of_nat (4 * k))) < 4" for x
  proof -
    let ?d = "x - (p + of_nat (4 * k))"
    have k: "unat (of_nat (4 * k) :: u64) = 4 * k" using assms by (simp only: unat_of_nat) simp
    have "x - p = ?d + of_nat (4 * k)" by simp
    then have "unat (x - p) = unat ?d + 4 * k"
      using unat_add_no_wrap [of ?d "of_nat (4 * k)"] k that assms by (simp only:) simp
    then show ?thesis using that assms by (simp add: region_def)
  qed
  then show ?thesis by (auto simp: write_u32_def in_ram_def upd_def changed_def write_bytes_def split: if_splits)
qed

lemma write_u32_then_changed:
  assumes "4 * k + 4 \<le> n" "n < 2 ^ 32" "\<And>s. \<exists>s'. f s = Inr ((), s') \<and> changed s s' \<subseteq> region p n"
  shows "\<exists>s'. thenx (write_u32 p k v) f s = Inr ((), s') \<and> changed s s' \<subseteq> region p n"
proof -
  obtain s1 where s1: "write_u32 p k v s = Inr ((), s1)" "changed s s1 \<subseteq> region p n"
    using write_u32_changed [OF assms(1,2)] by blast
  obtain s2 where s2: "f s1 = Inr ((), s2)" "changed s1 s2 \<subseteq> region p n" using assms(3) by blast
  have "changed s s2 \<subseteq> changed s s1 \<union> changed s1 s2" by (auto simp: changed_def)
  then show ?thesis using s1 s2 by (auto simp: thenx_def bindx_def)
qed

lemma endpoint_id_bound: "unat (endpoint_id_from_addr a) \<le> 31"
  by (rule u8_exhaust) code_simp

lemma context_size_cases: "unat (context_size i) = 32 \<or> unat (context_size i) = 64"
  by (simp add: context_size_def)

definition example_ring :: ring_sys where
  "example_ring = \<lparr>r_mem = (\<lambda>_. 0), r_enq = 0, r_cycle = True, r_deq = 0, r_ccs = True, produced = [], consumed = []\<rparr>"

section \<open>Properties\<close>

text \<open>C17: Starting the controller either fails and installs nothing, or succeeds and installs a
  controller state whose command ring, context array, event ring and segment table are 64-byte
  aligned, lie one after the other without overlap in the memory the allocator had left, and have
  the lengths the rest of the driver relies on; the command ring takes the first aligned address the
  allocator has free. All that whatever the registers and memory hold meanwhile.\<close>
theorem init_controller_installs_disjoint_rings:
  assumes "init_controller i s = Inr (x, s')" and "ctl s = None" and "pmm_good (xpmm s)"
  shows "isl x \<and> ctl s' = None \<or>
    x = Inr () \<and> (\<exists>c. installed c s' \<and> info c = i \<and> command_ring_len c = 256 \<and> event_ring_len c = 256 \<and> blocks_ok (xpmm s) c)"
  using assms by (rule init_controller_outcome)

theorem init_controller_installs_disjoint_rings_witness:
  "\<exists>s' c. init_controller example_info (example_sys None) = Inr (Inr (), s') \<and> installed c s' \<and> info c = example_info \<and>
     blocks_ok \<lparr>NEXT_FREE = 0x100000, LIMIT = 0x200000\<rparr> c"
proof -
  obtain s' where s': "init_controller example_info (example_sys None) = Inr (Inr (), s')" using example_starts by blast
  have "ctl (example_sys None) = None" "pmm_good (xpmm (example_sys None))" by (simp_all add: example_sys_def pmm_good_def)
  from init_controller_installs_disjoint_rings [OF s' this] obtain c where
    "installed c s'" "info c = example_info" "blocks_ok (xpmm (example_sys None)) c" by auto
  then show ?thesis using s' by (auto simp: example_sys_def)
qed

text \<open>C7: Each of the three functions that enqueue a command (a no-op, a command without and one with a
  slot) is one producer step of the ring protocol, whatever is outstanding: the call returns with
  the lock free and without ringing a doorbell, the block it describes has been appended to the
  command ring with the ring's cycle bit, nothing else of the ring has changed and the driver's
  indices are those of the protocol.\<close>
theorem commands_refine_ring_protocol:
  assumes "ctl s = Some c" and "\<not> held s" and "command_ring_len c = 256" and "command_view c s r"
    and "ty < 64" and "ty \<noteq> TRB_TYPE_LINK"
  shows "posts_command enqueue_noop_command
      \<lparr>parameter = 0, status = 0, control = command_control TRB_TYPE_NO_OP_COMMAND (command_ring_cycle c)\<rparr> c s r \<and>
    posts_command (enqueue_command_trb ty p st)
      \<lparr>parameter = p, status = st, control = command_control ty (command_ring_cycle c)\<rparr> c s r \<and>
    posts_command (enqueue_command_trb_slot ty p st k)
      \<lparr>parameter = p, status = st, control = command_control ty (command_ring_cycle c) OR push_bit 16 (ucast k)\<rparr> c s r"
  using noop_command_posts [OF assms(1-4)] slot_command_posts [OF assms, of p st] slot_command_posts [OF assms, of p st 0]
  by (simp add: slotless_command)

theorem commands_refine_ring_protocol_witness:
  "\<exists>s' r'. enqueue_command_trb_slot TRB_TYPE_ADDRESS_DEVICE 0x104000 0 3 (example_sys (Some example_state)) = Inr ((), s') \<and>
     ring_step 0x100000 256 example_ring r' \<and> r_mem r' = ram s' \<and> length (produced r') = 1 \<and> control (produced r' ! 0) = 0x32C21"
proof -
  have "posts_command (enqueue_command_trb_slot TRB_TYPE_ADDRESS_DEVICE 0x104000 0 3) \<lparr>parameter = 0x104000, status = 0,
      control = command_control TRB_TYPE_ADDRESS_DEVICE (command_ring_cycle example_state) OR push_bit 16 (ucast (3 :: u8))\<rparr>
      example_state (example_sys (Some example_state)) example_ring"
    using commands_refine_ring_protocol [of "example_sys (Some example_state)" example_state example_ring TRB_TYPE_ADDRESS_DEVICE "0x104000" 0 3]
    by (simp add: example_sys_def example_state_def initial_state_def CMD_RING_TRBS_def
        command_view_def example_ring_def TRB_TYPE_ADDRESS_DEVICE_def TRB_TYPE_LINK_def)
  then obtain s' c' r' where "enqueue_command_trb_slot TRB_TYPE_ADDRESS_DEVICE 0x104000 0 3 (example_sys (Some example_state)) = Inr ((), s')"
    "command_view c' s' r'" "ring_step (command_ring_phys example_state) 256 example_ring r'"
    "produced r' = [\<lparr>parameter = 0x104000, status = 0,
      control = command_control TRB_TYPE_ADDRESS_DEVICE (command_ring_cycle example_state) OR push_bit 16 (ucast (3 :: u8))\<rparr>]"
    by (auto simp: posts_command_def example_ring_def)
  then show ?thesis
    by (intro exI [of _ s'] exI [of _ r']) (simp add: command_view_def example_state_def initial_state_def command_control_def TRB_TYPE_ADDRESS_DEVICE_def)
qed

text \<open>C34: A control transfer puts its setup, data and status stages on the control endpoint's ring in
  this order, each as one producer step of the ring protocol, and rings the slot's doorbell once, after
  the third: the memory at the moment of that register write, the only one before it waits for the
  transfer event, is the ring with all three blocks stored.\<close>
theorem control_in_posts_three_stages:
  assumes "ctl s = Some c" and "\<not> held s" and "ep0_ring_len c = 64" and "ep0_view c s r" and "info_base (info c) \<noteq> 0"
  shows "\<exists>s' c' r' t1 t2 t3 fin. control_in slot rt rq val idx len buf s = await_transfer 1000000 fin False s' \<and>
    ctl s' = Some c' \<and> ep0_view c' s' r' \<and> ring_reach (ep0_ring_phys c) 64 r r' \<and> produced r' = produced r @ [t1, t2, t3] \<and>
    consumed r' = consumed r \<and> reg_out s' = reg_out s @ [(doorbells (info c) + of_nat (unat slot * 4), 1, r_mem r')] \<and>
    map trb_type [t1, t2, t3] = [TRB_TYPE_SETUP_STAGE, TRB_TYPE_DATA_STAGE, TRB_TYPE_STATUS_STAGE] \<and>
    parameter t1 = setup_param rt rq val idx len \<and> status t1 = 8 \<and> parameter t2 = buf \<and> status t2 = ucast len"
proof -
  let ?k1 = "push_bit 10 (TRB_TYPE_SETUP_STAGE AND 0x3F)" and ?k2 = "push_bit 10 (TRB_TYPE_DATA_STAGE AND 0x3F) OR push_bit 16 1"
    and ?k3 = "push_bit 10 (TRB_TYPE_STATUS_STAGE AND 0x3F) OR push_bit 16 0"
  have k: "drop_bit 10 ?k1 AND 0x3F \<noteq> TRB_TYPE_LINK" "drop_bit 10 ?k2 AND 0x3F \<noteq> TRB_TYPE_LINK" "drop_bit 10 ?k3 AND 0x3F \<noteq> TRB_TYPE_LINK"
    "\<not> bit ?k1 0" "\<not> bit ?k2 0" "\<not> bit ?k3 0"
    by (simp_all add: TRB_TYPE_SETUP_STAGE_def TRB_TYPE_DATA_STAGE_def TRB_TYPE_STATUS_STAGE_def TRB_TYPE_LINK_def bit_or_iff bit_push_bit_iff)
  let ?t = "\<lambda>p st ct r. \<lparr>parameter = p, status = st, control = ct OR push_bit 5 1 OR (if r_cycle r then 1 else 0)\<rparr>"
  have ty: "trb_type (?t p st ?k1 r) = TRB_TYPE_SETUP_STAGE" "trb_type (?t p st ?k2 r) = TRB_TYPE_DATA_STAGE"
    "trb_type (?t p st ?k3 r) = TRB_TYPE_STATUS_STAGE" for p st and r :: ring_sys
    by (simp_all add: trb_type_def TRB_TYPE_SETUP_STAGE_def TRB_TYPE_DATA_STAGE_def TRB_TYPE_STATUS_STAGE_def)
  obtain s1 c1 r1 where 1: "ep0_stage (setup_param rt rq val idx len) 8 ?k1 s = Inr ((), s1)" "ctl s1 = Some c1" "fixed_part c1 = fixed_part c"
    "ep0_ring_len c1 = 64" "ep0_ring_phys c1 = ep0_ring_phys c" "\<not> held s1" "reg_out s1 = reg_out s" "ep0_view c1 s1 r1"
    "ring_step (ep0_ring_phys c) 64 r r1" "consumed r1 = consumed r"
    "produced r1 = produced r @ [?t (setup_param rt rq val idx len) 8 ?k1 r]"
    using ep0_stage_step [OF assms(1-4) k(1,4)] by force
  obtain s2 c2 r2 where 2: "ep0_stage buf (ucast len) ?k2 s1 = Inr ((), s2)" "ctl s2 = Some c2" "fixed_part c2 = fixed_part c1"
    "ep0_ring_len c2 = 64" "ep0_ring_phys c2 = ep0_ring_phys c1" "\<not> held s2" "reg_out s2 = reg_out s1" "ep0_view c2 s2 r2"
    "ring_step (ep0_ring_phys c1) 64 r1 r2" "consumed r2 = consumed r1" "produced r2 = produced r1 @ [?t buf (ucast len) ?k2 r1]"
    using ep0_stage_step [OF 1(2,6,4,8) k(2,5)] by force
  obtain s3 c3 r3 where 3: "ep0_stage 0 0 ?k3 s2 = Inr ((), s3)" "ctl s3 = Some c3" "fixed_part c3 = fixed_part c2"
    "ep0_ring_len c3 = 64" "ep0_ring_phys c3 = ep0_ring_phys c2" "\<not> held s3" "reg_out s3 = reg_out s2" "ep0_view c3 s3 r3"
    "ring_step (ep0_ring_phys c2) 64 r2 r3" "consumed r3 = consumed r2" "produced r3 = produced r2 @ [?t 0 0 ?k3 r2]"
    using ep0_stage_step [OF 2(2,6,4,8) k(3,6)] by force
  have i: "info c3 = info c" using 1(3) 2(3) 3(3) by (simp add: fixed_part_def)
  let ?s = "s3\<lparr>reg_out := reg_out s3 @ [(doorbells (info c) + of_nat (unat slot * 4), 1, ram s3)]\<rparr>"
  have d: "ring_ep0 slot s3 = Inr ((), ?s)"
    using 3(2,6) i assms(5)
    by (simp add: ring_ep0_def ring_doorbell_def with_state_def lock_def unlock_def ring_db_def write_reg_def bindx_def thenx_def upd_def ret_def)
  have "\<exists>fin. control_in slot rt rq val idx len buf s = await_transfer 1000000 fin False ?s"
    using 1(1) 2(1) 3(1) d by (auto simp: control_in_def thenx_def bindx_def)
  then obtain fin where fin: "control_in slot rt rq val idx len buf s = await_transfer 1000000 fin False ?s" ..
  have "ring_reach (ep0_ring_phys c) 64 r r3"
    using 1(5,9) 2(5,9) 3(9) ring_reach.intros [of "ep0_ring_phys c" 64] by metis
  moreover have "ep0_view c3 ?s r3" using 3(8) by (simp add: ep0_view_def)
  ultimately show ?thesis
    using fin ty 1(7,10,11) 2(7,10,11) 3(2,7,8,10,11)
    by (intro exI [of _ ?s] exI [of _ c3] exI [of _ r3] exI [of _ "?t (setup_param rt rq val idx len) 8 ?k1 r"]
        exI [of _ "?t buf (ucast len) ?k2 r1"] exI [of _ "?t 0 0 ?k3 r2"] exI [of _ fin]) (simp add: ep0_view_def)
qed

theorem control_in_posts_three_stages_witness:
  "\<exists>s' r'. ring_reach 0x5000 64 example_ring r' \<and> length (produced r') = 3 \<and> parameter (produced r' ! 0) = 0x0012000001000680 \<and>
     reg_out s' = [(0xFEB0200C, 1, r_mem r')] \<and> (\<exists>fin. control_in 3 0x80 6 0x100 0 18 0x104000
       (example_sys (Some (example_state\<lparr>ep0_ring_phys := 0x5000, ep0_ring_len := 64\<rparr>))) = await_transfer 1000000 fin False s')"
proof -
  let ?c = "example_state\<lparr>ep0_ring_phys := 0x5000, ep0_ring_len := 64\<rparr>"
  let ?s = "example_sys (Some ?c)"
  have h: "ctl ?s = Some ?c" "\<not> held ?s" "ep0_ring_len ?c = 64" "ep0_view ?c ?s example_ring" "info_base (info ?c) \<noteq> 0"
    by (simp_all add: example_sys_def example_state_def initial_state_def example_info_def ep0_view_def example_ring_def)
  from control_in_posts_three_stages [OF h, of 3 "0x80" 6 "0x100" 0 18 "0x104000"] obtain s' r' t1 t2 t3 fin where
    r: "control_in 3 0x80 6 0x100 0 18 0x104000 ?s = await_transfer 1000000 fin False s'"
    "ring_reach (ep0_ring_phys ?c) 64 example_ring r'" "produced r' = produced example_ring @ [t1, t2, t3]"
    "reg_out s' = reg_out ?s @ [(doorbells (info ?c) + of_nat (unat (3 :: u8) * 4), 1, r_mem r')]" "parameter t1 = setup_param 0x80 6 0x100 0 18"
    by blast
  have "setup_param 0x80 6 0x100 0 18 = 0x0012000001000680"
    by (simp add: setup_param_def word_le_def le_word_def upt_rec)
  then show ?thesis
    using r by (intro exI [of _ s'] exI [of _ r']) (auto simp: example_ring_def example_sys_def example_state_def initial_state_def
        example_info_def doorbells_def)
qed

text \<open>C27: Starting the HID polling never succeeds: the call takes the driver's lock and rings the
  doorbell before releasing it, and ringing takes the same lock. No call returns true, and with an
  interrupt ring in place and a report buffer at hand the call deadlocks.\<close>
theorem hid_polling_deadlocks:
  "(\<forall>s s'. start_hid_polling slot ep mp s \<noteq> Inr (True, s')) \<and>
   (\<forall>s c. ctl s = Some c \<longrightarrow> \<not> held s \<longrightarrow> 1 < intr_ring_len c \<longrightarrow> hid_buf_phys c \<noteq> 0 \<longrightarrow>
      start_hid_polling slot ep mp s = Inl Deadlocked)"
proof (intro conjI allI impI)
  fix s s'
  show "start_hid_polling slot ep mp s \<noteq> Inr (True, s')"
  proof
    assume r: "start_hid_polling slot ep mp s = Inr (True, s')"
    show False
    proof (cases "ctl s")
      case None
      then show False using r by (simp add: start_hid_polling_def with_state_def)
    next
      case (Some c)
      let ?s = "s\<lparr>held := True\<rparr>"
      obtain rb sb where hb: "hid_buffer mp c ?s = Inr (rb, sb)" using hid_buffer_Inr by blast
      have sb: "ctl sb = Some c" "held sb" using hid_buffer_cases [OF hb] Some by simp_all
      from with_state_InrD [OF r [unfolded start_hid_polling_def] Some] show False
        using hb hid_post_deadlocks [OF sb] by (auto simp: bindx_def ret_def split: if_splits option.splits sum.splits)
    qed
  qed
next
  fix s :: xsys and c :: ControllerState
  assume "ctl s = Some c" "\<not> held s" "1 < intr_ring_len c" "hid_buf_phys c \<noteq> 0"
  then show "start_hid_polling slot ep mp s = Inl Deadlocked"
    using hid_post_deadlocks [of "s\<lparr>held := True\<rparr>" c]
    by (simp add: start_hid_polling_def with_state_def lock_def hid_buffer_def bindx_def)
qed

theorem hid_polling_deadlocks_witness:
  "start_hid_polling 3 0x81 8 (example_sys (Some (example_state\<lparr>intr_ring_len := 128, hid_buf_phys := 0x9000\<rparr>))) = Inl Deadlocked"
  using hid_polling_deadlocks [of 3 "0x81" 8] by (simp add: example_sys_def)

text \<open>Configuring an interrupt endpoint writes the input context only inside the block allocated
  for it, for every endpoint address and both context sizes.\<close>
theorem endpoint_context_confined:
  "\<exists>s'. fill_endpoint_context (unat (context_size i)) ic (endpoint_id_from_addr a) mp ring s = Inr ((), s') \<and>
     changed s s' \<subseteq> region ic (unat (context_size i) * (1 + 1 + unat (endpoint_id_from_addr a)))"
proof -
  let ?e = "unat (endpoint_id_from_addr a)"
  have e: "?e \<le> 31" by (rule endpoint_id_bound)
  from context_size_cases [of i] show ?thesis
    unfolding fill_endpoint_context_def Let_def
    by (elim disjE) (simp only:, (intro write_u32_then_changed write_u32_changed; use e in simp))+
qed

end
