(* ===== verification/Pci.thy ===== *)
theory Pci
  imports Kernel_Prelude
begin

text \<open>
  PCI configuration access (\<^verbatim>\<open>kernel/src/pci.rs\<close>). The host bridge is the parameter
  \<open>cfg\<close>: the dword that the data port 0xCFC returns after an address has been written to 0xCF8.
  A callback of the source is a state transformer, so an enumeration is the sequence of its calls.
\<close>

section \<open>Configuration reads\<close>

type_synonym cfg = "u32 \<Rightarrow> u32"

record PciAddress =
  bus :: u8
  device :: u8
  func :: u8

definition PciAddress_fmt :: "PciAddress \<Rightarrow> bytes" where
  "PciAddress_fmt a = fmt_hex 2 (bus a) @ str_bytes '':'' @ fmt_hex 2 (device a) @ str_bytes ''.'' @ fmt_dec (func a)"

record Bar =
  base :: u64
  is_memory :: bool
  is_64bit :: bool
  prefetchable :: bool

definition config_address :: "PciAddress \<Rightarrow> u8 \<Rightarrow> u32" where
  "config_address addr offset =
     (let aligned_offset = offset AND NOT 0x03;
          fn = ucast (func addr) :: u32;
          device = ucast (PciAddress.device addr) :: u32;
          bus = ucast (PciAddress.bus addr) :: u32
      in push_bit 31 1 OR push_bit 16 bus OR push_bit 11 device OR push_bit 8 fn OR ucast aligned_offset)"

definition pci_read_u32 :: "cfg \<Rightarrow> PciAddress \<Rightarrow> u8 \<Rightarrow> u32" where
  "pci_read_u32 cfg addr offset = cfg (config_address addr offset)"

definition pci_read_u16 :: "cfg \<Rightarrow> PciAddress \<Rightarrow> u8 \<Rightarrow> u16" where
  "pci_read_u16 cfg addr offset =
     (let value = pci_read_u32 cfg addr offset; shift = (offset AND 0x02) * 8
      in ucast (drop_bit (unat shift) value AND 0xFFFF))"

definition pci_read_u8 :: "cfg \<Rightarrow> PciAddress \<Rightarrow> u8 \<Rightarrow> u8" where
  "pci_read_u8 cfg addr offset =
     (let value = pci_read_u32 cfg addr offset; shift = (offset AND 0x03) * 8
      in ucast (drop_bit (unat shift) value AND 0xFF))"

definition vendor_id :: "cfg \<Rightarrow> PciAddress \<Rightarrow> u16" where
  "vendor_id cfg addr = pci_read_u16 cfg addr 0x00"

definition device_id :: "cfg \<Rightarrow> PciAddress \<Rightarrow> u16" where
  "device_id cfg addr = pci_read_u16 cfg addr 0x02"

definition class_code :: "cfg \<Rightarrow> PciAddress \<Rightarrow> u8" where
  "class_code cfg addr = pci_read_u8 cfg addr 0x0B"

definition pci_subclass :: "cfg \<Rightarrow> PciAddress \<Rightarrow> u8" where
  "pci_subclass cfg addr = pci_read_u8 cfg addr 0x0A"

definition prog_if :: "cfg \<Rightarrow> PciAddress \<Rightarrow> u8" where
  "prog_if cfg addr = pci_read_u8 cfg addr 0x09"

definition header_type :: "cfg \<Rightarrow> PciAddress \<Rightarrow> u8" where
  "header_type cfg addr = pci_read_u8 cfg addr 0x0E"

definition has_function :: "cfg \<Rightarrow> PciAddress \<Rightarrow> bool" where
  "has_function cfg addr \<longleftrightarrow> vendor_id cfg addr \<noteq> 0xFFFF"

section \<open>Enumeration\<close>

definition enumerate_function :: "cfg \<Rightarrow> (PciAddress \<Rightarrow> 's \<Rightarrow> 's) \<Rightarrow> u8 \<Rightarrow> u8 \<Rightarrow> u8 \<Rightarrow> 's \<Rightarrow> 's" where
  "enumerate_function cfg callback b d f s =
     (let addr = \<lparr>bus = b, device = d, func = f\<rparr>
      in if has_function cfg addr then callback addr s else s)"

definition enumerate_device :: "cfg \<Rightarrow> (PciAddress \<Rightarrow> 's \<Rightarrow> 's) \<Rightarrow> u8 \<Rightarrow> u8 \<Rightarrow> 's \<Rightarrow> 's" where
  "enumerate_device cfg callback b d s =
     (let addr = \<lparr>bus = b, device = d, func = 0\<rparr>
      in if \<not> has_function cfg addr then s
         else
           (let s1 = callback addr s;
                header = header_type cfg addr
            in if header AND 0x80 \<noteq> 0
               then fold (enumerate_function cfg callback b d) (map of_nat [1..<8]) s1
               else s1))"

definition pci_enumerate :: "cfg \<Rightarrow> (PciAddress \<Rightarrow> 's \<Rightarrow> 's) \<Rightarrow> 's \<Rightarrow> 's" where
  "pci_enumerate cfg callback s =
     fold (\<lambda>b. fold (enumerate_device cfg callback b) (map of_nat [0..<32])) (map of_nat [0..<256]) s"

definition find_usb_controllers :: "cfg \<Rightarrow> (PciAddress \<Rightarrow> 's \<Rightarrow> 's) \<Rightarrow> 's \<Rightarrow> 's" where
  "find_usb_controllers cfg callback s =
     pci_enumerate cfg
       (\<lambda>addr s. if class_code cfg addr = 0x0C \<and> pci_subclass cfg addr = 0x03 then callback addr s else s) s"

section \<open>Base address registers\<close>

definition pci_bar :: "cfg \<Rightarrow> PciAddress \<Rightarrow> u8 \<Rightarrow> Bar option" where
  "pci_bar cfg addr index =
     (if index \<ge> 6 then None
      else
        (let offset = 0x10 + index * 4;
             value = pci_read_u32 cfg addr offset
         in if value = 0 then None
            else if value AND 0x01 \<noteq> 0 then
              Some \<lparr>base = ucast (value AND NOT 0x3), is_memory = False, is_64bit = False, prefetchable = False\<rparr>
            else
              (let bar_type = drop_bit 1 value AND 0x3;
                   prefetch = value AND push_bit 3 1 \<noteq> 0;
                   lo = ucast (value AND 0xFFFFFFF0) :: u64;
                   wide = bar_type = 0x2;
                   b = (if wide then lo OR push_bit 32 (ucast (pci_read_u32 cfg addr (offset + 4))) else lo)
               in Some \<lparr>base = b, is_memory = True, is_64bit = wide, prefetchable = prefetch\<rparr>)))"

section \<open>The configuration space as bytes\<close>

text \<open>
  The reference view: every function of the machine has 256 configuration bytes, and a host bridge
  decodes the address written to 0xCF8 and returns the addressed dword in little-endian order.
\<close>

definition addr_ok :: "PciAddress \<Rightarrow> bool" where
  "addr_ok a \<longleftrightarrow> device a < 32 \<and> func a < 8"

definition config_target :: "u32 \<Rightarrow> PciAddress \<times> u8" where
  "config_target x =
     (\<lparr>bus = ucast (drop_bit 16 x), device = ucast (drop_bit 11 x AND 0x1F), func = ucast (drop_bit 8 x AND 0x7)\<rparr>,
      ucast x AND 0xFC)"

definition bridge :: "(PciAddress \<Rightarrow> u8 \<Rightarrow> u8) \<Rightarrow> cfg" where
  "bridge cb x = (let (a, r) = config_target x in le_word [cb a r, cb a (r + 1), cb a (r + 2), cb a (r + 3)])"

lemma bit_below:
  assumes "unat (w :: 'a::len word) < 2 ^ n" "bit w m"
  shows "m < n"
proof -
  have "take_bit n (unat w) = unat w" using assms(1) by (simp add: take_bit_nat_eq_self)
  moreover have "bit (unat w) m" using assms(2) by (simp add: bit_unsigned_iff bit_imp_le_length)
  ultimately show ?thesis by (metis bit_take_bit_iff)
qed

lemma config_address_bits:
  assumes "addr_ok a" "al = off AND NOT 3"
  shows "bit (config_address a off) n \<longleftrightarrow> n = 31 \<or> 16 \<le> n \<and> bit (bus a) (n - 16) \<or>
    11 \<le> n \<and> bit (device a) (n - 11) \<or> 8 \<le> n \<and> bit (func a) (n - 8) \<or> bit al n"
    "bit (device a) m \<Longrightarrow> m < 5" "bit (func a) m \<Longrightarrow> m < 3" "bit (bus a) m \<Longrightarrow> m < 8" "bit al m \<Longrightarrow> m < 8"
proof -
  have dev: "bit (device a) k \<Longrightarrow> k < 5" and fn: "bit (func a) k \<Longrightarrow> k < 3" for k
    using assms(1) bit_below [of "device a" 5 k] bit_below [of "func a" 3 k]
    by (simp_all add: addr_ok_def word_less_nat_alt)
  have b8: "bit w k \<Longrightarrow> k < 8" for w :: u8 and k using bit_imp_le_length [of w k] by simp
  show "bit (device a) m \<Longrightarrow> m < 5" "bit (func a) m \<Longrightarrow> m < 3" "bit (bus a) m \<Longrightarrow> m < 8" "bit al m \<Longrightarrow> m < 8"
    using dev fn b8 by simp_all
  have "bit (push_bit 31 (1 :: u32)) n \<longleftrightarrow> n = 31" unfolding bit_push_bit_iff by (auto simp: bit_1_iff)
  moreover have "bit (push_bit 16 (ucast (bus a) :: u32)) n \<longleftrightarrow> 16 \<le> n \<and> bit (bus a) (n - 16)"
    using b8 [of "bus a" "n - 16"] by (auto simp: bit_push_bit_iff bit_unsigned_iff)
  moreover have "bit (push_bit 11 (ucast (device a) :: u32)) n \<longleftrightarrow> 11 \<le> n \<and> bit (device a) (n - 11)"
    using dev [of "n - 11"] by (auto simp: bit_push_bit_iff bit_unsigned_iff)
  moreover have "bit (push_bit 8 (ucast (func a) :: u32)) n \<longleftrightarrow> 8 \<le> n \<and> bit (func a) (n - 8)"
    using fn [of "n - 8"] by (auto simp: bit_push_bit_iff bit_unsigned_iff)
  moreover have "bit (ucast al :: u32) n \<longleftrightarrow> bit al n"
    using b8 [of al n] by (auto simp: bit_unsigned_iff)
  ultimately show "bit (config_address a off) n \<longleftrightarrow> n = 31 \<or> 16 \<le> n \<and> bit (bus a) (n - 16) \<or>
      11 \<le> n \<and> bit (device a) (n - 11) \<or> 8 \<le> n \<and> bit (func a) (n - 8) \<or> bit al n"
    unfolding config_address_def Let_def bit_or_iff assms(2) [symmetric] by blast
qed

lemma config_target_address:
  assumes "addr_ok a"
  shows "config_target (config_address a off) = (a, off AND NOT 3)"
proof -
  define al where al: "al = off AND NOT 3"
  note x = config_address_bits(1) [OF assms al] and lim = config_address_bits(2-5) [OF assms al]
  let ?x = "config_address a off"
  have masks: "(0x1F :: u32) = mask 5" "(7 :: u32) = mask 3" by (simp_all add: mask_eq_exp_minus_1)
  have 1: "ucast (drop_bit 16 ?x) = bus a"
    by (rule bit_word_eqI) (auto simp: bit_unsigned_iff bit_drop_bit_eq x dest: lim)
  have 2: "ucast (drop_bit 11 ?x AND 0x1F) = device a"
    unfolding masks
    by (rule bit_word_eqI) (auto simp: bit_unsigned_iff bit_and_iff bit_drop_bit_eq x bit_mask_iff dest: lim)
  have 3: "ucast (drop_bit 8 ?x AND 0x7) = func a"
    unfolding masks
    by (rule bit_word_eqI) (auto simp: bit_unsigned_iff bit_and_iff bit_drop_bit_eq x bit_mask_iff dest: lim)
  have al3: "bit al n \<longleftrightarrow> bit off n \<and> bit (0xFC :: u8) n" for n
  proof -
    have "NOT 3 = (0xFC :: u8)" by simp
    then show ?thesis unfolding al bit_and_iff by (simp only:)
  qed
  have "ucast ?x AND 0xFC = al"
  proof (rule bit_word_eqI)
    fix n assume "n < LENGTH(8)"
    then have "bit (ucast ?x :: u8) n \<longleftrightarrow> bit al n" by (auto simp: bit_unsigned_iff x)
    then show "bit (ucast ?x AND (0xFC :: u8)) n \<longleftrightarrow> bit al n" by (auto simp: bit_and_iff al3)
  qed
  then show ?thesis unfolding config_target_def 1 2 3 al by simp
qed

lemma bridge_read: "addr_ok a \<Longrightarrow> pci_read_u32 (bridge cb) a off =
    (let r = off AND NOT 3 in le_word [cb a r, cb a (r + 1), cb a (r + 2), cb a (r + 3)])"
  by (simp add: pci_read_u32_def bridge_def config_target_address Let_def)

lemma le_word4_bytes:
  fixes b0 b1 b2 b3 :: u8
  defines "w \<equiv> le_word [b0, b1, b2, b3] :: u32"
  shows "ucast (w AND 0xFF) = b0" "ucast (drop_bit 8 w AND 0xFF) = b1"
    "ucast (drop_bit 16 w AND 0xFF) = b2" "ucast (drop_bit 24 w AND 0xFF) = b3"
    "ucast (w AND 0xFFFF) = (le_word [b0, b1] :: u16)" "ucast (drop_bit 16 w AND 0xFFFF) = (le_word [b2, b3] :: u16)"
proof -
  have m: "(0xFF :: u32) = mask 8" "(0xFFFF :: u32) = mask 16" by (simp_all add: mask_eq_exp_minus_1)
  have b: "bit b0 n \<Longrightarrow> n < 8" "bit b1 n \<Longrightarrow> n < 8" "bit b2 n \<Longrightarrow> n < 8" "bit b3 n \<Longrightarrow> n < 8" for n
    using bit_imp_le_length by fastforce+
  note bits = bit_unsigned_iff bit_and_iff bit_or_iff bit_drop_bit_eq bit_push_bit_iff bit_mask_iff
  show "ucast (w AND 0xFF) = b0" "ucast (drop_bit 8 w AND 0xFF) = b1"
    "ucast (drop_bit 16 w AND 0xFF) = b2" "ucast (drop_bit 24 w AND 0xFF) = b3"
    unfolding w_def m by (rule bit_word_eqI, auto simp: le_word_def bits dest: b)+
  show "ucast (w AND 0xFFFF) = (le_word [b0, b1] :: u16)" "ucast (drop_bit 16 w AND 0xFFFF) = (le_word [b2, b3] :: u16)"
    unfolding w_def m by (rule bit_word_eqI, auto simp: le_word_def bits dest: b)+
qed

lemma low_bits_cases:
  "(off :: u8) AND 3 = 0 \<and> off AND 2 = 0 \<and> off AND NOT 3 = off \<and> off AND NOT 1 = off \<or>
   off AND 3 = 1 \<and> off AND 2 = 0 \<and> off AND NOT 3 = off - 1 \<and> off AND NOT 1 = off - 1 \<or>
   off AND 3 = 2 \<and> off AND 2 = 2 \<and> off AND NOT 3 = off - 2 \<and> off AND NOT 1 = off \<or>
   off AND 3 = 3 \<and> off AND 2 = 2 \<and> off AND NOT 3 = off - 3 \<and> off AND NOT 1 = off - 1"
  by (rule u8_exhaust [of "\<lambda>off. off AND 3 = 0 \<and> off AND 2 = 0 \<and> off AND NOT 3 = off \<and> off AND NOT 1 = off \<or>
   off AND 3 = 1 \<and> off AND 2 = 0 \<and> off AND NOT 3 = off - 1 \<and> off AND NOT 1 = off - 1 \<or>
   off AND 3 = 2 \<and> off AND 2 = 2 \<and> off AND NOT 3 = off - 2 \<and> off AND NOT 1 = off \<or>
   off AND 3 = 3 \<and> off AND 2 = 2 \<and> off AND NOT 3 = off - 3 \<and> off AND NOT 1 = off - 1"]) code_simp

lemma bridge_read_u8: "addr_ok a \<Longrightarrow> pci_read_u8 (bridge cb) a off = cb a off"
  using low_bits_cases [of off]
  by (auto simp only: pci_read_u8_def bridge_read Let_def) (simp_all add: le_word4_bytes)

lemma bridge_read_u16:
  "addr_ok a \<Longrightarrow> pci_read_u16 (bridge cb) a off = le_word [cb a (off AND NOT 1), cb a ((off AND NOT 1) + 1)]"
  using low_bits_cases [of off]
  by (auto simp only: pci_read_u16_def bridge_read Let_def) (simp_all add: le_word4_bytes, simp add: add.commute)

section \<open>The functions of the machine\<close>

definition all_addresses :: "PciAddress list" where
  "all_addresses = map (\<lambda>(b, d, f). \<lparr>bus = of_nat b, device = of_nat d, func = of_nat f\<rparr>)
     (List.product [0..<256] (List.product [0..<32] [0..<8]))"

definition present :: "cfg \<Rightarrow> PciAddress \<Rightarrow> bool" where
  "present cfg a \<longleftrightarrow> has_function cfg (a\<lparr>func := 0\<rparr>) \<and>
     (func a = 0 \<or> header_type cfg (a\<lparr>func := 0\<rparr>) AND 0x80 \<noteq> 0 \<and> has_function cfg a)"

definition pci_functions :: "cfg \<Rightarrow> PciAddress list" where
  "pci_functions cfg = filter (present cfg) all_addresses"

definition is_usb :: "cfg \<Rightarrow> PciAddress \<Rightarrow> bool" where
  "is_usb cfg a \<longleftrightarrow> class_code cfg a = 0x0C \<and> pci_subclass cfg a = 0x03"

lemma fold_concat_map: "fold (\<lambda>x. fold f (g x)) xs s = fold f (concat (map g xs)) s"
  by (induction xs arbitrary: s) simp_all

lemma fold_filter_if: "fold (\<lambda>x s. if P x then f x s else s) xs s = fold f (filter P xs) s"
  by (induction xs arbitrary: s) simp_all

lemma enumerate_device_fold:
  "enumerate_device cfg callback b d =
     fold callback (filter (present cfg) (map (\<lambda>f. \<lparr>bus = b, device = d, func = of_nat f\<rparr>) [0..<8]))"
proof (rule ext)
  fix s
  let ?A = "\<lambda>f :: nat. \<lparr>bus = b, device = d, func = of_nat f\<rparr> :: PciAddress"
  have split8: "map ?A [0..<8] = ?A 0 # map ?A [Suc 0..<8]" by (simp add: upt_conv_Cons)
  have f0: "of_nat f \<noteq> (0 :: u8)" if "f \<in> set [Suc 0..<8]" for f :: nat
    using that by (simp add: word_unat_eq_iff unat_of_nat)
  have rest: "fold (enumerate_function cfg callback b d) (map of_nat [Suc 0..<8]) s1 =
      fold callback (filter (has_function cfg) (map ?A [Suc 0..<8])) s1" for s1
    unfolding fold_map comp_def enumerate_function_def Let_def
    using fold_filter_if [of "has_function cfg" callback "map ?A [Suc 0..<8]" s1] by (simp add: fold_map comp_def)
  have tail: "filter (present cfg) (map ?A [Suc 0..<8]) =
      (if has_function cfg (?A 0) \<and> header_type cfg (?A 0) AND 0x80 \<noteq> 0 then filter (has_function cfg) (map ?A [Suc 0..<8]) else [])"
    using f0 by (auto simp: filter_map comp_def present_def filter_empty_conv intro!: arg_cong [of _ _ "map ?A"] filter_cong)
  show "enumerate_device cfg callback b d s = fold callback (filter (present cfg) (map ?A [0..<8])) s"
    unfolding split8 filter.simps tail
    by (simp add: enumerate_device_def Let_def rest present_def)
qed

lemma pci_enumerate_fold: "pci_enumerate cfg callback s = fold callback (pci_functions cfg) s"
proof -
  have conc: "filter P (map h (List.product xs ys)) = concat (map (\<lambda>x. filter P (map (\<lambda>y. h (x, y)) ys)) xs)"
    for P :: "'b \<Rightarrow> bool" and h :: "'c \<times> 'd \<Rightarrow> 'b" and xs ys
    by (induction xs) (simp_all add: comp_def)
  let ?row = "\<lambda>b d. filter (present cfg) (map (\<lambda>f. \<lparr>bus = b, device = of_nat d, func = of_nat f\<rparr>) [0..<8])"
  have dev: "fold (enumerate_device cfg callback b) (map of_nat [0..<32]) =
      fold callback (concat (map (?row b) [0..<32]))" for b
    by (rule ext) (simp only: enumerate_device_fold fold_map comp_def flip: fold_concat_map)
  show ?thesis
    unfolding pci_enumerate_def pci_functions_def all_addresses_def conc dev
    by (simp only: fold_map comp_def fold_concat_map prod.case conc)
qed

lemma all_addresses_set: "a \<in> set all_addresses \<longleftrightarrow> addr_ok a"
proof
  assume "addr_ok a"
  then have "unat (device a) < 32" "unat (func a) < 8" by (simp_all add: addr_ok_def word_less_nat_alt)
  moreover have "unat (bus a) < 256" using unsigned_less [of "bus a"] by simp
  moreover have "a = (\<lambda>(b, d, f). \<lparr>bus = of_nat b, device = of_nat d, func = of_nat f\<rparr>) (unat (bus a), unat (device a), unat (func a))"
    by simp
  ultimately show "a \<in> set all_addresses"
    unfolding all_addresses_def set_map by (intro image_eqI [of a _ "(unat (bus a), unat (device a), unat (func a))"]) auto
next
  assume "a \<in> set all_addresses"
  then show "addr_ok a" by (auto simp: all_addresses_def addr_ok_def word_less_nat_alt unat_of_nat)
qed

lemma all_addresses_distinct: "distinct all_addresses"
proof -
  have "inj_on (\<lambda>(b, d, f). \<lparr>bus = of_nat b, device = of_nat d, func = of_nat f\<rparr> :: PciAddress)
      (set (List.product [0..<256] (List.product [0..<32] [0..<8])))"
    by (auto simp: inj_on_def word_unat_eq_iff unat_of_nat)
  then show ?thesis unfolding all_addresses_def distinct_map by (simp add: distinct_product)
qed

section \<open>Images of base address registers\<close>

definition bar_ok :: "Bar \<Rightarrow> bool" where
  "bar_ok b \<longleftrightarrow>
     (if is_memory b then
        base b AND 0xF = 0 \<and> (is_64bit b \<or> base b < 2 ^ 32) \<and> (base b \<noteq> 0 \<or> is_64bit b \<or> prefetchable b)
      else base b AND 0x3 = 0 \<and> base b < 2 ^ 32 \<and> \<not> is_64bit b \<and> \<not> prefetchable b)"

definition bar_flags :: "Bar \<Rightarrow> u32" where
  "bar_flags b = (if is_memory b then (if prefetchable b then 8 else 0) OR (if is_64bit b then 4 else 0) else 1)"

definition bar_low :: "Bar \<Rightarrow> u32" where
  "bar_low b = ucast (base b) OR bar_flags b"

definition bar_high :: "Bar \<Rightarrow> u32" where
  "bar_high b = ucast (drop_bit 32 (base b))"

lemma or_low_nibble:
  fixes v :: u32
  assumes "x AND 0xF = 0" "fl AND NOT 0xF = 0" "v = x OR fl"
  shows "v AND 0xF = fl" "v AND 0xFFFFFFF0 = x" "v = 0 \<longleftrightarrow> x = 0 \<and> fl = 0"
proof -
  have f: "fl AND 0xF = fl"
  proof -
    have "fl = (fl AND 0xF) OR (fl AND NOT 0xF)" by (simp only: bit.conj_disj_distrib [symmetric] bit.disj_cancel_right and.right_neutral)
    with assms(2) show ?thesis by (metis or.right_neutral)
  qed
  have xx: "x AND NOT 0xF = x"
  proof -
    have "x = (x AND 0xF) OR (x AND NOT 0xF)" by (simp only: bit.conj_disj_distrib [symmetric] bit.disj_cancel_right and.right_neutral)
    with assms(1) show ?thesis by (metis or.left_neutral)
  qed
  show "v AND 0xF = fl" unfolding assms(3) bit.conj_disj_distrib2 assms(1) f by simp
  have "(0xFFFFFFF0 :: u32) = NOT 0xF" by simp
  then show "v AND 0xFFFFFFF0 = x" unfolding assms(3) bit.conj_disj_distrib2 by (simp only: xx assms(2) or.right_neutral)
  show "v = 0 \<longleftrightarrow> x = 0 \<and> fl = 0" unfolding assms(3) by (rule or_eq_0_iff)
qed

lemma nibble_fields:
  fixes v :: u32
  shows "v AND 1 = (v AND 0xF) AND 1" "drop_bit 1 v AND 3 = drop_bit 1 (v AND 0xF) AND 3" "v AND 8 = (v AND 0xF) AND 8"
proof -
  show "v AND 1 = (v AND 0xF) AND 1" "v AND 8 = (v AND 0xF) AND 8" by (simp_all add: and.assoc)
  have "drop_bit 1 (v AND 0xF) AND 3 = (drop_bit 1 v AND drop_bit 1 0xF) AND 3" by (simp only: drop_bit_and)
  then show "drop_bit 1 v AND 3 = drop_bit 1 (v AND 0xF) AND 3" by (simp add: and.assoc)
qed

lemma split_u64: "(ucast (ucast w :: u32) :: u64) OR push_bit 32 (ucast (ucast (drop_bit 32 w) :: u32)) = w" for w :: u64
proof (rule bit_word_eqI)
  fix n assume "n < LENGTH(64)"
  then show "bit ((ucast (ucast w :: u32) :: u64) OR push_bit 32 (ucast (ucast (drop_bit 32 w) :: u32))) n \<longleftrightarrow> bit w n"
    by (auto simp: bit_or_iff bit_unsigned_iff bit_push_bit_iff bit_drop_bit_eq)
qed

lemma ucast_low: "(w :: u64) < 2 ^ 32 \<Longrightarrow> ucast (ucast w :: u32) = w"
  by (simp add: word_unat_eq_iff unsigned_ucast_eq unsigned_take_bit_eq take_bit_nat_eq_self word_less_nat_alt)

lemma ucast_and_low: "(ucast (w :: u64) :: u32) AND 0xF = ucast (w AND 0xF)" "(ucast w :: u32) AND 3 = ucast (w AND 3)"
  by (simp_all add: unsigned_and_eq)

lemma memory_bar_fields:
  assumes "bar_ok b" "is_memory b" "v = bar_low b"
  shows "v \<noteq> 0" "v AND 1 = 0" "drop_bit 1 v AND 3 = 2 \<longleftrightarrow> is_64bit b" "v AND 8 = 0 \<longleftrightarrow> \<not> prefetchable b"
    "v AND 0xFFFFFFF0 = ucast (base b)"
proof -
  let ?x = "ucast (base b) :: u32"
  have x: "?x AND 0xF = 0" using assms(1,2) by (simp add: bar_ok_def ucast_and_low)
  have fl: "bar_flags b AND NOT 0xF = 0" by (simp add: bar_flags_def)
  note nib = or_low_nibble [OF x fl assms(3) [unfolded bar_low_def]]
  show "v \<noteq> 0"
  proof
    assume "v = 0"
    then have "?x = 0" "bar_flags b = 0" using nib(3) by simp_all
    then have "\<not> is_64bit b" "\<not> prefetchable b" using assms(2) by (auto simp: bar_flags_def split: if_splits)
    moreover from this have "base b = ucast ?x" using assms(1,2) ucast_low [of "base b"] by (simp add: bar_ok_def)
    ultimately show False using assms(1,2) \<open>?x = 0\<close> by (simp add: bar_ok_def)
  qed
  show "v AND 1 = 0" "drop_bit 1 v AND 3 = 2 \<longleftrightarrow> is_64bit b" "v AND 8 = 0 \<longleftrightarrow> \<not> prefetchable b"
    unfolding nibble_fields [of v] nib(1) using assms(2) by (simp_all add: bar_flags_def)
  show "v AND 0xFFFFFFF0 = ?x" using nib(2) by simp
qed

lemma io_bar_fields:
  assumes "bar_ok b" "\<not> is_memory b" "v = bar_low b"
  shows "v AND 1 = 1" "v \<noteq> 0" "v AND NOT 3 = ucast (base b)"
proof -
  let ?x = "ucast (base b) :: u32"
  have x: "?x AND 3 = 0" using assms(1,2) by (simp add: bar_ok_def ucast_and_low)
  have v: "v = ?x OR 1" using assms by (simp add: bar_low_def bar_flags_def)
  have "?x AND 1 = (?x AND 3) AND 1" by (simp add: and.assoc)
  then have "?x AND 1 = 0" by (simp add: x)
  then show one: "v AND 1 = 1" by (simp only: v bit.conj_disj_distrib2) simp
  then show "v \<noteq> 0" by auto
  have "?x = (?x AND 3) OR (?x AND NOT 3)" by (simp only: bit.conj_disj_distrib [symmetric] bit.disj_cancel_right and.right_neutral)
  then have "?x AND NOT 3 = ?x" by (simp add: x)
  then show "v AND NOT 3 = ?x" by (simp only: v bit.conj_disj_distrib2) simp
qed

lemma pci_bar_decodes:
  assumes "bar_ok b" "i < 6" "pci_read_u32 cfg a (0x10 + i * 4) = bar_low b"
    and "is_64bit b \<Longrightarrow> pci_read_u32 cfg a (0x10 + i * 4 + 4) = bar_high b"
  shows "pci_bar cfg a i = Some b"
proof -
  have low: "\<not> is_64bit b \<Longrightarrow> ucast (ucast (base b) :: u32) = base b"
    using assms(1) ucast_low [of "base b"] by (simp add: bar_ok_def split: if_splits)
  have high: "ucast (ucast (base b) :: u32) OR push_bit 32 (ucast (bar_high b)) = base b" by (simp add: bar_high_def split_u64)
  have "pci_bar cfg a i = Some \<lparr>base = base b, is_memory = is_memory b, is_64bit = is_64bit b, prefetchable = prefetchable b\<rparr>"
  proof (cases "is_memory b")
    case True
    then show ?thesis using assms(2-4) low high by (simp add: pci_bar_def Let_def memory_bar_fields [OF assms(1) True refl, simplified])
  next
    case False
    then show ?thesis using assms low by (simp add: pci_bar_def Let_def io_bar_fields [OF assms(1) False refl, simplified] bar_ok_def)
  qed
  then show ?thesis by simp
qed

section \<open>Properties\<close>

text \<open>The address the code writes to 0xCF8 names exactly the function and dword it means: on a
  bridge that decodes that address over each function's configuration bytes, byte and word reads
  return the bytes of that function at that offset, so no two functions or dwords are confused.\<close>
theorem config_reads_named_bytes:
  assumes "addr_ok a"
  shows "pci_read_u8 (bridge cb) a off = cb a off \<and>
    pci_read_u16 (bridge cb) a off = le_word [cb a (off AND NOT 1), cb a ((off AND NOT 1) + 1)] \<and>
    config_target (config_address a off) = (a, off AND NOT 3)"
  using assms by (simp only: bridge_read_u8 bridge_read_u16 config_target_address)

theorem config_reads_named_bytes_witness:
  "pci_read_u8 (bridge (\<lambda>a off. bus a + device a + func a + off)) \<lparr>bus = 3, device = 31, func = 7\<rparr> 0x0B = 0x34"
  using config_reads_named_bytes [of "\<lparr>bus = 3, device = 31, func = 7\<rparr>" "\<lambda>a off. bus a + device a + func a + off" "0x0B"]
  by (simp add: addr_ok_def)

text \<open>C20: Enumeration calls the callback exactly once for every function present in the machine, in
  the order of bus, device and function number: function 0 of a device must answer, and the
  functions above 0 count only where it says the device has several; the search for USB
  controllers calls its callback for exactly those of class 0x0C, subclass 0x03.\<close>
theorem enumerate_calls_each_function_once:
  "pci_enumerate cfg callback s = fold callback (pci_functions cfg) s \<and>
   distinct (pci_functions cfg) \<and>
   (\<forall>a. a \<in> set (pci_functions cfg) \<longleftrightarrow> addr_ok a \<and> present cfg a) \<and>
   find_usb_controllers cfg callback s = fold callback (filter (is_usb cfg) (pci_functions cfg)) s"
proof (intro conjI)
  show "pci_enumerate cfg callback s = fold callback (pci_functions cfg) s" by (rule pci_enumerate_fold)
  show "distinct (pci_functions cfg)" by (simp add: pci_functions_def all_addresses_distinct)
  show "\<forall>a. a \<in> set (pci_functions cfg) \<longleftrightarrow> addr_ok a \<and> present cfg a"
    by (simp add: pci_functions_def all_addresses_set conj_commute)
  show "find_usb_controllers cfg callback s = fold callback (filter (is_usb cfg) (pci_functions cfg)) s"
    unfolding find_usb_controllers_def pci_enumerate_fold is_usb_def [symmetric] by (rule fold_filter_if)
qed

text \<open>A base address register is decoded to what the device put into it: a 32-bit or 64-bit memory
  window with its prefetchable bit, or an I/O window; the upper half of a 64-bit base comes from
  the next register.\<close>
theorem bar_round_trip:
  assumes "bar_ok b" "i < 6" "pci_read_u32 cfg a (0x10 + i * 4) = bar_low b"
    and "is_64bit b \<longrightarrow> pci_read_u32 cfg a (0x10 + i * 4 + 4) = bar_high b"
  shows "pci_bar cfg a i = Some b"
  using pci_bar_decodes [OF assms(1-3)] assms(4) by blast

theorem bar_round_trip_witness:
  "pci_bar (\<lambda>x. if x = 0x80002010 then 0xFEBF000C else if x = 0x80002014 then 0x8 else 0)
     \<lparr>bus = 0, device = 4, func = 0\<rparr> 0 =
   Some \<lparr>base = 0x8FEBF0000, is_memory = True, is_64bit = True, prefetchable = True\<rparr>"
  by (rule bar_round_trip)
    (simp_all add: bar_ok_def pci_read_u32_def config_address_def bar_low_def bar_high_def bar_flags_def)

end
