(* ===== verification/Usb_Probe.thy ===== *)
theory Usb_Probe
  imports Xhci_Start Pci
begin

text \<open>
  The bring-up of USB controllers (\<^verbatim>\<open>log_usb_controllers\<close> of \<^verbatim>\<open>kernel/src/main.rs\<close>): every USB
  function on the PCI bus is logged, and each xHCI controller is inspected, started and, step by
  step, its first device addressed and configured as a keyboard. The steps are those of the driver
  in their order; the first that fails ends the chain with its message.
\<close>

section \<open>The bring-up chain\<close>

definition debug_out :: "bytes \<Rightarrow> unit xm" where
  "debug_out msg = upd (\<lambda>s. s\<lparr>xio := outb_all 0xE9 msg (xio s)\<rparr>)"

definition say :: "string \<Rightarrow> unit xm" where
  "say msg = log_str (str_bytes msg @ CRLF)"

definition start_keyboard :: "u8 \<Rightarrow> hid_endpoint \<Rightarrow> unit xm" where
  "start_keyboard slot ep =
     (let (ep_addr, maxp, interval) = ep
      in thenx (log_fmt (str_bytes ''[hid] keyboard ep='' @ fmt_alt_hex 0 ep_addr @ str_bytes '' maxp='' @ fmt_dec maxp @
             str_bytes '' interval='' @ fmt_dec interval @ CRLF))
        (bindx (configure_interrupt_in_endpoint slot ep_addr maxp interval) (\<lambda>ok.
           if ok
           then thenx (say ''[hid] interrupt endpoint configured'')
                  (bindx (start_hid_polling slot ep_addr maxp) (\<lambda>ok.
                     if ok then say ''[hid] polling started'' else say ''[hid] failed to start polling''))
           else say ''[hid] configure endpoint failed'')))"

definition find_keyboard :: "u8 \<Rightarrow> u64 \<Rightarrow> u16 \<Rightarrow> unit xm" where
  "find_keyboard slot cfg_phys total_len =
     bindx (get ram) (\<lambda>m. bindx (expect (parse_hid_keyboard_endpoint m cfg_phys total_len)) (\<lambda>r. case r of
       Some ep \<Rightarrow> start_keyboard slot ep
     | None \<Rightarrow> say ''[hid] no keyboard endpoint found''))"

definition configure_device :: "u8 \<Rightarrow> unit xm" where
  "configure_device slot =
     bindx (get_device_descriptor slot) (\<lambda>r. case r of
       None \<Rightarrow> say ''[xhci] failed to read device descriptor''
     | Some dev_desc_phys \<Rightarrow>
         thenx (log_fmt (str_bytes ''[xhci] device descriptor at '' @ fmt_alt_hex 0 dev_desc_phys @ CRLF))
        (bindx (get_configuration_descriptor_header slot) (\<lambda>r. case r of
           None \<Rightarrow> say ''[xhci] failed to read config header''
         | Some (hdr_phys, total_len, cfg_val) \<Rightarrow>
             thenx (log_fmt (str_bytes ''[xhci] config header at '' @ fmt_alt_hex 0 hdr_phys @ str_bytes '' total_len='' @ fmt_dec total_len @
                      str_bytes '' cfg='' @ fmt_dec cfg_val @ CRLF))
            (bindx (get_configuration_descriptor slot total_len) (\<lambda>r. case r of
               None \<Rightarrow> say ''[xhci] failed to read full config descriptor''
             | Some cfg_phys \<Rightarrow>
                 thenx (log_fmt (str_bytes ''[xhci] config descriptor at '' @ fmt_alt_hex 0 cfg_phys @ CRLF))
                (bindx (set_configuration slot cfg_val) (\<lambda>ok.
                   if ok then thenx (say ''[xhci] configuration set'') (find_keyboard slot cfg_phys total_len)
                   else say ''[xhci] set configuration failed'')))))))"

definition bring_up_device :: "unit xm" where
  "bring_up_device =
     bindx enable_slot (\<lambda>r. case r of
       None \<Rightarrow> say ''[xhci] enable slot failed''
     | Some slot \<Rightarrow>
         thenx (log_fmt (str_bytes ''[xhci] slot '' @ fmt_dec slot @ str_bytes '' enabled'' @ CRLF))
        (bindx (address_device slot) (\<lambda>ok.
           if ok then thenx (say ''[xhci] device addressed'') (configure_device slot)
           else say ''[xhci] address device failed'')))"

definition bring_up_controller :: "XhciInfo \<Rightarrow> unit xm" where
  "bring_up_controller i =
     thenx (log_fmt (str_bytes ''[xhci] base='' @ fmt_alt_hex 16 (info_base i) @ str_bytes '' caplen='' @ fmt_dec (cap_length i) @
              str_bytes '' version='' @ fmt_hex 4 (hci_version i) @ str_bytes '' slots='' @ fmt_dec (max_slots i) @
              str_bytes '' ports='' @ fmt_dec (max_ports i) @ str_bytes '' ctx='' @ fmt_dec (context_size i) @
              str_bytes '' dboff='' @ fmt_alt_hex 0 (dboff i) @ str_bytes '' rtsoff='' @ fmt_alt_hex 0 (rtsoff i) @ CRLF))
    (bindx (init_controller i) (\<lambda>r. case r of
       Inr _ \<Rightarrow>
         thenx (say ''[xhci] controller initialized'')
        (thenx report_ports
        (thenx poll_events
        (thenx (bindx ensure_first_port_enabled (\<lambda>ok. if ok then ret () else say ''[xhci] no enabled port''))
        (thenx bring_up_device
        (thenx poll_events (ret ()))))))
     | Inl err \<Rightarrow> log_fmt (str_bytes ''[xhci] init failed: '' @ str_bytes err @ CRLF)))"

definition probe_usb :: "cfg \<Rightarrow> PciAddress \<Rightarrow> unit xm" where
  "probe_usb cfg addr =
     thenx (log_fmt (str_bytes ''[pci] usb '' @ PciAddress_fmt addr @ str_bytes '' vendor='' @ fmt_hex 4 (vendor_id cfg addr) @
              str_bytes '' device='' @ fmt_hex 4 (device_id cfg addr) @ str_bytes '' class='' @ fmt_hex 2 (class_code cfg addr) @
              str_bytes '' sub='' @ fmt_hex 2 (pci_subclass cfg addr) @ str_bytes '' if='' @ fmt_hex 2 (prog_if cfg addr) @ CRLF))
    (if prog_if cfg addr = 0x30
     then (case pci_bar cfg addr 0 of
             None \<Rightarrow> say ''[xhci] missing bar0''
           | Some bar \<Rightarrow>
               if is_memory bar
               then bindx (inspect (Bar.base bar)) (\<lambda>r. case r of
                      Some i \<Rightarrow> bring_up_controller i
                    | None \<Rightarrow> say ''[xhci] failed to read capability registers'')
               else say ''[xhci] bar0 is not memory-mapped'')
     else ret ())"

text \<open>The callback of the enumeration counts and probes; once it has stopped nothing runs any more.\<close>

definition on_usb :: "cfg \<Rightarrow> PciAddress \<Rightarrow> stop + nat \<times> xsys \<Rightarrow> stop + nat \<times> xsys" where
  "on_usb cfg addr st =
     (case st of Inl e \<Rightarrow> Inl e | Inr (found, s) \<Rightarrow> thenx (probe_usb cfg addr) (ret (found + 1)) s)"

definition log_usb_controllers :: "cfg \<Rightarrow> unit xm" where
  "log_usb_controllers cfg =
     thenx (debug_out (str_bytes ''kmain: pci scan'' @ [10]))
    (bindx (\<lambda>s. find_usb_controllers cfg (on_usb cfg) (Inr (0, s))) (\<lambda>found.
     thenx (if found = 0 then say ''[pci] no usb controllers found'' else ret ())
           (debug_out (str_bytes ''kmain: pci scan done'' @ [10]))))"

section \<open>The controller state stays well formed\<close>

definition state_ok :: "ControllerState \<Rightarrow> bool" where
  "state_ok c \<longleftrightarrow> info_base (info c) \<noteq> 0 \<and> command_ring_len c = 256 \<and> command_ring_enqueue c < 255 \<and>
     event_ring_len c = 256 \<and> event_ring_dequeue c < 256 \<and> ep0_ring_len c \<in> {0, 64} \<and> ep0_enqueue c < 63 \<and>
     intr_ring_len c \<in> {0, 128} \<and> intr_enqueue c < 127 \<and> hid_buf_phys c = 0"

definition ctl_ok :: "xsys \<Rightarrow> bool" where
  "ctl_ok s \<longleftrightarrow> (\<forall>c. ctl s = Some c \<longrightarrow> state_ok c)"

abbreviation keeps_ok :: "'a xm \<Rightarrow> bool" where
  "keeps_ok f \<equiv> guards ctl_ok (\<lambda>_ _. True) f"

interpretation sound: memory_contract ctl_ok "\<lambda>_ _. True"
  by unfold_locales (auto simp: ctl_ok_def)

lemma with_state_sound:
  assumes "\<And>c s a c' s'. state_ok c \<Longrightarrow> ctl s = Some c \<Longrightarrow> held s \<Longrightarrow> b c s = Inr ((a, c'), s') \<Longrightarrow> state_ok c'"
  shows "keeps_ok (with_state d b)"
proof (rule guardsI)
  fix s a s' assume i: "ctl_ok s" and r: "with_state d b s = Inr (a, s')"
  show "ctl_ok s' \<and> True"
  proof (cases "ctl s")
    case None
    then show ?thesis using r i by (simp add: with_state_def)
  next
    case (Some c)
    then obtain c' t where t: "b c (s\<lparr>held := True\<rparr>) = Inr ((a, c'), t)" "s' = t\<lparr>ctl := Some c', held := False\<rparr>"
      using with_state_InrD [OF r Some] by blast
    have "state_ok c'" using i Some by (intro assms [OF _ _ _ t(1)]) (simp_all add: ctl_ok_def)
    then show ?thesis using t(2) by (simp add: ctl_ok_def)
  qed
qed

lemma with_state_returns:
  "(\<And>c. state_ok c \<Longrightarrow> returns (\<lambda>(a, c'). state_ok c') (b c)) \<Longrightarrow> keeps_ok (with_state d b)"
  by (rule with_state_sound) (force simp: returns_def)

lemma write_reg_sound: "keeps_ok (write_reg a v)"
  by (auto simp: guards_def write_reg_def upd_def ctl_ok_def)

lemma put_command_state: "state_ok c \<Longrightarrow> returns state_ok (put_command p st ct c)"
  unfolding put_command_def Let_def
  by (auto intro!: returns_then returns_ret simp: state_ok_def advance_def Let_def split: prod.split)

lemma put_intr_state: "state_ok c \<Longrightarrow> intr_ring_len c - 1 \<noteq> 0 \<Longrightarrow> returns state_ok (put_intr t c)"
  unfolding put_intr_def Let_def
  by (auto intro!: returns_then returns_ret simp: state_ok_def advance_def Let_def split: prod.split)

lemma enqueue_sound: "keeps_ok enqueue_noop_command" "keeps_ok (enqueue_command_trb ty p st)" "keeps_ok (enqueue_command_trb_slot ty p st k)"
  unfolding enqueue_noop_command_def enqueue_command_trb_def enqueue_command_trb_slot_def ring_unusable_def Let_def
  by (rule with_state_returns; auto intro!: returns_then returns_ret returns_bind [OF put_command_state])+

lemma transfer_sound: "keeps_ok (ep0_enqueue_trb t)" "keeps_ok ep0_cycle_bit" "keeps_ok intr_cycle_bit" "keeps_ok (ring_doorbell k tg)"
  "keeps_ok controller_info" "keeps_ok take_completion"
  unfolding ep0_enqueue_trb_def ep0_cycle_bit_def intr_cycle_bit_def ring_doorbell_def controller_info_def take_completion_def Let_def
  by (rule with_state_returns; auto intro!: returns_then returns_ret returns_option simp: state_ok_def advance_def Let_def split: prod.split)+

lemma intr_enqueue_sound: "keeps_ok (intr_enqueue_trb t)"
  unfolding intr_enqueue_trb_def
  by (rule with_state_returns) (auto intro!: returns_ret returns_bind [OF put_intr_state])

lemma handle_event_state: "state_ok c \<Longrightarrow> returns state_ok (handle_event c ty t)"
  unfolding handle_event_def handle_completion_def handle_transfer_def handle_port_change_def Let_def
  by (auto intro!: returns_then returns_ret simp: state_ok_def)

lemma finish_event_state: "state_ok c \<Longrightarrow> returns state_ok (finish_event ir c)"
  unfolding finish_event_def Let_def
  by (auto intro!: returns_then returns_ret simp: state_ok_def advance_def Let_def split: prod.split)

lemma poll_loop_state:
  "poll_loop ir c p s = Some r \<Longrightarrow> state_ok c \<longrightarrow> (\<forall>q c' s'. r = Inr ((q, c'), s') \<longrightarrow> state_ok c')"
proof (induction ir c p s r rule: poll_loop.raw_induct [rotated, consumes 1, case_names step])
  case (step loop ir c p s0 r)
  let ?t = "read_trb (ram (dma s0)) (event_ring_phys c) (event_ring_dequeue c)"
  let ?b = "bindx (handle_event c (ucast (drop_bit 10 (control ?t) AND 0x3F)) ?t) (finish_event ir)"
  show ?case
  proof (intro impI allI)
    fix q c' s' assume ok: "state_ok c" and r: "r = Inr ((q, c'), s')"
    have b: "returns state_ok ?b" by (rule returns_bind [OF handle_event_state [OF ok]]) (rule finish_event_state)
    have nx: "event_ring_dequeue c < event_ring_len c" using step(2) r by (auto simp: Let_def split: if_splits)
    show "state_ok c'"
    proof (cases "(control ?t AND 1 \<noteq> 0) = event_ring_cycle c")
      case False
      then show ?thesis using step(2) r nx ok by (auto simp: Let_def)
    next
      case True
      then obtain c1 s1 where "?b (dma s0) = Inr (c1, s1)" and l: "loop ir c1 True s1 = Some r"
        using step(2) r nx by (auto simp: Let_def split: sum.splits)
      then have "state_ok c1" using b by (auto simp: returns_def)
      with step(1) [OF l] r show ?thesis by simp
    qed
  qed
qed

lemma poll_events_sound: "keeps_ok poll_events"
  unfolding poll_events_def
proof (rule with_state_sound)
  fix c s a c' s'
  assume ok: "state_ok c" and r: "(if info_base (info c) = 0 then ret (False, c)
      else (\<lambda>s. case poll_loop (interrupter_register_set (info c) 0) c False s of None \<Rightarrow> Inl Diverged | Some r \<Rightarrow> r)) s = Inr ((a, c'), s')"
  then have "poll_loop (interrupter_register_set (info c) 0) c False s = Some (Inr ((a, c'), s'))"
    by (auto simp: state_ok_def split: option.splits)
  from poll_loop_state [OF this] ok show "state_ok c'" by simp
qed

lemma await_sound:
  assumes "\<And>code c. state_ok c \<Longrightarrow> returns (\<lambda>(a, c'). state_ok c') (fin code c)"
  shows "keeps_ok (await_transfer n fin d)"
proof (induction n)
  case (Suc n)
  have "keeps_ok (with_state None (\<lambda>c. case last_transfer_code c of None \<Rightarrow> ret (None, c)
      | Some code \<Rightarrow> bindx (fin code (c\<lparr>last_transfer_code := None\<rparr>)) (\<lambda>(a, c). ret (Some a, c))))"
  proof (rule with_state_returns)
    fix c :: ControllerState assume "state_ok c"
    then have "state_ok (c\<lparr>last_transfer_code := None\<rparr>)" by (simp add: state_ok_def)
    then show "returns (\<lambda>(a, c'). state_ok c') (case last_transfer_code c of None \<Rightarrow> ret (None, c)
      | Some code \<Rightarrow> bindx (fin code (c\<lparr>last_transfer_code := None\<rparr>)) (\<lambda>(a, c). ret (Some a, c)))"
      using \<open>state_ok c\<close> by (auto intro!: returns_option returns_ret returns_bind [OF assms])
  qed
  then show ?case using Suc by (auto intro!: sound.memory_rules poll_events_sound)
qed (simp add: sound.ret_ok)

lemma completion_sound: "keeps_ok (wait_for_command_completion n)"
  by (rule sound.completion_ok [OF poll_events_sound transfer_sound(6)])

lemmas sound_intros = sound.memory_rules write_reg_sound enqueue_sound transfer_sound intr_enqueue_sound poll_events_sound completion_sound

lemma find_port_sound: "keeps_ok find_first_connected_port"
  unfolding find_first_connected_port_def by (intro sound_intros)

lemma ports_sound: "keeps_ok report_ports" "keeps_ok (reset_port k)" "keeps_ok ensure_first_port_enabled"
proof -
  show "keeps_ok report_ports" unfolding report_ports_def portsc_def by (intro sound_intros)
  show r: "keeps_ok (reset_port k)" for k
    unfolding reset_port_def portsc_def write_portsc_def Let_def by (intro sound_intros)
  show "keeps_ok ensure_first_port_enabled"
    unfolding ensure_first_port_enabled_def portsc_def by (intro sound_intros find_port_sound r)
qed

lemma enable_slot_sound: "keeps_ok enable_slot"
  unfolding enable_slot_def by (intro sound_intros)

lemma address_sound: "keeps_ok (address_device k)"
proof -
  have "keeps_ok (with_state None (\<lambda>c. ret (Some (info c, dcbaa_phys c), c)))"
    by (rule with_state_returns) (auto intro: returns_ret)
  moreover have "keeps_ok (with_state True (\<lambda>c. ret (True, c\<lparr>active_slot := Some k, ep0_ring_phys := ep0,
                           ep0_ring_len := 64, ep0_enqueue := 0, ep0_cycle := True\<rparr>)))" for ep0
    by (rule with_state_returns) (auto intro!: returns_ret simp: state_ok_def)
  ultimately show ?thesis
    unfolding address_device_def fill_address_context_def install_context_def make_ring_def port_speed_def Let_def zero_phys_def
      write_u32_def portsc_def
    by (intro sound_intros find_port_sound)
qed

lemma control_sound: "keeps_ok (control_in k rt rq v i l d)" "keeps_ok (control_no_data k rt rq v i)"
  unfolding control_in_def control_no_data_def ep0_stage_def ring_ep0_def Let_def
  by (intro sound_intros await_sound, auto intro!: returns_then returns_ret simp: state_ok_def)+

lemma descriptor_sound: "keeps_ok (get_device_descriptor k)" "keeps_ok (get_configuration_descriptor_header k)"
  "keeps_ok (get_configuration_descriptor k n)" "keeps_ok (set_configuration k v)"
  unfolding get_device_descriptor_def get_configuration_descriptor_header_def get_configuration_descriptor_def set_configuration_def zero_phys_def
  by (intro sound_intros control_sound)+

lemma configure_sound: "keeps_ok (configure_interrupt_in_endpoint k a mp iv)"
proof -
  have "keeps_ok (with_state True (\<lambda>c. ret (True, c\<lparr>intr_ep_addr := a, intr_ep_id := e,
        intr_ring_phys := ring, intr_ring_len := 128, intr_enqueue := 0, intr_cycle := True\<rparr>)))" for e ring
    by (rule with_state_returns) (auto intro!: returns_ret simp: state_ok_def)
  then show ?thesis
    unfolding configure_interrupt_in_endpoint_def fill_endpoint_context_def make_ring_def Let_def zero_phys_def write_u32_def
    by (intro sound_intros)
qed

text \<open>When it returns at all, \<^verbatim>\<open>start_hid_polling\<close> has not touched the state: what is left are the
  returns before the doorbell.\<close>

lemma start_hid_sound: "keeps_ok (start_hid_polling k a mp)"
  unfolding start_hid_polling_def
proof (rule with_state_sound)
  fix c s x c' s'
  assume ok: "state_ok c" and st: "ctl s = Some c" "held s"
    and r: "(if intr_ring_len c = 0 then ret (False, c)
       else bindx (hid_buffer mp c) (\<lambda>r. case r of None \<Rightarrow> ret (False, c)
         | Some c \<Rightarrow> if intr_ring_len c - 1 = 0 then ret (False, c)
             else bindx (put_intr \<lparr>parameter = hid_buf_phys c, status = ucast mp,
                                   control = command_control TRB_TYPE_NORMAL (intr_cycle c)\<rparr> c)
                    (\<lambda>c. thenx (ring_doorbell k (ucast (endpoint_id_from_addr a))) (ret (True, c))))) s = Inr ((x, c'), s')"
  obtain rb sb where hb: "hid_buffer mp c s = Inr (rb, sb)" using hid_buffer_Inr by blast
  have sb: "ctl sb = Some c" "held sb" "rb \<noteq> None \<Longrightarrow> intr_ring_len (the rb) = intr_ring_len c"
    using hid_buffer_cases [OF hb] st by (auto split: option.splits)
  show "state_ok c'"
  proof (cases "intr_ring_len c = 0")
    case True
    then show ?thesis using r ok by (simp add: ret_def)
  next
    case False
    then have len: "intr_ring_len c = 128" using ok by (simp add: state_ok_def)
    show ?thesis
      using r hb ok len sb(3) hid_post_deadlocks [OF sb(1,2)] by (cases rb) (simp_all add: bindx_def ret_def)
  qed
qed

lemma init_sound: "keeps_ok (init_controller i)"
proof (cases "info_base i = 0")
  case True
  then show ?thesis by (simp add: init_controller_def sound.ret_ok)
next
  case False
  have "state_ok (initial_state i a b c d)" for a b c d
    using False by (simp add: state_ok_def initial_state_def CMD_RING_TRBS_def EVENT_RING_TRBS_def)
  then have "keeps_ok (call_once (initial_state i a b c d))" for a b c d
    by (auto simp: guards_def call_once_def upd_def ctl_ok_def split: option.splits)
  then show ?thesis
    unfolding init_controller_def halt_and_reset_def program_registers_def announce_def Let_def register_defs
    by (intro sound_intros)
qed

lemma inspect_sound: "keeps_ok (inspect b)"
  unfolding inspect_def xhci_read_def by (intro sound_intros)

lemma expect_sound: "keeps_ok (expect r)"
  unfolding expect_def by (intro sound_intros)

lemma debug_out_sound: "keeps_ok (debug_out msg)"
  by (auto simp: guards_def debug_out_def upd_def ctl_ok_def)

lemma sum_sound: "(\<And>x. keeps_ok (f x)) \<Longrightarrow> (\<And>x. keeps_ok (g x)) \<Longrightarrow> keeps_ok (case r of Inl x \<Rightarrow> f x | Inr x \<Rightarrow> g x)"
  by (simp split: sum.split)

lemma probe_sound: "keeps_ok (probe_usb cfg addr)"
  unfolding probe_usb_def bring_up_controller_def bring_up_device_def configure_device_def find_keyboard_def start_keyboard_def say_def Let_def
  by (intro sound_intros sum_sound ports_sound enable_slot_sound address_sound descriptor_sound configure_sound start_hid_sound
      init_sound inspect_sound expect_sound)

section \<open>Enumeration with a stopping callback\<close>

lemma fold_keeps: "(\<And>x s. P s \<Longrightarrow> P (f x s)) \<Longrightarrow> P s \<Longrightarrow> P (fold f xs s)"
  by (induction xs arbitrary: s) auto

lemma find_usb_keeps:
  assumes "\<And>a s. P s \<Longrightarrow> P (f a s)" "P s"
  shows "P (find_usb_controllers cfg f s)"
proof -
  have g: "P (if c a then f a t else t)" if "P t" for c a t using that assms(1) by simp
  have fn: "P (enumerate_function cfg (\<lambda>a s. if c a then f a s else s) b d k t)" if "P t" for c b d k t
    using that g by (simp add: enumerate_function_def Let_def)
  have dv: "P (enumerate_device cfg (\<lambda>a s. if c a then f a s else s) b d t)" if "P t" for c b d t
    using that assms(1) by (auto simp: enumerate_device_def Let_def intro!: fold_keeps [where P = P] fn)
  show ?thesis
    unfolding find_usb_controllers_def pci_enumerate_def by (intro fold_keeps [where P = P] dv assms(2))
qed

lemma scan_guards:
  assumes "\<And>s. I s \<Longrightarrow> R s s" "\<And>s t u. I s \<Longrightarrow> R s t \<Longrightarrow> R t u \<Longrightarrow> R s u" "\<And>addr. guards I R (probe_usb cfg addr)"
  shows "guards I R (\<lambda>s. find_usb_controllers cfg (on_usb cfg) (Inr (0, s)))"
proof (rule guardsI)
  fix s0 n s' assume i: "I s0" and r: "find_usb_controllers cfg (on_usb cfg) (Inr (0, s0)) = Inr (n, s')"
  let ?P = "\<lambda>st. case st of Inl e \<Rightarrow> True | Inr (n :: nat, s) \<Rightarrow> I s \<and> R s0 s"
  have "?P (find_usb_controllers cfg (on_usb cfg) (Inr (0, s0)))"
  proof (rule find_usb_keeps [where P = ?P])
    fix a and st :: "stop + nat \<times> xsys" assume p: "?P st"
    show "?P (on_usb cfg a st)"
    proof (cases st)
      case (Inr ns)
      obtain n s where ns: "ns = (n, s)" by (cases ns)
      show ?thesis
      proof (cases "probe_usb cfg a s")
        case (Inr us)
        then obtain t where t: "probe_usb cfg a s = Inr ((), t)" by (cases us) auto
        have "I t \<and> R s t" using guardsD [OF assms(3) _ t] p \<open>st = Inr ns\<close> ns by simp
        then show ?thesis using t p \<open>st = Inr ns\<close> ns assms(2) i by (auto simp: on_usb_def thenx_def bindx_def ret_def)
      qed (simp add: on_usb_def thenx_def bindx_def \<open>st = Inr ns\<close> ns)
    qed (simp add: on_usb_def)
  qed (simp add: i assms(1))
  then show "I s' \<and> R s0 s'" by (simp add: r)
qed

lemma log_usb_sound: "keeps_ok (log_usb_controllers cfg)"
  unfolding log_usb_controllers_def say_def
  by (intro sound.bind_ok sound.then_ok sound.if_ok sound.ret_ok sound.log_str_ok debug_out_sound scan_guards probe_sound) simp_all

lemma probe_locking: "guards (\<lambda>_. True) same_lock (probe_usb cfg addr)"
proof -
  have e: "guards (\<lambda>_. True) same_lock (expect r)" for r :: "'a option"
    unfolding expect_def by (intro locking_intros)
  have s: "guards (\<lambda>_. True) same_lock (case r of Inl x \<Rightarrow> f x | Inr x \<Rightarrow> g x)"
    if "\<And>x. guards (\<lambda>_. True) same_lock (f x)" "\<And>x. guards (\<lambda>_. True) same_lock (g x)" for r :: "'x + 'y" and f :: "'x \<Rightarrow> unit xm" and g
    using that by (simp split: sum.split)
  show ?thesis
    unfolding probe_usb_def bring_up_controller_def bring_up_device_def configure_device_def find_keyboard_def start_keyboard_def say_def
      inspect_def xhci_read_def poll_events_def start_hid_polling_def set_configuration_def Let_def
    by (intro locking_intros e s ports_locking slot_locking address_locking descriptor_locking control_locking configure_locking init_locking)
qed

lemma log_usb_locking: "guards (\<lambda>_. True) same_lock (log_usb_controllers cfg)"
proof -
  have d: "guards (\<lambda>_. True) same_lock (debug_out msg)" for msg
    by (auto simp: guards_def debug_out_def upd_def same_lock_def)
  have "guards (\<lambda>_. True) same_lock (\<lambda>s. find_usb_controllers cfg (on_usb cfg) (Inr (0, s)))"
    by (rule scan_guards [OF _ _ probe_locking]) (simp_all add: same_lock_def)
  then show ?thesis
    unfolding log_usb_controllers_def say_def
    by (intro locking.bind_ok locking.then_ok locking.if_ok locking.ret_ok locking.log_str_ok d)
qed

section \<open>Properties\<close>

text \<open>The controller state is well formed throughout: the bring-up of all USB controllers, polling and
  every operation they use keep the ring lengths and the index bounds that the driver's memory
  accesses rely on, whatever the PCI bus, the registers and the devices return.\<close>
theorem usb_state_stays_well_formed:
  "guards ctl_ok (\<lambda>_ _. True) (log_usb_controllers cfg) \<and> guards ctl_ok (\<lambda>_ _. True) poll_events \<and>
   guards ctl_ok (\<lambda>_ _. True) (init_controller i) \<and> guards ctl_ok (\<lambda>_ _. True) (address_device slot) \<and>
   guards ctl_ok (\<lambda>_ _. True) (configure_interrupt_in_endpoint slot ep mp iv) \<and>
   guards ctl_ok (\<lambda>_ _. True) (start_hid_polling slot ep mp)"
  by (intro conjI log_usb_sound poll_events_sound init_sound address_sound configure_sound start_hid_sound)

text \<open>After the bring-up has returned, the polling of the main loop never hangs: on a controller that
  has written what it wants before the call and is quiet during it, polling returns with the lock
  free; it neither panics nor deadlocks nor loops for ever.\<close>
theorem main_loop_polling_returns:
  assumes "ctl s = None" and "\<not> held s" and "log_usb_controllers cfg s = Inr ((), s1)"
    and "m = dma_tape s1 (dma_pos s1) (ram s1)" and "\<forall>n > dma_pos s1. dma_tape s1 n m = m"
  shows "\<exists>b s2. poll_events s1 = Inr (b, s2) \<and> \<not> held s2 \<and> ctl_ok s2"
proof -
  have ok: "ctl_ok s1" using guardsD [OF log_usb_sound _ assms(3)] assms(1) by (simp add: ctl_ok_def)
  have free: "\<not> held s1" using guardsD [OF log_usb_locking _ assms(3)] assms(2) by (simp add: same_lock_def)
  show ?thesis
  proof (cases "ctl s1")
    case None
    then show ?thesis
      using free by (intro exI [of _ False] exI [of _ s1]) (simp add: poll_events_def with_state_def ctl_ok_def)
  next
    case (Some c)
    then have c: "state_ok c" using ok by (simp add: ctl_ok_def)
    obtain b s2 where p: "poll_events s1 = Inr (b, s2)" "\<not> held s2"
      using poll_events_run [OF Some free _ _ _ assms(4,5)] c by (auto simp: state_ok_def)
    then show ?thesis using guardsD [OF poll_events_sound ok] by blast
  qed
qed

theorem main_loop_polling_returns_witness:
  "\<exists>s1 b s2. log_usb_controllers (\<lambda>_. 0xFFFFFFFF) (example_sys None) = Inr ((), s1) \<and> poll_events s1 = Inr (b, s2)"
proof -
  let ?cfg = "\<lambda>_. 0xFFFFFFFF :: u32"
  have none: "\<not> has_function ?cfg a" for a
    by (simp add: has_function_def vendor_id_def pci_read_u16_def pci_read_u32_def Let_def)
  have "enumerate_device ?cfg f b d s = s" for f b d and s :: "stop + nat \<times> xsys"
    by (simp add: enumerate_device_def none Let_def)
  then have e: "find_usb_controllers ?cfg f s = s" for f and s :: "stop + nat \<times> xsys"
    unfolding find_usb_controllers_def pci_enumerate_def by (intro fold_keeps [where P = "\<lambda>t. t = s"]) auto
  obtain s1 where s1: "log_usb_controllers ?cfg (example_sys None) = Inr ((), s1)" "dma_tape s1 = (\<lambda>_ _ _. 0)"
    by (simp add: log_usb_controllers_def debug_out_def say_def log_str_def e thenx_def bindx_def upd_def ret_def example_sys_def)
  have "ctl (example_sys None) = None" "\<not> held (example_sys None)" by (simp_all add: example_sys_def)
  from main_loop_polling_returns [OF this s1(1), of "\<lambda>_. 0"] s1 show ?thesis by auto
qed

end
