(* ===== verification/Ramfs.thy ===== *)
theory Ramfs
  imports Kernel_Prelude
begin

text \<open>
  The initial RAM disk: the cpio (newc) walkers of \<^verbatim>\<open>kernel/src/ramfs.rs\<close> and of
  \<^verbatim>\<open>kernel/src/ai_initrd.rs\<close> over physical memory. Offsets are 64-bit and wrap, so on a
  length close to the top of the address space the loops of the source may run for ever: they are
  partial functions, and their termination is a theorem for images below $2^{63}$ bytes (the
  largest object Rust allows). A list-level scan of the image's bytes is the reference that both
  walkers refine; an encoder states what an archive is.
\<close>

section \<open>The walkers\<close>

record initrd =
  INITRD_BASE :: u64
  INITRD_LEN :: usize

record Entry =
  entry_name :: bytes
  entry_data :: u64
  entry_size :: usize

definition CPIO_MAGIC :: bytes where
  "CPIO_MAGIC = str_bytes ''070701''"

definition TRAILER :: bytes where
  "TRAILER = str_bytes ''TRAILER!!!''"

definition hex_value :: "u8 \<Rightarrow> u8 option" where
  "hex_value c =
     (if 48 \<le> c \<and> c \<le> 57 then Some (c - 48)
      else if 97 \<le> c \<and> c \<le> 102 then Some (10 + (c - 97))
      else if 65 \<le> c \<and> c \<le> 70 then Some (10 + (c - 65))
      else None)"

fun hex_field :: "bytes \<Rightarrow> u32 \<Rightarrow> u32 option" where
  "hex_field [] v = Some v"
| "hex_field (c # cs) v =
     (case hex_value c of None \<Rightarrow> None | Some d \<Rightarrow> hex_field cs (push_bit 4 v OR ucast d))"

definition read_hex :: "mem \<Rightarrow> u64 \<Rightarrow> u32 option" where
  "read_hex m p = hex_field (read_bytes m p 8) 0"

text \<open>The magic and the two size fields (name at 94, file at 54); both walkers stop at \<open>None\<close>.\<close>

definition read_header :: "mem \<Rightarrow> u64 \<Rightarrow> usize \<Rightarrow> (usize \<times> usize) option" where
  "read_header m b off =
     (if read_bytes m (b + off) 6 \<noteq> CPIO_MAGIC then None
      else case read_hex m (b + (off + 94)) of
             None \<Rightarrow> None
           | Some ns \<Rightarrow>
               (case read_hex m (b + (off + 54)) of
                  None \<Rightarrow> None
                | Some fs \<Rightarrow> Some (ucast ns, ucast fs)))"

definition entry_fname :: "mem \<Rightarrow> u64 \<Rightarrow> usize \<Rightarrow> bytes" where
  "entry_fname m p namesize =
     (let name_bytes = read_bytes m p (unat namesize)
      in if namesize > 0 then take (unat (namesize - 1)) name_bytes else name_bytes)"

definition align4 :: "usize \<Rightarrow> usize" where
  "align4 x = (x + 3) AND NOT 3"

partial_function (option) for_each_loop ::
  "mem \<Rightarrow> u64 \<Rightarrow> usize \<Rightarrow> (Entry \<Rightarrow> 's \<Rightarrow> 's) \<Rightarrow> usize \<Rightarrow> 's \<Rightarrow> 's option" where
  "for_each_loop m b len f off s =
     (if off + 110 \<le> len then
        (case read_header m b off of
           None \<Rightarrow> Some s
         | Some (namesize, filesize) \<Rightarrow>
             (let name_off = off + 110
              in if name_off + namesize > len then Some s
                 else
                   (let fname = entry_fname m (b + name_off) namesize;
                        data_off = align4 (name_off + namesize)
                    in if fname = TRAILER then Some s
                       else if data_off + filesize > len then Some s
                       else
                         (let s' = f \<lparr>entry_name = fname, entry_data = b + data_off, entry_size = filesize\<rparr> s;
                              next_off = align4 (data_off + filesize)
                          in for_each_loop m b len f next_off s'))))
      else Some s)"

definition for_each :: "mem \<Rightarrow> initrd \<Rightarrow> (Entry \<Rightarrow> 's \<Rightarrow> 's) \<Rightarrow> 's \<Rightarrow> 's option" where
  "for_each m r f s =
     (let b = INITRD_BASE r; len = INITRD_LEN r
      in if b = 0 \<or> len < 110 then Some s else for_each_loop m b len f 0 s)"

definition find_visit :: "bytes \<Rightarrow> Entry \<Rightarrow> (u64 \<times> usize) option \<Rightarrow> (u64 \<times> usize) option" where
  "find_visit want e out =
     (if out \<noteq> None then out
      else if entry_name e = want then Some (entry_data e, entry_size e)
      else out)"

definition ramfs_find :: "mem \<Rightarrow> initrd \<Rightarrow> bytes \<Rightarrow> (u64 \<times> usize) option option" where
  "ramfs_find m r path = for_each m r (find_visit path) None"

definition name_matches :: "bytes \<Rightarrow> bytes \<Rightarrow> bool" where
  "name_matches fname want \<longleftrightarrow>
     fname = want \<or>
     length fname = length want + 2 \<and> fname ! 0 = 46 \<and> fname ! 1 = 47 \<and> drop 2 fname = want"

partial_function (option) cpio_find_loop ::
  "mem \<Rightarrow> u64 \<Rightarrow> usize \<Rightarrow> bytes \<Rightarrow> usize \<Rightarrow> u64 option option" where
  "cpio_find_loop m b len want off =
     (if off + 110 \<le> len then
        (case read_header m b off of
           None \<Rightarrow> Some None
         | Some (namesize, filesize) \<Rightarrow>
             (let name_off = off + 110
              in if name_off + namesize > len then Some None
                 else
                   (let fname = entry_fname m (b + name_off) namesize;
                        data_off = align4 (name_off + namesize)
                    in if fname = TRAILER then Some None
                       else if name_matches fname want then
                         (if data_off + filesize \<le> len then Some (Some (b + data_off)) else Some None)
                       else cpio_find_loop m b len want (align4 (data_off + filesize)))))
      else Some None)"

definition cpio_find :: "mem \<Rightarrow> u64 \<Rightarrow> usize \<Rightarrow> bytes \<Rightarrow> u64 option option" where
  "cpio_find m b len name =
     (if b = 0 \<or> len < 110 then Some None else cpio_find_loop m b len name 0)"

section \<open>The reference scan of the image's bytes\<close>

definition up4 :: "nat \<Rightarrow> nat" where
  "up4 n = (n + 3) div 4 * 4"

definition header_at :: "bytes \<Rightarrow> nat \<Rightarrow> (nat \<times> nat) option" where
  "header_at img off =
     (if take 6 (drop off img) \<noteq> CPIO_MAGIC then None
      else case hex_field (take 8 (drop (off + 94) img)) 0 of
             None \<Rightarrow> None
           | Some ns \<Rightarrow>
               (case hex_field (take 8 (drop (off + 54) img)) 0 of
                  None \<Rightarrow> None
                | Some fs \<Rightarrow> Some (unat ns, unat fs)))"

lemma up4_ge: "n \<le> up4 n" "up4 n \<le> n + 3"
  unfolding up4_def by linarith+

function cpio_scan :: "bytes \<Rightarrow> nat \<Rightarrow> (bytes \<times> nat \<times> nat) list" where
  "cpio_scan img off =
     (if off + 110 \<le> length img then
        (case header_at img off of
           None \<Rightarrow> []
         | Some (ns, fs) \<Rightarrow>
             if off + 110 + ns > length img then []
             else
               (let fname = take (ns - 1) (drop (off + 110) img); d = up4 (off + 110 + ns)
                in if fname = TRAILER \<or> d + fs > length img then []
                   else (fname, d, fs) # cpio_scan img (up4 (d + fs))))
      else [])"
  by pat_completeness auto
termination
proof (relation "measure (\<lambda>(img, off). length img - off)")
  fix img :: bytes and off ns fs d :: nat and p
  assume "off + 110 \<le> length img" "d = up4 (off + 110 + ns)"
  then have "off < up4 (d + fs)" using up4_ge(1) [of "d + fs"] up4_ge(1) [of "off + 110 + ns"] by linarith
  with \<open>off + 110 \<le> length img\<close> show "((img, up4 (d + fs)), img, off) \<in> measure (\<lambda>(img, off). length img - off)" by simp
qed simp

declare cpio_scan.simps [simp del]

definition initrd_image :: "mem \<Rightarrow> u64 \<Rightarrow> usize \<Rightarrow> bytes" where
  "initrd_image m b len = (if b = 0 \<or> len < 110 then [] else read_bytes m b (unat len))"

definition to_entry :: "u64 \<Rightarrow> bytes \<times> nat \<times> nat \<Rightarrow> Entry" where
  "to_entry b e = (case e of (n, d, k) \<Rightarrow> \<lparr>entry_name = n, entry_data = b + of_nat d, entry_size = of_nat k\<rparr>)"

definition initrd_entries :: "mem \<Rightarrow> u64 \<Rightarrow> usize \<Rightarrow> Entry list" where
  "initrd_entries m b len = map (to_entry b) (cpio_scan (initrd_image m b len) 0)"

section \<open>The walkers refine the scan\<close>

lemma length_read_bytes [simp]: "length (read_bytes m a n) = n"
  by (simp add: read_bytes_def)

lemma read_bytes_sub:
  "k + n \<le> len \<Longrightarrow> read_bytes m (b + of_nat k) n = take n (drop k (read_bytes m b len))"
  by (rule nth_equalityI) (auto simp: read_bytes_def add.assoc)

lemma unat_align4:
  assumes "unat x + 3 < 2 ^ 64"
  shows "unat (align4 x) = up4 (unat x)"
proof -
  have "(3 :: u64) = mask 2" by (simp add: mask_eq_exp_minus_1)
  then have "unat (align4 x) = unat (x + 3) div 4 * 4"
    unfolding align4_def using and_not_mask_unat [of "x + 3" 2] by simp
  then show ?thesis using assms by (simp add: up4_def unat_add_no_wrap)
qed

lemma header_refines:
  assumes "unat off + 110 \<le> unat len" "img = read_bytes m b (unat len)"
  shows "header_at img (unat off) = map_option (\<lambda>(ns, fs). (unat ns, unat fs)) (read_header m b off)"
proof -
  have r: "read_bytes m (b + (off + of_nat k)) n = take n (drop (unat off + k) img)" if "k + n \<le> 110" for k n
    using read_bytes_sub [of "unat off + k" n "unat len" m b] that assms by simp
  show ?thesis
    using r [of 0 6] r [of 94 8] r [of 54 8]
    by (simp add: header_at_def read_header_def read_hex_def unat_ucast_u32(1) split: option.split)
qed

lemma read_header_sizes:
  "read_header m b off = Some (ns, fs) \<Longrightarrow> unat ns < 2 ^ 32 \<and> unat fs < 2 ^ 32"
  using unat_ucast_u32(2) by (auto simp: read_header_def unat_ucast_u32(1) split: if_splits option.splits)

text \<open>One iteration, read at the level of the image's bytes.\<close>

lemma iteration:
  assumes "unat len < 2 ^ 63" "unat off \<le> unat len + 2 ^ 33" "img = read_bytes m b (unat len)"
  shows off_in: "off + 110 \<le> len \<longleftrightarrow> unat off + 110 \<le> length img"
    and "unat off + 110 \<le> length img \<Longrightarrow> read_header m b off = Some (ns, fs) \<Longrightarrow>
      (off + 110 + ns > len \<longleftrightarrow> unat off + 110 + unat ns > length img) \<and>
      (unat off + 110 + unat ns \<le> length img \<longrightarrow>
         entry_fname m (b + (off + 110)) ns = take (unat ns - 1) (drop (unat off + 110) img) \<and>
         unat (align4 (off + 110 + ns)) = up4 (unat off + 110 + unat ns) \<and>
         (align4 (off + 110 + ns) + fs > len \<longleftrightarrow> up4 (unat off + 110 + unat ns) + unat fs > length img) \<and>
         unat (align4 (align4 (off + 110 + ns) + fs)) = up4 (up4 (unat off + 110 + unat ns) + unat fs))"
proof -
  have L: "length img = unat len" by (simp add: assms(3))
  have o: "unat (off + 110) = unat off + 110" using assms(1,2) by (simp add: unat_add_no_wrap)
  show "off + 110 \<le> len \<longleftrightarrow> unat off + 110 \<le> length img" by (simp add: word_le_nat_alt o L)
  assume in_img: "unat off + 110 \<le> length img" and h: "read_header m b off = Some (ns, fs)"
  note sz = read_header_sizes [OF h]
  have n: "unat (off + 110 + ns) = unat off + 110 + unat ns"
    using assms(1) sz in_img L by (simp add: unat_add_no_wrap o)
  have name: "off + 110 + ns > len \<longleftrightarrow> unat off + 110 + unat ns > length img"
    by (simp add: word_less_nat_alt n L)
  have rest: "entry_fname m (b + (off + 110)) ns = take (unat ns - 1) (drop (unat off + 110) img) \<and>
         unat (align4 (off + 110 + ns)) = up4 (unat off + 110 + unat ns) \<and>
         (align4 (off + 110 + ns) + fs > len \<longleftrightarrow> up4 (unat off + 110 + unat ns) + unat fs > length img) \<and>
         unat (align4 (align4 (off + 110 + ns) + fs)) = up4 (up4 (unat off + 110 + unat ns) + unat fs)"
    if i: "unat off + 110 + unat ns \<le> length img"
  proof -
    have "read_bytes m (b + (off + 110)) (unat ns) = take (unat ns) (drop (unat off + 110) img)"
      using read_bytes_sub [of "unat off + 110" "unat ns" "unat len" m b] i L assms(3) by simp
    then have f: "entry_fname m (b + (off + 110)) ns = take (unat ns - 1) (drop (unat off + 110) img)"
      using unat_minus_one [of ns] by (auto simp: entry_fname_def Let_def word_gt_0 min_absorb1)
    have d: "unat (align4 (off + 110 + ns)) = up4 (unat off + 110 + unat ns)"
      using unat_align4 [of "off + 110 + ns"] i L assms(1) by (simp add: n)
    have lim: "up4 (unat off + 110 + unat ns) \<le> unat len + 3" using up4_ge(2) i L by (metis add_le_mono1 le_trans)
    have df: "unat (align4 (off + 110 + ns) + fs) = up4 (unat off + 110 + unat ns) + unat fs"
      using lim assms(1) sz by (simp add: unat_add_no_wrap d)
    have "unat (align4 (align4 (off + 110 + ns) + fs)) = up4 (up4 (unat off + 110 + unat ns) + unat fs)"
      using unat_align4 [of "align4 (off + 110 + ns) + fs"] lim assms(1) sz by (simp add: df)
    with f d show ?thesis by (simp add: word_less_nat_alt df L)
  qed
  from name rest show "(off + 110 + ns > len \<longleftrightarrow> unat off + 110 + unat ns > length img) \<and>
      (unat off + 110 + unat ns \<le> length img \<longrightarrow>
         entry_fname m (b + (off + 110)) ns = take (unat ns - 1) (drop (unat off + 110) img) \<and>
         unat (align4 (off + 110 + ns)) = up4 (unat off + 110 + unat ns) \<and>
         (align4 (off + 110 + ns) + fs > len \<longleftrightarrow> up4 (unat off + 110 + unat ns) + unat fs > length img) \<and>
         unat (align4 (align4 (off + 110 + ns) + fs)) = up4 (up4 (unat off + 110 + unat ns) + unat fs))" by blast
qed

text \<open>The four ways an iteration of a walker can go, with what the scan makes of each.\<close>

lemma walk_cases [consumes 3, case_names no_header last cut entry]:
  assumes "unat len < 2 ^ 63" "unat off \<le> unat len + 2 ^ 33" "img = read_bytes m b (unat len)"
  obtains "\<not> off + 110 \<le> len \<or> read_header m b off = None" "cpio_scan img (unat off) = []"
  | ns fs where "off + 110 \<le> len" "read_header m b off = Some (ns, fs)"
      "off + 110 + ns > len \<or> entry_fname m (b + (off + 110)) ns = TRAILER" "cpio_scan img (unat off) = []"
  | ns fs where "off + 110 \<le> len" "read_header m b off = Some (ns, fs)" "\<not> off + 110 + ns > len"
      "entry_fname m (b + (off + 110)) ns \<noteq> TRAILER" "align4 (off + 110 + ns) + fs > len"
      "\<not> align4 (align4 (off + 110 + ns) + fs) + 110 \<le> len" "cpio_scan img (unat off) = []"
  | ns fs where "off + 110 \<le> len" "read_header m b off = Some (ns, fs)" "\<not> off + 110 + ns > len"
      "entry_fname m (b + (off + 110)) ns \<noteq> TRAILER" "\<not> align4 (off + 110 + ns) + fs > len"
      "unat (align4 (align4 (off + 110 + ns) + fs)) \<le> unat len + 2 ^ 33"
      "unat len - unat (align4 (align4 (off + 110 + ns) + fs)) < unat len - unat off"
      "cpio_scan img (unat off) = (entry_fname m (b + (off + 110)) ns, unat (align4 (off + 110 + ns)), unat fs) #
         cpio_scan img (unat (align4 (align4 (off + 110 + ns) + fs)))"
proof (cases "off + 110 \<le> len")
  case False
  then show ?thesis using that(1) iteration(1) [OF assms] by (simp add: cpio_scan.simps [of img "unat off"])
next
  case True
  note in_img = iffD1 [OF iteration(1) [OF assms] True]
  have L: "length img = unat len" by (simp add: assms(3))
  have hd: "header_at img (unat off) = map_option (\<lambda>(ns, fs). (unat ns, unat fs)) (read_header m b off)"
    using header_refines [of off len img m b] assms(3) in_img L by simp
  note [simp] = cpio_scan.simps [of img "unat off"]
  show ?thesis
  proof (cases "read_header m b off")
    case None
    then show ?thesis using that(1) hd in_img by simp
  next
    case (Some p)
    obtain ns fs where p: "read_header m b off = Some (ns, fs)" using Some by (cases p) auto
    let ?e = "up4 (unat off + 110 + unat ns)" and ?d = "align4 (off + 110 + ns)"
    have h: "header_at img (unat off) = Some (unat ns, unat fs)" using hd p by simp
    note st = iteration(2) [OF assms in_img p]
    show ?thesis
    proof (cases "off + 110 + ns > len \<or> entry_fname m (b + (off + 110)) ns = TRAILER")
      case end_of: True
      then show ?thesis using that(2) [OF True p end_of] st h in_img by auto
    next
      case go: False
      have un: "unat (align4 (?d + fs)) = up4 (?e + unat fs)" "unat ?d = ?e" using st go by auto
      have "?e + unat fs \<le> unat len + 3 + 2 ^ 32"
        using up4_ge(2) [of "unat off + 110 + unat ns"] st go L read_header_sizes [OF p] by auto
      then have lim: "unat (align4 (?d + fs)) \<le> unat len + 2 ^ 33"
        unfolding un using up4_ge(2) [of "?e + unat fs"] by simp
      have ge: "?e + unat fs \<le> unat (align4 (?d + fs))" "unat off + 110 \<le> ?e"
        using up4_ge(1) [of "?e + unat fs"] up4_ge(1) [of "unat off + 110 + unat ns"] un by simp_all
      show ?thesis
      proof (cases "?d + fs > len")
        case cut: True
        then have "\<not> align4 (?d + fs) + 110 \<le> len" using iteration(1) [OF assms(1) lim assms(3)] ge(1) st go L by auto
        then show ?thesis using that(3) [OF True p _ _ cut] go cut st h in_img by auto
      next
        case False
        have "unat len - unat (align4 (?d + fs)) < unat len - unat off" using ge in_img L by linarith
        moreover have "cpio_scan img (unat off) = (entry_fname m (b + (off + 110)) ns, unat ?d, unat fs) # cpio_scan img (unat (align4 (?d + fs)))"
          using False go st h in_img un by (auto simp: Let_def)
        ultimately show ?thesis using that(4) [OF True p _ _ False lim] go by blast
      qed
    qed
  qed
qed

lemma for_each_loop_refines:
  assumes "unat len < 2 ^ 63" "unat off \<le> unat len + 2 ^ 33" "img = read_bytes m b (unat len)"
  shows "for_each_loop m b len f off s = Some (fold f (map (to_entry b) (cpio_scan img (unat off))) s)"
  using assms(2)
proof (induction "unat len - unat off" arbitrary: off s rule: less_induct)
  case less
  note [simp] = for_each_loop.simps [of m b len f off s]
  from assms(1) less.prems assms(3) show ?case
  proof (cases rule: walk_cases)
    case (entry ns fs)
    then show ?thesis using less.hyps [OF entry(7,6)] by (simp add: Let_def to_entry_def)
  qed (auto simp: Let_def)
qed

definition first_match :: "u64 \<Rightarrow> bytes \<Rightarrow> (bytes \<times> nat \<times> nat) list \<Rightarrow> u64 option" where
  "first_match b want es = map_option (\<lambda>(n, d, k). b + of_nat d) (List.find (\<lambda>(n, d, k). name_matches n want) es)"

lemma cpio_find_loop_refines:
  assumes "unat len < 2 ^ 63" "unat off \<le> unat len + 2 ^ 33" "img = read_bytes m b (unat len)"
  shows "cpio_find_loop m b len want off = Some (first_match b want (cpio_scan img (unat off)))"
  using assms(2)
proof (induction "unat len - unat off" arbitrary: off rule: less_induct)
  case less
  note [simp] = cpio_find_loop.simps [of m b len want off] first_match_def
  from assms(1) less.prems assms(3) show ?case
  proof (cases rule: walk_cases)
    case (cut ns fs)
    have "cpio_find_loop m b len want (align4 (align4 (off + 110 + ns) + fs)) = Some None"
      using cut(6) by (subst cpio_find_loop.simps) simp
    then show ?thesis using cut by (auto simp: Let_def)
  next
    case (entry ns fs)
    then show ?thesis using less.hyps [OF entry(7,6)] by (simp add: Let_def flip: not_less)
  qed (auto simp: Let_def)
qed

lemma for_each_entries:
  assumes "unat (INITRD_LEN r) < 2 ^ 63"
  shows "for_each m r f s = Some (fold f (initrd_entries m (INITRD_BASE r) (INITRD_LEN r)) s)"
  using for_each_loop_refines [OF assms, of 0 _ m "INITRD_BASE r" f s]
  by (simp add: for_each_def initrd_entries_def initrd_image_def cpio_scan.simps Let_def)

lemma cpio_find_entries:
  assumes "unat len < 2 ^ 63"
  shows "cpio_find m b len want = Some (first_match b want (cpio_scan (initrd_image m b len) 0))"
  using cpio_find_loop_refines [OF assms, of 0 _ m b want]
  by (simp add: cpio_find_def initrd_image_def cpio_scan.simps first_match_def)

lemma fold_find_visit:
  "fold (find_visit want) es out =
     (case out of Some r \<Rightarrow> Some r
      | None \<Rightarrow> map_option (\<lambda>e. (entry_data e, entry_size e)) (List.find (\<lambda>e. entry_name e = want) es))"
  by (induction es arbitrary: out) (auto simp: find_visit_def split: option.split)

lemma ramfs_find_entries:
  assumes "unat (INITRD_LEN r) < 2 ^ 63"
  shows "ramfs_find m r path = Some (map_option (\<lambda>e. (entry_data e, entry_size e))
    (List.find (\<lambda>e. entry_name e = path) (initrd_entries m (INITRD_BASE r) (INITRD_LEN r))))"
  by (simp add: ramfs_find_def for_each_entries [OF assms] fold_find_visit)

section \<open>Every entry lies inside the image\<close>

lemma cpio_scan_bounds: "(n, d, k) \<in> set (cpio_scan img off) \<Longrightarrow> d + k \<le> length img \<and> n \<noteq> TRAILER"
proof (induction img off rule: cpio_scan.induct)
  case (1 img off)
  note S = cpio_scan.simps [of img off]
  have h1: "off + 110 \<le> length img" using 1(2) by (cases "off + 110 \<le> length img") (simp_all add: S)
  obtain ns fs where h2: "header_at img off = Some (ns, fs)"
    using 1(2) h1 by (cases "header_at img off") (auto simp add: S)
  let ?n = "take (ns - 1) (drop (off + 110) img)" and ?d = "up4 (off + 110 + ns)"
  have h3: "\<not> off + 110 + ns > length img" using 1(2) h1 h2 by (cases "off + 110 + ns > length img") (simp_all add: S)
  have h4: "\<not> (?n = TRAILER \<or> ?d + fs > length img)"
    using 1(2) h1 h2 h3 by (cases "?n = TRAILER \<or> ?d + fs > length img") (auto simp add: S Let_def)
  have "cpio_scan img off = (?n, ?d, fs) # cpio_scan img (up4 (?d + fs))" using h1 h2 h3 h4 by (simp add: S Let_def)
  with 1(2) 1(1) [OF h1 h2 refl h3 refl refl h4] h4 show ?case by auto
qed

lemma read_bytes_cong:
  assumes "\<And>x. x \<in> region a n \<Longrightarrow> m x = m' x"
  shows "read_bytes m a n = read_bytes m' a n"
proof -
  have "unat (of_nat i :: u64) \<le> i" for i by (simp add: unat_of_nat take_bit_nat_less_eq_self)
  then have "a + of_nat i \<in> region a n" if "i < n" for i using that by (simp add: region_def) (meson le_less_trans)
  then show ?thesis using assms by (simp add: read_bytes_def)
qed

lemma initrd_image_cong:
  assumes "\<And>x. x \<in> region b (unat len) \<Longrightarrow> m x = m' x"
  shows "initrd_image m b len = initrd_image m' b len"
  using read_bytes_cong [OF assms] by (simp add: initrd_image_def)

lemma entry_in_region:
  assumes "e \<in> set (initrd_entries m b len)" "unat len < 2 ^ 63"
  shows "region (entry_data e) (unat (entry_size e)) \<subseteq> region b (unat len)"
proof -
  obtain n d k where e: "e = to_entry b (n, d, k)" "(n, d, k) \<in> set (cpio_scan (initrd_image m b len) 0)"
    using assms(1) by (auto simp: initrd_entries_def)
  have "d + k \<le> unat len" using cpio_scan_bounds [OF e(2)] by (simp add: initrd_image_def split: if_splits)
  then have lim: "d + k < 2 ^ 63" "d + k \<le> unat len" using assms(2) by simp_all
  then have u: "unat (of_nat d :: u64) = d" "unat (of_nat k :: u64) = k" by (simp_all add: unat_of_nat take_bit_nat_eq_self)
  show ?thesis
  proof
    fix x assume "x \<in> region (entry_data e) (unat (entry_size e))"
    then have lt: "unat (x - (b + of_nat d)) < k" by (simp add: region_def e(1) to_entry_def u)
    have "x - b = (x - (b + of_nat d)) + of_nat d" by simp
    then have "unat (x - b) = unat (x - (b + of_nat d)) + d"
      using lt lim u(1) unat_add_no_wrap [of "x - (b + of_nat d)" "of_nat d"] by simp
    then show "x \<in> region b (unat len)" using lt lim(2) by (simp add: region_def)
  qed
qed

section \<open>Archives\<close>

text \<open>
  A file of an archive: its name, its contents and the header fields the kernel does not read
  (inode to modification time, device numbers, checksum), which may hold anything.
\<close>

record cpio_file =
  file_name :: bytes
  contents :: bytes
  fields_front :: bytes
  fields_mid :: bytes
  field_check :: bytes

fun hex_fixed :: "nat \<Rightarrow> nat \<Rightarrow> bytes" where
  "hex_fixed 0 n = []"
| "hex_fixed (Suc k) n = hex_fixed k (n div 16) @ [hex_digit (n mod 16)]"

definition pad4 :: "nat \<Rightarrow> bytes" where
  "pad4 n = replicate (up4 n - n) 0"

definition encode_header :: "cpio_file \<Rightarrow> bytes" where
  "encode_header f =
     CPIO_MAGIC @ fields_front f @ hex_fixed 8 (length (contents f)) @ fields_mid f @
     hex_fixed 8 (length (file_name f) + 1) @ field_check f"

definition encode_file :: "cpio_file \<Rightarrow> bytes" where
  "encode_file f =
     (let nl = 110 + length (file_name f) + 1
      in encode_header f @ file_name f @ [0] @ pad4 nl @ contents f @ pad4 (length (contents f)))"

definition file_fits :: "cpio_file \<Rightarrow> bool" where
  "file_fits f \<longleftrightarrow> length (fields_front f) = 48 \<and> length (fields_mid f) = 32 \<and> length (field_check f) = 8 \<and>
     length (file_name f) + 1 < 2 ^ 32 \<and> length (contents f) < 2 ^ 32"

definition archive :: "cpio_file list \<Rightarrow> cpio_file \<Rightarrow> bytes \<Rightarrow> bytes" where
  "archive fs trailer rest = concat (map encode_file fs) @ encode_file trailer @ rest"

fun placed :: "nat \<Rightarrow> cpio_file list \<Rightarrow> (bytes \<times> nat \<times> nat) list" where
  "placed off [] = []"
| "placed off (f # fs) =
     (file_name f, off + up4 (110 + length (file_name f) + 1), length (contents f)) #
     placed (off + length (encode_file f)) fs"

lemma length_hex_fixed [simp]: "length (hex_fixed k n) = k"
  by (induction k arbitrary: n) simp_all

lemma hex_value_digit: "d < 16 \<Longrightarrow> hex_value (hex_digit d) = Some (of_nat d)"
proof -
  assume "d < 16"
  moreover have "list_all (\<lambda>d. hex_value (hex_digit d) = Some (of_nat d)) [0..<16]" by code_simp
  ultimately show ?thesis by (simp add: list_all_iff)
qed

lemma hex_field_append: "hex_field (xs @ ys) v = (case hex_field xs v of None \<Rightarrow> None | Some w \<Rightarrow> hex_field ys w)"
  by (induction xs arbitrary: v) (simp_all split: option.split)

lemma shift_or_digit:
  assumes "d < 16"
  shows "push_bit 4 (v :: u32) OR ucast (of_nat d :: u8) = v * 16 + of_nat d"
proof -
  have u: "(ucast (of_nat d :: u8) :: u32) = of_nat d"
    using assms by (simp add: word_unat_eq_iff unsigned_ucast_eq unat_of_nat take_bit_nat_eq_self)
  have lt: "bit (of_nat d :: u32) n \<Longrightarrow> n < 4" for n
  proof -
    assume "bit (of_nat d :: u32) n"
    then have "bit d n" by (simp add: bit_of_nat_iff)
    moreover have "take_bit 4 d = d" using assms by (simp add: take_bit_nat_eq_self)
    ultimately show "n < 4" by (metis bit_take_bit_iff)
  qed
  have "push_bit 4 v AND of_nat d = 0"
    by (rule bit_word_eqI) (use lt in \<open>fastforce simp: bit_and_iff bit_push_bit_iff\<close>)
  from disjunctive_add_eq_or [OF this] have "push_bit 4 v OR of_nat d = push_bit 4 v + of_nat d" by simp
  then show ?thesis by (simp add: u push_bit_eq_mult mult.commute)
qed

lemma hex_field_fixed: "hex_field (hex_fixed k n) 0 = Some (of_nat (n mod 16 ^ k))"
proof (induction k arbitrary: n)
  case (Suc k)
  have "n mod 16 ^ Suc k = (n div 16) mod 16 ^ k * 16 + n mod 16"
    by (simp add: mod_mult2_eq mult.commute)
  with Suc show ?case
    by (simp add: hex_field_append hex_value_digit shift_or_digit mult.commute)
qed simp

lemma up4_shift: "4 dvd off \<Longrightarrow> up4 (off + n) = off + up4 n"
  by (auto simp: up4_def dvd_def add.assoc)

lemma up4_dvd: "4 dvd up4 n"
  by (simp add: up4_def)

lemma length_CPIO_MAGIC [simp]: "length CPIO_MAGIC = 6"
  by (simp add: CPIO_MAGIC_def str_bytes_def)

lemma length_encode_header: "file_fits f \<Longrightarrow> length (encode_header f) = 110"
  by (simp add: file_fits_def encode_header_def)

lemma length_encode_file:
  assumes "file_fits f"
  shows "length (encode_file f) = up4 (110 + length (file_name f) + 1) + up4 (length (contents f))"
  using up4_ge(1) [of "length (contents f)"] up4_ge(1) [of "111 + length (file_name f)"]
  by (simp add: encode_file_def Let_def pad4_def length_encode_header [OF assms])

lemma header_of_file:
  assumes "file_fits f"
  shows "header_at (pre @ encode_file f @ rest) (length pre) = Some (length (file_name f) + 1, length (contents f))"
proof -
  obtain tl where e: "encode_file f = encode_header f @ tl" by (simp add: encode_file_def Let_def)
  have l: "length (fields_front f) = 48" "length (fields_mid f) = 32" "length (field_check f) = 8"
    "length (file_name f) + 1 < 2 ^ 32" "length (contents f) < 2 ^ 32"
    using assms by (simp_all add: file_fits_def)
  let ?img = "pre @ encode_file f @ rest"
  have "take 6 (drop (length pre) ?img) = CPIO_MAGIC" by (simp add: e encode_header_def)
  moreover have "take 8 (drop (length pre + 54) ?img) = hex_fixed 8 (length (contents f))"
    by (simp add: e encode_header_def l)
  moreover have "take 8 (drop (length pre + 94) ?img) = hex_fixed 8 (length (file_name f) + 1)"
    by (simp add: e encode_header_def l)
  moreover have "unat (of_nat (k mod 16 ^ 8) :: u32) = k" if "k < 2 ^ 32" for k :: nat
    using that by (simp add: unat_of_nat take_bit_nat_eq_self)
  ultimately show ?thesis using l(4,5) by (simp only: header_at_def hex_field_fixed option.case) simp
qed

lemma scan_file:
  assumes "file_fits f" "4 dvd length pre" "img = pre @ encode_file f @ rest"
  shows "cpio_scan img (length pre) =
    (if file_name f = TRAILER then []
     else (file_name f, length pre + up4 (110 + length (file_name f) + 1), length (contents f)) #
       cpio_scan img (length pre + length (encode_file f)))"
    "take (length (contents f)) (drop (length pre + up4 (110 + length (file_name f) + 1)) img) = contents f"
proof -
  let ?ln = "length (file_name f)" and ?ld = "length (contents f)" and ?o = "length pre"
  have h: "header_at img ?o = Some (?ln + 1, ?ld)" unfolding assms(3) by (rule header_of_file [OF assms(1)])
  note lh = length_encode_header [OF assms(1)] and lf = length_encode_file [OF assms(1)]
  have L: "length img = ?o + up4 (110 + ?ln + 1) + up4 ?ld + length rest" by (simp add: assms(3) lf)
  have n: "take (?ln + 1 - 1) (drop (?o + 110) img) = file_name f"
    by (simp add: assms(3) encode_file_def Let_def lh)
  have d: "up4 (?o + 110 + (?ln + 1)) = ?o + up4 (110 + ?ln + 1)"
    using up4_shift [OF assms(2), of "110 + ?ln + 1"] by (simp only: add.assoc)
  have nx: "up4 (?o + up4 (110 + ?ln + 1) + ?ld) = ?o + length (encode_file f)"
    using up4_shift [of "?o + up4 (110 + ?ln + 1)" ?ld] assms(2) up4_dvd by (simp add: lf)
  have ge: "110 + ?ln + 1 \<le> up4 (110 + ?ln + 1)" "?ld \<le> up4 ?ld" by (rule up4_ge(1))+
  have c: "?o + 110 \<le> length img" "\<not> ?o + 110 + (?ln + 1) > length img" "\<not> ?o + up4 (110 + ?ln + 1) + ?ld > length img"
    using ge by (simp_all only: L)
  show "cpio_scan img ?o = (if file_name f = TRAILER then []
     else (file_name f, ?o + up4 (110 + ?ln + 1), ?ld) # cpio_scan img (?o + length (encode_file f)))"
    using c by (simp only: cpio_scan.simps [of img ?o] h option.case prod.case Let_def n d nx if_True if_False simp_thms)
  have "drop (?o + up4 (110 + ?ln + 1)) img = contents f @ pad4 ?ld @ rest"
  proof -
    let ?P = "pre @ encode_header f @ file_name f @ [0] @ pad4 (110 + ?ln + 1)"
    have "length ?P = ?o + up4 (110 + ?ln + 1)" using ge(1) by (simp add: lh pad4_def)
    moreover have "img = ?P @ contents f @ pad4 ?ld @ rest" by (simp add: assms(3) encode_file_def Let_def)
    ultimately show ?thesis by (metis append_eq_conv_conj)
  qed
  then show "take ?ld (drop (?o + up4 (110 + ?ln + 1)) img) = contents f" by simp
qed

lemma encode_file_dvd: "file_fits f \<Longrightarrow> 4 dvd length (encode_file f)"
  by (simp add: length_encode_file up4_dvd)

lemma scan_archive:
  assumes "list_all (\<lambda>f. file_fits f \<and> file_name f \<noteq> TRAILER) fs" "file_fits tr" "file_name tr = TRAILER" "4 dvd length pre"
    "img = pre @ archive fs tr rest"
  shows "cpio_scan img (length pre) = placed (length pre) fs \<and>
    list_all2 (\<lambda>(n, d, k) f. n = file_name f \<and> take k (drop d img) = contents f) (placed (length pre) fs) fs"
  using assms(1,4,5)
proof (induction fs arbitrary: pre)
  case Nil
  then show ?case using scan_file(1) [OF assms(2), of pre img rest] assms(3) by (simp add: archive_def)
next
  case (Cons f fs)
  then have f: "file_fits f" "file_name f \<noteq> TRAILER" by simp_all
  have i1: "img = pre @ encode_file f @ (concat (map encode_file fs) @ encode_file tr @ rest)"
    using Cons.prems(3) by (simp add: archive_def)
  have i2: "img = (pre @ encode_file f) @ archive fs tr rest" using Cons.prems(3) by (simp add: archive_def)
  have "4 dvd length (pre @ encode_file f)" using Cons.prems(2) encode_file_dvd [OF f(1)] by simp
  from Cons.IH [OF _ this i2] Cons.prems(1)
  have "cpio_scan img (length pre + length (encode_file f)) = placed (length pre + length (encode_file f)) fs \<and>
    list_all2 (\<lambda>(n, d, k) f. n = file_name f \<and> take k (drop d img) = contents f) (placed (length pre + length (encode_file f)) fs) fs"
    by simp
  with scan_file [OF f(1) Cons.prems(2) i1] f(2) show ?case by simp
qed

lemma find_list_all2_map_of:
  assumes "list_all2 (\<lambda>e f. entry_name e = g f \<and> rd e = h f) es fs"
  shows "map_option rd (List.find (\<lambda>e. entry_name e = path) es) = map_of (map (\<lambda>f. (g f, h f)) fs) path"
  using assms by (induction rule: list_all2_induct) auto

lemma archive_entries:
  assumes "unat len < 2 ^ 63" "b \<noteq> 0" "read_bytes m b (unat len) = archive fs tr rest"
    "list_all (\<lambda>f. file_fits f \<and> file_name f \<noteq> TRAILER) fs" "file_fits tr" "file_name tr = TRAILER"
  shows "list_all2 (\<lambda>e f. entry_name e = file_name f \<and> read_bytes m (entry_data e) (unat (entry_size e)) = contents f)
    (initrd_entries m b len) fs"
proof -
  let ?img = "archive fs tr rest"
  have L: "length ?img = unat len" using assms(3) by (metis length_read_bytes)
  have "110 \<le> up4 (110 + length (file_name tr) + 1)" using up4_ge(1) [of "110 + length (file_name tr) + 1"] by simp
  then have "110 \<le> length ?img" by (simp add: archive_def length_encode_file [OF assms(5)])
  then have img: "initrd_image m b len = ?img" using assms(2,3) L by (simp add: initrd_image_def word_less_nat_alt)
  have sc: "cpio_scan ?img 0 = placed 0 fs"
    "list_all2 (\<lambda>(n, d, k) f. n = file_name f \<and> take k (drop d ?img) = contents f) (placed 0 fs) fs"
    using scan_archive [OF assms(4-6), of "[]" ?img rest] by simp_all
  have "read_bytes m (b + of_nat d) (unat (of_nat k :: u64)) = take k (drop d ?img)" if "(n, d, k) \<in> set (placed 0 fs)" for n d k
  proof -
    have dk: "d + k \<le> unat len" using cpio_scan_bounds [of n d k ?img 0] that sc(1) L by simp
    then have "unat (of_nat k :: u64) = k" using assms(1) by (simp add: unat_of_nat take_bit_nat_eq_self)
    then show ?thesis using read_bytes_sub [OF dk, of m b] assms(3) by simp
  qed
  then have rd: "list_all2 (\<lambda>e f. entry_name e = file_name f \<and> read_bytes m (entry_data e) (unat (entry_size e)) = contents f)
      (map (to_entry b) (placed 0 fs)) fs"
    unfolding list_all2_map1 by (intro list.rel_mono_strong [OF sc(2)]) (auto simp: to_entry_def)
  then show ?thesis by (simp add: initrd_entries_def img sc(1))
qed

lemma read_back: "length bs < 2 ^ 64 \<Longrightarrow> read_bytes (write_bytes m a bs) a (length bs) = bs"
  by (rule nth_equalityI) (auto simp: read_bytes_def write_bytes_def unat_of_nat take_bit_nat_eq_self)

definition example_files :: "cpio_file list" where
  "example_files =
     [\<lparr>file_name = str_bytes ''ai.mod'', contents = str_bytes ''AIMD'' @ [1, 0, 4, 0, 0, 0, 0, 0, 0, 0, 0, 0], fields_front = replicate 48 48,
       fields_mid = replicate 32 48, field_check = replicate 8 48\<rparr>]"

definition example_trailer :: cpio_file where
  "example_trailer =
     \<lparr>file_name = TRAILER, contents = [], fields_front = replicate 48 48,
      fields_mid = replicate 32 48, field_check = replicate 8 48\<rparr>"

definition example_initrd :: initrd where
  "example_initrd = \<lparr>INITRD_BASE = 0x200000, INITRD_LEN = 260\<rparr>"

definition example_mem :: mem where
  "example_mem = write_bytes (\<lambda>_. 0) 0x200000 (archive example_files example_trailer [])"

lemma example_fits:
  "list_all (\<lambda>f. file_fits f \<and> file_name f \<noteq> TRAILER) example_files" "file_fits example_trailer"
  "file_name example_trailer = TRAILER"
  by (simp_all add: example_files_def example_trailer_def file_fits_def TRAILER_def str_bytes_def)

lemma example_archive: "read_bytes example_mem 0x200000 260 = archive example_files example_trailer []"
proof -
  have "length (archive example_files example_trailer []) = 260"
    using example_fits
    by (simp add: archive_def example_files_def length_encode_file up4_def)
      (simp add: example_trailer_def TRAILER_def str_bytes_def)
  then show ?thesis
    using read_back [of "archive example_files example_trailer []" "\<lambda>_. 0" "0x200000"] by (simp add: example_mem_def)
qed

lemma cpio_find_first:
  assumes "unat len < 2 ^ 63"
  shows "cpio_find m b len want =
    Some (map_option entry_data (List.find (\<lambda>e. name_matches (entry_name e) want) (initrd_entries m b len)))"
proof -
  have "first_match b want es = map_option entry_data (List.find (\<lambda>e. name_matches (entry_name e) want) (map (to_entry b) es))" for es
    by (induction es) (auto simp: first_match_def to_entry_def)
  then show ?thesis by (simp add: cpio_find_entries [OF assms] initrd_entries_def)
qed

section \<open>Properties\<close>

text \<open>C19: On any memory contents and any image below $2^{63}$ bytes, the walk over the initrd ends: it
  calls the callback for the entries of the reference scan in order, every entry it hands out lies
  inside the image, and nothing outside the image influences what it reports.\<close>
theorem initrd_walk_total_and_confined:
  assumes "unat (INITRD_LEN r) < 2 ^ 63"
  shows "for_each m r f s = Some (fold f (initrd_entries m (INITRD_BASE r) (INITRD_LEN r)) s) \<and>
    (\<forall>e \<in> set (initrd_entries m (INITRD_BASE r) (INITRD_LEN r)).
       region (entry_data e) (unat (entry_size e)) \<subseteq> region (INITRD_BASE r) (unat (INITRD_LEN r))) \<and>
    (\<forall>m'. (\<forall>x \<in> region (INITRD_BASE r) (unat (INITRD_LEN r)). m x = m' x) \<longrightarrow> for_each m' r f s = for_each m r f s)"
proof (intro conjI ballI allI impI)
  show "for_each m r f s = Some (fold f (initrd_entries m (INITRD_BASE r) (INITRD_LEN r)) s)"
    by (rule for_each_entries [OF assms])
next
  fix e assume "e \<in> set (initrd_entries m (INITRD_BASE r) (INITRD_LEN r))"
  then show "region (entry_data e) (unat (entry_size e)) \<subseteq> region (INITRD_BASE r) (unat (INITRD_LEN r))"
    by (rule entry_in_region [OF _ assms])
next
  fix m' assume "\<forall>x \<in> region (INITRD_BASE r) (unat (INITRD_LEN r)). m x = m' x"
  then have "initrd_image m' (INITRD_BASE r) (INITRD_LEN r) = initrd_image m (INITRD_BASE r) (INITRD_LEN r)"
    by (intro initrd_image_cong) simp
  then show "for_each m' r f s = for_each m r f s" by (simp add: for_each_entries [OF assms] initrd_entries_def)
qed

theorem initrd_walk_total_and_confined_witness:
  "for_each example_mem example_initrd (\<lambda>e n. n + 1) (0 :: nat) = Some 1"
proof -
  have "length (initrd_entries example_mem 0x200000 260) = 1"
    using list_all2_lengthD [OF archive_entries [OF _ _ _ example_fits, of 260 "0x200000" example_mem "[]"]] example_archive
    by (simp add: example_files_def)
  then obtain e where "initrd_entries example_mem 0x200000 260 = [e]" by (auto simp: length_Suc_conv)
  then show ?thesis
    using initrd_walk_total_and_confined [of example_initrd example_mem "\<lambda>e n. n + 1" "0 :: nat"]
    by (simp add: example_initrd_def)
qed

text \<open>C9: Looking a path up in an initrd that holds an archive of files returns the contents of the
  first file of that name and nothing for a name the archive does not have, whatever the header
  fields the kernel does not read and whatever follows the trailer.\<close>
theorem ramfs_find_is_archive_lookup:
  assumes "unat (INITRD_LEN r) < 2 ^ 63" "INITRD_BASE r \<noteq> 0"
    "read_bytes m (INITRD_BASE r) (unat (INITRD_LEN r)) = archive fs tr rest"
    "list_all (\<lambda>f. file_fits f \<and> file_name f \<noteq> TRAILER) fs" "file_fits tr" "file_name tr = TRAILER"
  shows "\<exists>res. ramfs_find m r path = Some res \<and>
    map_option (\<lambda>(p, k). read_bytes m p (unat k)) res = map_of (map (\<lambda>f. (file_name f, contents f)) fs) path"
  using find_list_all2_map_of [OF archive_entries [OF assms], of path]
  by (simp add: ramfs_find_entries [OF assms(1)] option.map_comp comp_def)

theorem ramfs_find_is_archive_lookup_witness:
  "\<exists>p k. ramfs_find example_mem example_initrd (str_bytes ''ai.mod'') = Some (Some (p, k)) \<and>
     read_bytes example_mem p (unat k) = str_bytes ''AIMD'' @ [1, 0, 4, 0, 0, 0, 0, 0, 0, 0, 0, 0]"
  using ramfs_find_is_archive_lookup [OF _ _ _ example_fits, of example_initrd example_mem "[]" "str_bytes ''ai.mod''"] example_archive
  by (auto simp: example_initrd_def example_files_def)

text \<open>C32: The model loader's own walker agrees with the file system's: it returns the data of the first
  entry the walk reports whose name is the wanted one or that name after \<^verbatim>\<open>./\<close>, and it ends on
  every image below $2^{63}$ bytes.\<close>
theorem cpio_find_agrees_with_ramfs:
  assumes "unat len < 2 ^ 63"
  shows "cpio_find m b len want =
    Some (map_option entry_data (List.find (\<lambda>e. name_matches (entry_name e) want) (initrd_entries m b len)))"
  by (rule cpio_find_first [OF assms])

theorem cpio_find_agrees_with_ramfs_witness:
  "\<exists>p. cpio_find example_mem 0x200000 260 (str_bytes ''ai.mod'') = Some (Some p)"
proof -
  obtain e where "initrd_entries example_mem 0x200000 260 = [e]" "entry_name e = str_bytes ''ai.mod''"
    using archive_entries [OF _ _ _ example_fits, of 260 "0x200000" example_mem "[]"] example_archive
    by (auto simp: example_files_def list_all2_Cons2)
  then show ?thesis
    using cpio_find_agrees_with_ramfs [of 260 example_mem "0x200000" "str_bytes ''ai.mod''"]
    by (simp add: name_matches_def)
qed

end
