(* ===== verification/Ai_Model.thy ===== *)
theory Ai_Model
  imports Ramfs
begin

text \<open>
  The model file of the agent: its header and the layout of its weights
  (\<^verbatim>\<open>kernel/src/ai_model.rs\<close>), the linkage symbols (\<^verbatim>\<open>ai_link.rs\<close>) and the search for a model in the
  initrd (\<^verbatim>\<open>ai_initrd.rs\<close>). The saturating sums of the source are compared with exact ones: no
  header can make them saturate, and the layers tile the payload without gap or overlap.
\<close>

section \<open>The header\<close>

record ModelHeader =
  hdr_magic :: bytes
  n_layers :: u16
  hidden :: u16
  vocab :: u32
  dtype :: u8
  hdr_res :: bytes

definition MODEL_MAGIC :: bytes where
  "MODEL_MAGIC = str_bytes ''AIMD''"

definition HEADER_SIZE :: usize where
  "HEADER_SIZE = 16"

definition PAYLOAD_OFFSET :: usize where
  "PAYLOAD_OFFSET = 0x10"

definition header_valid :: "ModelHeader \<Rightarrow> bool" where
  "header_valid h \<longleftrightarrow> hdr_magic h = MODEL_MAGIC \<and> n_layers h \<ge> 1 \<and> hidden h \<ge> 1 \<and> (dtype h = 0 \<or> dtype h = 1)"

text \<open>The \<^verbatim>\<open>repr(C)\<close> layout: magic at 0, layers at 4, width at 6, vocabulary at 8, type at 12.\<close>

definition load_header :: "mem \<Rightarrow> u64 \<Rightarrow> ModelHeader" where
  "load_header m p =
     \<lparr>hdr_magic = read_bytes m p 4, n_layers = le_word (read_bytes m (p + 4) 2),
      hidden = le_word (read_bytes m (p + 6) 2), vocab = le_word (read_bytes m (p + 8) 4),
      dtype = m (p + 12), hdr_res = read_bytes m (p + 13) 3\<rparr>"

definition read_unaligned :: "mem \<Rightarrow> u64 \<Rightarrow> usize \<Rightarrow> ModelHeader option" where
  "read_unaligned m ptr len = (if ptr = 0 \<or> len < HEADER_SIZE then None else Some (load_header m ptr))"

section \<open>The layout of the weights\<close>

definition last_out :: "ModelHeader \<Rightarrow> usize" where
  "last_out h = (if vocab h \<noteq> 0 then ucast (vocab h) else ucast (hidden h))"

definition out_dim :: "ModelHeader \<Rightarrow> nat \<Rightarrow> usize" where
  "out_dim h l = (if l + 1 = unat (n_layers h) then last_out h else ucast (hidden h))"

definition add_layer :: "ModelHeader \<Rightarrow> nat \<Rightarrow> usize \<Rightarrow> usize" where
  "add_layer h l acc =
     (let in_dim = ucast (hidden h);
          acc = saturating_add acc (saturating_mul in_dim (out_dim h l))
      in saturating_add acc (saturating_mul (out_dim h l) 4))"

definition compute :: "ModelHeader \<Rightarrow> usize option" where
  "compute h =
     (if dtype h \<noteq> 0 then None
      else if n_layers h = 0 then None
      else Some (fold (add_layer h) [0..<unat (n_layers h)] 0))"

definition layer_ptr_int8 :: "u64 \<Rightarrow> ModelHeader \<Rightarrow> nat \<Rightarrow> u64 option" where
  "layer_ptr_int8 b h layer =
     (if dtype h \<noteq> 0 then None
      else if layer \<ge> unat (n_layers h) then None
      else
        (let offset = fold (add_layer h) [0..<layer] 0
         in Some (b + (PAYLOAD_OFFSET + offset))))"

definition layer_dims :: "ModelHeader \<Rightarrow> nat \<Rightarrow> (usize \<times> usize) option" where
  "layer_dims h layer =
     (if layer \<ge> unat (n_layers h) then None else Some (ucast (hidden h), out_dim h layer))"

definition bias_ptr_i32 :: "u64 \<Rightarrow> ModelHeader \<Rightarrow> nat \<Rightarrow> u64 option" where
  "bias_ptr_i32 b h layer =
     (if dtype h \<noteq> 0 then None
      else if layer \<ge> unat (n_layers h) then None
      else
        (let offset = fold (add_layer h) [0..<layer] 0
         in case layer_dims h layer of
              None \<Rightarrow> None
            | Some (in_dim, out_d) \<Rightarrow>
                (let offset = saturating_add offset (saturating_mul in_dim out_d)
                 in Some (b + (PAYLOAD_OFFSET + offset)))))"

section \<open>Linkage symbols and the search in the initrd\<close>

record ai_link = initrd +
  AI_MODEL_ADDR :: u64
  AI_MODEL_LEN :: usize

definition ai_link_static :: ai_link where
  "ai_link_static = \<lparr>INITRD_BASE = 0, INITRD_LEN = 0, AI_MODEL_ADDR = 0, AI_MODEL_LEN = 0\<rparr>"

text \<open>The outer option is the walker's: \<open>None\<close> if it does not return.\<close>

definition try_set_model_from_initrd :: "mem \<Rightarrow> ai_link \<Rightarrow> ai_link option" where
  "try_set_model_from_initrd m k =
     (if AI_MODEL_ADDR k = 0 \<and> INITRD_BASE k \<noteq> 0 \<and> INITRD_LEN k \<ge> HEADER_SIZE then
        (case cpio_find m (INITRD_BASE k) (INITRD_LEN k) (str_bytes ''ai.mod'') of
           None \<Rightarrow> None
         | Some None \<Rightarrow> Some k
         | Some (Some ptr) \<Rightarrow>
             (case read_unaligned m ptr HEADER_SIZE of
                None \<Rightarrow> Some k
              | Some h \<Rightarrow>
                  if header_valid h then
                    (let off = saturating_sub ptr (INITRD_BASE k)
                     in Some (k\<lparr>AI_MODEL_ADDR := ptr, AI_MODEL_LEN := saturating_sub (INITRD_LEN k) off\<rparr>))
                  else Some k))
      else Some k)"

section \<open>Exact sizes\<close>

definition layer_bytes :: "ModelHeader \<Rightarrow> nat \<Rightarrow> nat" where
  "layer_bytes h l = unat (hidden h) * unat (out_dim h l) + 4 * unat (out_dim h l)"

definition layer_off :: "ModelHeader \<Rightarrow> nat \<Rightarrow> nat" where
  "layer_off h l = sum_list (map (layer_bytes h) [0..<l])"

lemma layer_off_Suc: "layer_off h (Suc l) = layer_off h l + layer_bytes h l"
  by (simp add: layer_off_def)

lemma out_dim_bound: "unat (out_dim h l) < 2 ^ 32" "l + 1 \<noteq> unat (n_layers h) \<Longrightarrow> unat (out_dim h l) \<le> 65535"
  using unat_ucast_u32(2) [of "vocab h"] unat_ucast_u16(2) [of "hidden h"]
  by (auto simp: out_dim_def last_out_def unat_ucast_u32(1) unat_ucast_u16(1))

lemma layer_bytes_bound:
  "layer_bytes h l < 2 ^ 49" "l + 1 \<noteq> unat (n_layers h) \<Longrightarrow> layer_bytes h l \<le> 65539 * 65535"
proof -
  have eq: "layer_bytes h l = (unat (hidden h) + 4) * unat (out_dim h l)" by (simp add: layer_bytes_def algebra_simps)
  have h: "unat (hidden h) + 4 \<le> 65539" using unat_ucast_u16(2) [of "hidden h"] by simp
  have "layer_bytes h l \<le> 65539 * (2 ^ 32 - 1)" unfolding eq using h out_dim_bound(1) [of h l] by (intro mult_le_mono) simp_all
  then show "layer_bytes h l < 2 ^ 49" by simp
  show "l + 1 \<noteq> unat (n_layers h) \<Longrightarrow> layer_bytes h l \<le> 65539 * 65535"
    unfolding eq using h out_dim_bound(2) [of l h] by (intro mult_le_mono) simp_all
qed

lemma layer_off_bound:
  "l < unat (n_layers h) \<Longrightarrow> layer_off h l \<le> l * (65539 * 65535)"
proof (induction l)
  case (Suc l)
  then show ?case using layer_bytes_bound(2) [of l h] by (simp add: layer_off_Suc)
qed (simp add: layer_off_def)

lemma layer_off_limit: "l \<le> unat (n_layers h) \<Longrightarrow> layer_off h l < 2 ^ 50"
proof (cases l)
  case (Suc k)
  assume "l \<le> unat (n_layers h)"
  with Suc have k: "k < unat (n_layers h)" "k \<le> 65534" using unat_ucast_u16(2) [of "n_layers h"] by simp_all
  then have "layer_off h k \<le> 65534 * (65539 * 65535)"
    using layer_off_bound [OF k(1)] by (meson le_trans mult_le_mono1)
  with layer_bytes_bound(1) [of h k] Suc show ?thesis by (simp add: layer_off_Suc)
qed (simp add: layer_off_def)

lemma add_layer_exact:
  assumes "unat acc + layer_bytes h l < 2 ^ 64"
  shows "unat (add_layer h l acc) = unat acc + layer_bytes h l"
  using assms by (simp add: add_layer_def Let_def layer_bytes_def unat_saturating_add unat_saturating_mul unat_ucast_u16(1))

lemma fold_add_layer: "l \<le> unat (n_layers h) \<Longrightarrow> unat (fold (add_layer h) [0..<l] 0) = layer_off h l"
proof (induction l)
  case (Suc l)
  have "layer_off h l + layer_bytes h l < 2 ^ 64" using layer_off_limit [OF Suc.prems] by (simp add: layer_off_Suc)
  then show ?case using Suc add_layer_exact [of "fold (add_layer h) [0..<l] 0" h l] by (simp add: layer_off_Suc)
qed (simp add: layer_off_def)

lemma fold_add_layer_of_nat: "l \<le> unat (n_layers h) \<Longrightarrow> fold (add_layer h) [0..<l] 0 = of_nat (layer_off h l)"
  using fold_add_layer [of l h] by (metis of_nat_unat ucast_id)

lemma layer_pointers:
  assumes "dtype h = 0" "l < unat (n_layers h)"
  shows "layer_dims h l = Some (ucast (hidden h), out_dim h l)"
    "layer_ptr_int8 b h l = Some (b + (16 + of_nat (layer_off h l)))"
    "bias_ptr_i32 b h l = Some (b + (16 + of_nat (layer_off h l + unat (hidden h) * unat (out_dim h l))))"
proof -
  show d: "layer_dims h l = Some (ucast (hidden h), out_dim h l)" using assms by (simp add: layer_dims_def)
  show "layer_ptr_int8 b h l = Some (b + (16 + of_nat (layer_off h l)))"
    using assms by (simp add: layer_ptr_int8_def PAYLOAD_OFFSET_def fold_add_layer_of_nat)
  let ?w = "unat (hidden h) * unat (out_dim h l)"
  have lim: "layer_off h l + ?w < 2 ^ 50"
    using layer_off_limit [of "Suc l" h] assms(2) by (simp add: layer_off_Suc layer_bytes_def)
  have u: "unat (of_nat (layer_off h l) :: u64) = layer_off h l"
    using lim by (simp add: unat_of_nat take_bit_nat_eq_self)
  have "unat (saturating_add (of_nat (layer_off h l)) (saturating_mul (ucast (hidden h)) (out_dim h l)) :: u64) = layer_off h l + ?w"
    using lim by (simp add: unat_saturating_add unat_saturating_mul unat_ucast_u16(1) u)
  then have "saturating_add (of_nat (layer_off h l)) (saturating_mul (ucast (hidden h)) (out_dim h l)) = (of_nat (layer_off h l + ?w) :: u64)"
    by (metis of_nat_unat ucast_id)
  then show "bias_ptr_i32 b h l = Some (b + (16 + of_nat (layer_off h l + ?w)))"
    using assms d by (simp add: bias_ptr_i32_def PAYLOAD_OFFSET_def fold_add_layer_of_nat)
qed

section \<open>Properties\<close>

text \<open>C33: No header makes the saturating sums saturate: for an int8 model the computed payload is the
  exact sum over its layers, below $2^{50}$ bytes. The layers tile it: the weights of a layer start
  where the previous one ends, its biases follow its weights, the next layer follows its biases,
  and the last bias ends at the computed total.\<close>
theorem weights_tile_payload:
  assumes "dtype h = 0" "n_layers h \<noteq> 0"
  shows "\<exists>total. compute h = Some total \<and> unat total = layer_off h (unat (n_layers h)) \<and> unat total < 2 ^ 50 \<and>
    (\<forall>l < unat (n_layers h). \<exists>i out w b.
       layer_dims h l = Some (i, out) \<and> layer_ptr_int8 base h l = Some w \<and> bias_ptr_i32 base h l = Some b \<and>
       w = base + (16 + of_nat (layer_off h l)) \<and> b = w + of_nat (unat i * unat out) \<and>
       layer_off h (Suc l) = layer_off h l + unat i * unat out + 4 * unat out)"
proof -
  have "compute h = Some (fold (add_layer h) [0..<unat (n_layers h)] 0)" using assms by (simp add: compute_def)
  moreover have "\<exists>i out w b.
       layer_dims h l = Some (i, out) \<and> layer_ptr_int8 base h l = Some w \<and> bias_ptr_i32 base h l = Some b \<and>
       w = base + (16 + of_nat (layer_off h l)) \<and> b = w + of_nat (unat i * unat out) \<and>
       layer_off h (Suc l) = layer_off h l + unat i * unat out + 4 * unat out" if l: "l < unat (n_layers h)" for l
    using layer_pointers [OF assms(1) l] by (simp add: layer_off_Suc layer_bytes_def unat_ucast_u16(1))
  ultimately show ?thesis
    using fold_add_layer [OF order.refl, of h] layer_off_limit [OF order.refl, of h] by auto
qed

definition example_header :: ModelHeader where
  "example_header = \<lparr>hdr_magic = MODEL_MAGIC, n_layers = 2, hidden = 4, vocab = 3, dtype = 0, hdr_res = [0, 0, 0]\<rparr>"

theorem weights_tile_payload_witness:
  "\<exists>total. compute example_header = Some total \<and> unat total = 56"
proof -
  have "layer_off example_header 2 = 56"
    by (simp add: layer_off_def layer_bytes_def out_dim_def last_out_def example_header_def upt_rec)
  then show ?thesis using weights_tile_payload [of example_header 0] by (auto simp: example_header_def)
qed

lemma entry_offset:
  assumes "unat len < 2 ^ 63" "unat b + unat len \<le> 2 ^ 64" "e \<in> set (initrd_entries m b len)" "entry_data e \<noteq> 0"
  shows "unat b \<le> unat (entry_data e)" "unat (entry_data e) - unat b \<le> unat len"
proof -
  obtain n d k where e: "e = to_entry b (n, d, k)" "(n, d, k) \<in> set (cpio_scan (initrd_image m b len) 0)"
    using assms(3) by (auto simp: initrd_entries_def)
  have dk: "d + k \<le> unat len" using cpio_scan_bounds [OF e(2)] by (simp add: initrd_image_def split: if_splits)
  have u: "unat (of_nat d :: u64) = d" using dk assms(1) by (simp add: unat_of_nat take_bit_nat_eq_self)
  have data: "entry_data e = b + of_nat d" by (simp add: e(1) to_entry_def)
  have "unat b + d \<noteq> 2 ^ 64"
  proof
    assume "unat b + d = 2 ^ 64"
    then have "unat (b + of_nat d) = 0" by (simp add: unat_word_ariths u)
    with data assms(4) show False by (simp add: unat_eq_0)
  qed
  then have "unat (entry_data e) = unat b + d"
    using dk assms(2) data by (simp add: unat_add_no_wrap u)
  then show "unat b \<le> unat (entry_data e)" "unat (entry_data e) - unat b \<le> unat len" using dk by simp_all
qed

lemma installed_length:
  assumes "unat b \<le> unat p" "unat p - unat b \<le> unat len"
  shows "unat p + unat (saturating_sub len (saturating_sub p b)) = unat b + unat (len :: u64)"
  using assms by (simp add: unat_saturating_sub)

text \<open>The search in the initrd ends on every image below $2^{63}$ bytes that does not wrap around the
  address space. It installs a model only if none was set, only at the data of the first entry
  named \<^verbatim>\<open>ai.mod\<close> and only with a valid header, and the range it installs ends exactly where the
  image ends; otherwise it changes nothing.\<close>
theorem installed_model_is_valid:
  assumes "unat (INITRD_LEN k) < 2 ^ 63" "unat (INITRD_BASE k) + unat (INITRD_LEN k) \<le> 2 ^ 64"
  shows "\<exists>k'. try_set_model_from_initrd m k = Some k' \<and>
    (k' = k \<or>
     AI_MODEL_ADDR k = 0 \<and> header_valid (load_header m (AI_MODEL_ADDR k')) \<and>
     (\<exists>e. List.find (\<lambda>e. name_matches (entry_name e) (str_bytes ''ai.mod''))
          (initrd_entries m (INITRD_BASE k) (INITRD_LEN k)) = Some e \<and> entry_data e = AI_MODEL_ADDR k') \<and>
     k' = k\<lparr>AI_MODEL_ADDR := AI_MODEL_ADDR k', AI_MODEL_LEN := AI_MODEL_LEN k'\<rparr> \<and>
     unat (AI_MODEL_ADDR k') + unat (AI_MODEL_LEN k') = unat (INITRD_BASE k) + unat (INITRD_LEN k))"
proof -
  let ?es = "initrd_entries m (INITRD_BASE k) (INITRD_LEN k)"
  let ?f = "List.find (\<lambda>e. name_matches (entry_name e) (str_bytes ''ai.mod'')) ?es"
  have cf: "cpio_find m (INITRD_BASE k) (INITRD_LEN k) (str_bytes ''ai.mod'') = Some (map_option entry_data ?f)"
    by (rule cpio_find_first [OF assms(1)])
  show ?thesis
  proof (cases ?f)
    case None
    then show ?thesis by (simp add: try_set_model_from_initrd_def cf)
  next
    case (Some e)
    then have "e \<in> set ?es" by (auto simp: find_Some_iff)
    then have len: "entry_data e \<noteq> 0 \<Longrightarrow> unat (entry_data e) +
        unat (saturating_sub (INITRD_LEN k) (saturating_sub (entry_data e) (INITRD_BASE k))) = unat (INITRD_BASE k) + unat (INITRD_LEN k)"
      using entry_offset [OF assms, of e m] by (intro installed_length) simp_all
    show ?thesis
      using len by (simp add: try_set_model_from_initrd_def cf Some read_unaligned_def HEADER_SIZE_def Let_def)
  qed
qed

lemma load_header_image:
  assumes "read_bytes m p 16 = img"
  shows "load_header m p =
    \<lparr>hdr_magic = take 4 img, n_layers = le_word (take 2 (drop 4 img)), hidden = le_word (take 2 (drop 6 img)),
     vocab = le_word (take 4 (drop 8 img)), dtype = img ! 12, hdr_res = take 3 (drop 13 img)\<rparr>"
proof -
  have r: "read_bytes m (p + of_nat k) n = take n (drop k img)" if "k + n \<le> 16" for k n
    using read_bytes_sub [OF that, of m p] assms by simp
  have "m (p + 12) = img ! 12" using assms [symmetric] by (simp add: read_bytes_def)
  then show ?thesis using r [of 0 4] r [of 4 2] r [of 6 2] r [of 8 4] r [of 13 3] by (simp add: load_header_def)
qed

theorem installed_model_is_valid_witness:
  "\<exists>k'. try_set_model_from_initrd example_mem (ai_link_static\<lparr>INITRD_BASE := 0x200000, INITRD_LEN := 260\<rparr>) = Some k' \<and>
     unat (AI_MODEL_ADDR k') + unat (AI_MODEL_LEN k') = 0x200000 + 260"
proof -
  let ?k = "ai_link_static\<lparr>INITRD_BASE := 0x200000, INITRD_LEN := 260\<rparr>"
  obtain e where e: "initrd_entries example_mem 0x200000 260 = [e]" "entry_name e = str_bytes ''ai.mod''"
    "read_bytes example_mem (entry_data e) (unat (entry_size e)) = str_bytes ''AIMD'' @ [1, 0, 4, 0, 0, 0, 0, 0, 0, 0, 0, 0]"
    using archive_entries [OF _ _ _ example_fits, of 260 "0x200000" example_mem "[]"] example_archive
    by (auto simp: example_files_def list_all2_Cons2)
  have "unat (entry_size e) = 16" using arg_cong [OF e(3), of length] by (simp add: str_bytes_def)
  then have v: "header_valid (load_header example_mem (entry_data e))"
    using load_header_image [of example_mem "entry_data e", OF e(3) [unfolded \<open>unat (entry_size e) = 16\<close>]]
    by (simp add: header_valid_def MODEL_MAGIC_def str_bytes_def le_word_def)
  have nz: "entry_data e \<noteq> 0"
  proof
    assume "entry_data e = 0"
    have "unat (entry_data e - 0x200000) \<le> 260"
      using entry_in_region [of e example_mem "0x200000" 260] e(1) \<open>unat (entry_size e) = 16\<close>
      by (auto simp: region_def subset_iff dest!: spec [of _ "entry_data e"])
    with \<open>entry_data e = 0\<close> show False by simp
  qed
  have "cpio_find example_mem 0x200000 260 (str_bytes ''ai.mod'') = Some (Some (entry_data e))"
    using cpio_find_first [of 260 example_mem "0x200000" "str_bytes ''ai.mod''"] e by (simp add: name_matches_def)
  then have s: "try_set_model_from_initrd example_mem ?k \<noteq> Some ?k"
    using v nz by (simp add: try_set_model_from_initrd_def read_unaligned_def HEADER_SIZE_def ai_link_static_def Let_def)
  show ?thesis using installed_model_is_valid [of ?k example_mem] s by (auto simp: ai_link_static_def)
qed

end
