(* ===== verification/Journal.thy ===== *)
theory Journal
  imports Serial
begin

text \<open>
  The action records (\<^verbatim>\<open>kernel/src/ai_action.rs\<close>) and the journal that reports every proposed
  action on the debug port (\<^verbatim>\<open>kernel/src/journal.rs\<close>), down to the digit buffer of its number
  printer, whose index arithmetic is shown never to leave the buffer.
\<close>

section \<open>Actions\<close>

record Action =
  kind :: u8
  flags :: u8
  reserved :: "u8 \<times> u8"
  param1 :: u64
  param2 :: u64
  param3 :: u64

definition REQUIRES_SNAPSHOT :: u8 where "REQUIRES_SNAPSHOT = 1"
definition HIGH_RISK :: u8 where "HIGH_RISK = 2"
definition NEEDS_MANUAL_CONFIRM :: u8 where "NEEDS_MANUAL_CONFIRM = 4"

datatype ActionType = ActNone | SetQuantum | SetAffinity | MigrateTask | TrimCache | Reboot | Halt

fun action_code :: "ActionType \<Rightarrow> u8" where
  "action_code ActNone = 0"
| "action_code SetQuantum = 1"
| "action_code SetAffinity = 2"
| "action_code MigrateTask = 3"
| "action_code TrimCache = 4"
| "action_code Reboot = 254"
| "action_code Halt = 255"

record ActionOutcome =
  outcome_result :: u8
  selftest_code :: u32
  snapshot_id :: u64

definition ActionOutcome_default :: ActionOutcome where
  "ActionOutcome_default = \<lparr>outcome_result = 0, selftest_code = 0, snapshot_id = 0\<rparr>"

section \<open>Journal output\<close>

definition e9 :: "u8 \<Rightarrow> io \<Rightarrow> io" where
  "e9 b s = outb 0xE9 b s"

definition journal_w :: "string \<Rightarrow> io \<Rightarrow> io" where
  "journal_w m s = fold e9 (str_bytes m) s"

text \<open>The digit loop: \<open>None\<close> is the panic of an index below the start of the buffer.\<close>

function fill_digits :: "u64 \<Rightarrow> u8 list \<Rightarrow> nat \<Rightarrow> (u8 list \<times> nat) option" where
  "fill_digits v buf i =
     (if v > 0 then
        (if i = 0 then None
         else fill_digits (v div 10) (buf[i - 1 := 48 + ucast (v mod 10)]) (i - 1))
      else Some (buf, i))"
  by pat_completeness auto
termination
proof (relation "measure (\<lambda>(v, buf, i). i)")
qed auto

declare fill_digits.simps [simp del]

definition w_u64 :: "u64 \<Rightarrow> io \<Rightarrow> io option" where
  "w_u64 v s =
     (if v = 0 then Some (e9 48 s)
      else map_option (\<lambda>(buf, i). fold e9 (drop i buf) s) (fill_digits v (replicate 20 0) 20))"

definition journal_sp :: "io \<Rightarrow> io" where
  "journal_sp s = e9 32 s"

definition journal_nl :: "io \<Rightarrow> io" where
  "journal_nl s = e9 10 s"

definition journal_line :: "u64 \<Rightarrow> string \<Rightarrow> u64 \<Rightarrow> io \<Rightarrow> io option" where
  "journal_line seq label v s =
     (case w_u64 seq (journal_w ''seq='' s) of
        None \<Rightarrow> None
      | Some s1 \<Rightarrow>
          (case w_u64 v (journal_w label (journal_sp s1)) of
             None \<Rightarrow> None
           | Some s2 \<Rightarrow> Some (journal_nl s2)))"

definition journal_intent :: "u64 \<Rightarrow> Action \<Rightarrow> io \<Rightarrow> io option" where
  "journal_intent seq a s = journal_line seq ''INTENT kind='' (ucast (kind a)) s"

definition journal_commit :: "u64 \<Rightarrow> Action \<Rightarrow> io \<Rightarrow> io option" where
  "journal_commit seq a s = journal_line seq ''APPLY_OK kind='' (ucast (kind a)) s"

definition journal_fail :: "u64 \<Rightarrow> Action \<Rightarrow> u32 \<Rightarrow> io \<Rightarrow> io option" where
  "journal_fail seq a code s = journal_line seq ''APPLY_FAIL code='' (ucast code) s"

definition journal_reject :: "u64 \<Rightarrow> Action \<Rightarrow> io \<Rightarrow> io option" where
  "journal_reject seq a s = journal_line seq ''REJECT kind='' (ucast (kind a)) s"

section \<open>Decimal output\<close>

lemma dec_digits_step: "10 \<le> n \<Longrightarrow> dec_digits n = dec_digits (n div 10) @ [48 + of_nat (n mod 10)]"
  by (simp add: dec_digits.simps [of n])

lemma dec_digits_small: "n < 10 \<Longrightarrow> dec_digits n = [48 + of_nat n]"
  by (simp add: dec_digits.simps [of n])

lemma length_dec_digits: "n < 10 ^ Suc k \<Longrightarrow> length (dec_digits n) \<le> Suc k"
proof (induction k arbitrary: n)
  case 0
  then show ?case by (simp add: dec_digits_small)
next
  case (Suc k)
  show ?case
  proof (cases "n < 10")
    case True
    then show ?thesis by (simp add: dec_digits_small)
  next
    case False
    have "n div 10 < 10 ^ Suc k" using Suc.prems by (simp add: less_mult_imp_div_less mult.commute)
    from Suc.IH [OF this] False show ?thesis by (simp add: dec_digits_step)
  qed
qed

lemma length_dec_u64: "length (dec_digits (unat (v :: u64))) \<le> 20"
proof -
  have "unat v < 2 ^ 64" using unsigned_less [of v] by simp
  then have "unat v < 10 ^ Suc 19" by simp
  from length_dec_digits [OF this] show ?thesis by simp
qed

lemma unat_u64_div10: "unat (v div 10 :: u64) = unat v div 10" "unat (v mod 10 :: u64) = unat v mod 10"
  by (simp_all add: unat_div unat_mod)

lemma fill_digits_correct:
  assumes "v > 0" and "length (dec_digits (unat v)) \<le> i" and "i \<le> length buf"
  shows "\<exists>buf' j. fill_digits v buf i = Some (buf', j) \<and> length buf' = length buf \<and>
    drop j buf' = dec_digits (unat v) @ drop i buf"
  using assms
proof (induction v buf i rule: fill_digits.induct)
  case (1 v buf i)
  let ?d = "48 + ucast (v mod 10) :: u8"
  have d: "?d = 48 + of_nat (unat v mod 10)"
    by (simp only: unat_u64_div10(2) [symmetric] of_nat_unat)
  have i0: "i \<noteq> 0" using "1.prems"(2) by (cases "unat v < 10") (auto simp: dec_digits_small dec_digits_step)
  have step: "fill_digits v buf i = fill_digits (v div 10) (buf[i - 1 := ?d]) (i - 1)"
    using "1.prems"(1) i0 by (simp add: fill_digits.simps [of v buf i])
  have tail: "drop (i - 1) (buf[i - 1 := ?d]) = ?d # drop i buf"
    using i0 "1.prems"(3) by (subst Cons_nth_drop_Suc [symmetric]) auto
  show ?case
  proof (cases "v div 10 > 0")
    case True
    then have ge: "10 \<le> unat v"
      by (metis div_less linorder_not_less unat_0 unat_u64_div10(1) word_less_nat_alt less_numeral_extra(3))
    have "\<exists>buf' j. fill_digits (v div 10) (buf[i - 1 := ?d]) (i - 1) = Some (buf', j) \<and>
        length buf' = length (buf[i - 1 := ?d]) \<and>
        drop j buf' = dec_digits (unat (v div 10)) @ drop (i - 1) (buf[i - 1 := ?d])"
      using "1.IH" [OF "1.prems"(1) i0 True] "1.prems"(2,3) ge
      by (simp add: dec_digits_step unat_u64_div10)
    then show ?thesis
      using step tail d ge by (auto simp: dec_digits_step unat_u64_div10)
  next
    case False
    then have "v div 10 = 0" by (simp add: word_gt_0)
    then have lt: "unat v < 10" by (metis unat_0 unat_u64_div10(1) div_eq_0_iff zero_neq_numeral)
    then show ?thesis
      using step tail d False "1.prems"(3) i0
      by (simp add: fill_digits.simps [of "v div 10"] dec_digits_small)
  qed
qed

lemma fold_e9: "fold e9 bs s = outb_all 0xE9 bs s"
  by (simp add: outb_all_def e9_def [abs_def])

lemma w_u64_correct: "w_u64 v s = Some (outb_all 0xE9 (dec_digits (unat v)) s)"
proof (cases "v = 0")
  case True
  then show ?thesis by (simp add: w_u64_def dec_digits_small outb_all_def e9_def)
next
  case False
  then have "v > 0" by (simp add: word_gt_0)
  from fill_digits_correct [OF this, of 20 "replicate 20 0"] length_dec_u64 [of v] False
  show ?thesis by (auto simp: w_u64_def fold_e9)
qed

definition journal_text :: "u64 \<Rightarrow> string \<Rightarrow> u64 \<Rightarrow> bytes" where
  "journal_text seq label v =
     str_bytes ''seq='' @ dec_digits (unat seq) @ [32] @ str_bytes label @ dec_digits (unat v) @ [10]"

lemma outb_all_append: "outb_all p ys (outb_all p xs s) = outb_all p (xs @ ys) s"
  by (simp add: outb_all_def)

lemma e9_single: "e9 b s = outb_all 0xE9 [b] s"
  by (simp add: e9_def outb_all_def)

lemma journal_line_correct: "journal_line seq label v s = Some (outb_all 0xE9 (journal_text seq label v) s)"
  by (simp add: journal_line_def journal_w_def journal_sp_def journal_nl_def fold_e9 e9_single
      w_u64_correct outb_all_append journal_text_def)

lemmas journal_defs = journal_intent_def journal_commit_def journal_fail_def journal_reject_def

section \<open>Reading a journal line back\<close>

definition digit_value :: "nat \<Rightarrow> u8 \<Rightarrow> nat" where
  "digit_value acc b = acc * 10 + (unat b - 48)"

definition dec_value :: "bytes \<Rightarrow> nat" where
  "dec_value bs = foldl digit_value 0 bs"

definition is_dec_digit :: "u8 \<Rightarrow> bool" where
  "is_dec_digit b \<longleftrightarrow> 48 \<le> b \<and> b \<le> 57"

lemma unat_ascii_digit: "d < 10 \<Longrightarrow> unat (48 + of_nat d :: u8) = 48 + d"
  by (simp add: unat_word_ariths unat_of_nat)

lemma dec_digits_digits: "\<forall>b \<in> set (dec_digits n). is_dec_digit b"
proof (induction n rule: dec_digits.induct)
  case (1 n)
  then show ?case
    by (cases "n < 10")
      (auto simp: dec_digits_small dec_digits_step is_dec_digit_def word_le_nat_alt unat_ascii_digit)
qed

lemma dec_value_digits: "dec_value (dec_digits n) = n"
proof (induction n rule: dec_digits.induct)
  case (1 n)
  then show ?case
    by (cases "n < 10")
      (auto simp: dec_digits_small dec_digits_step dec_value_def digit_value_def unat_ascii_digit)
qed

definition read_seq :: "bytes \<Rightarrow> nat" where
  "read_seq line = dec_value (takeWhile is_dec_digit (drop 4 line))"

lemma takeWhile_digits: "\<not> is_dec_digit b \<Longrightarrow> takeWhile is_dec_digit (dec_digits n @ b # bs) = dec_digits n"
  using dec_digits_digits [of n] by (simp add: takeWhile_append2)

lemma read_seq_journal: "read_seq (journal_text seq label v) = unat seq"
  by (simp add: read_seq_def journal_text_def str_bytes_def takeWhile_digits is_dec_digit_def dec_value_digits)

section \<open>Properties\<close>

text \<open>the number printer of the journal never leaves its 20-byte buffer and emits exactly the
  decimal digits of the value, most significant first, so that reading the digits back gives the
  value; every journal entry is therefore one complete line.\<close>

theorem journal_prints_decimal:
  "\<exists>ds. w_u64 v s = Some (outb_all 0xE9 ds s) \<and> dec_value ds = unat v \<and>
     list_all is_dec_digit ds \<and> 1 \<le> length ds \<and> length ds \<le> 20"
proof -
  have "dec_digits (unat v) \<noteq> []" by (subst dec_digits.simps) simp
  then have "1 \<le> length (dec_digits (unat v))" by (cases "dec_digits (unat v)") auto
  then show ?thesis
    using w_u64_correct [of v s] length_dec_u64 [of v] dec_value_digits dec_digits_digits [of "unat v"]
    by (auto simp: list_all_iff)
qed

end
