(* ===== verification/Counters.thy ===== *)
theory Counters
  imports Kernel_Prelude
begin

text \<open>
  The tick and page-fault counters that polling code reads (\<^verbatim>\<open>timer_ticks\<close> and \<^verbatim>\<open>page_faults\<close> of
  \<^verbatim>\<open>kernel/src/idt.rs\<close>). Interrupts advance them between any two reads, so a state carries, for each
  counter, the tape of the values successive reads return; an arbitrary tape is an arbitrary schedule
  of interrupts.
\<close>

record counters =
  tick_tape :: "nat \<Rightarrow> u64"
  tick_pos :: nat
  fault_tape :: "nat \<Rightarrow> u64"
  fault_pos :: nat

definition timer_ticks :: "counters \<Rightarrow> u64 \<times> counters" where
  "timer_ticks s = (tick_tape s (tick_pos s), s\<lparr>tick_pos := Suc (tick_pos s)\<rparr>)"

definition page_faults :: "counters \<Rightarrow> u64 \<times> counters" where
  "page_faults s = (fault_tape s (fault_pos s), s\<lparr>fault_pos := Suc (fault_pos s)\<rparr>)"

text \<open>The tapes a 64-bit counter that never wraps can produce.\<close>

definition monotone_tape :: "(nat \<Rightarrow> u64) \<Rightarrow> bool" where
  "monotone_tape t \<longleftrightarrow> (\<forall>i j. i \<le> j \<longrightarrow> t i \<le> t j)"

end
