(* ===== verification/Apply_Action.thy ===== *)
theory Apply_Action
  imports Journal Counters
begin

text \<open>
  The transactional action layer (\<^verbatim>\<open>kernel/src/apply_action.rs\<close>): admission of proposed actions, the
  scheduler quantum with its rollback, the self test that polls the timer, and the C entry point that
  numbers the proposals. A result \<open>None\<close> is a panic; the lemmas show that there is none.
\<close>

section \<open>State\<close>

record kern =
  kio :: io
  sens :: counters
  QUANTUM_US :: u32
  SEQ :: u64
  SYSTEM_READY :: bool

definition kern_static :: "io \<Rightarrow> counters \<Rightarrow> kern" where
  "kern_static s c = \<lparr>kio = s, sens = c, QUANTUM_US = 1000, SEQ = 0, SYSTEM_READY = False\<rparr>"

datatype ApplyError = NotAllowed | InvalidParams | ExecuteFailed | SelfTestFailed

fun apply_error_code :: "ApplyError \<Rightarrow> u32" where
  "apply_error_code NotAllowed = 1"
| "apply_error_code InvalidParams = 3"
| "apply_error_code ExecuteFailed = 4"
| "apply_error_code SelfTestFailed = 5"

type_synonym apply_result = "ApplyError + unit"

section \<open>Operations\<close>

definition is_allowed :: "u8 \<Rightarrow> bool" where
  "is_allowed k = (if k = action_code SetQuantum then True else if k = action_code TrimCache then True else False)"

definition validate_params :: "Action \<Rightarrow> bool" where
  "validate_params a =
     (if kind a = action_code SetQuantum then
        let us = (ucast (param1 a) :: u32) in 100 \<le> us \<and> us \<le> 50000
      else if kind a = action_code TrimCache then
        let bs = param1 a in bs > 0 \<and> bs \<le> 16 * 1024 * 1024
      else False)"

definition read_before_state :: "kern \<Rightarrow> u32" where
  "read_before_state st = QUANTUM_US st"

definition write_quantum :: "u32 \<Rightarrow> kern \<Rightarrow> bool \<times> kern" where
  "write_quantum us st = (True, st\<lparr>QUANTUM_US := us\<rparr>)"

fun spin_until_tick :: "nat \<Rightarrow> u64 \<Rightarrow> counters \<Rightarrow> counters" where
  "spin_until_tick 0 start c = c"
| "spin_until_tick (Suc n) start c =
     (let (t, c') = timer_ticks c
      in if saturating_sub t start \<ge> 1 then c' else spin_until_tick n start c')"

definition self_test_ok :: "counters \<Rightarrow> bool \<times> counters" where
  "self_test_ok c =
     (let (start_ticks, c) = timer_ticks c;
          (start_pf, c) = page_faults c;
          c = spin_until_tick 50000 start_ticks c;
          (t, c) = timer_ticks c;
          dt = saturating_sub t start_ticks;
          (f, c) = page_faults c;
          dp = saturating_sub f start_pf
      in (dt \<ge> 1 \<and> dp = 0, c))"

definition trim_cache :: "u64 \<Rightarrow> kern \<Rightarrow> bool \<times> kern" where
  "trim_cache bs st = (True, st)"

definition log_with :: "(io \<Rightarrow> io option) \<Rightarrow> kern \<Rightarrow> kern option" where
  "log_with f st = map_option (\<lambda>s. st\<lparr>kio := s\<rparr>) (f (kio st))"

definition execute :: "Action \<Rightarrow> kern \<Rightarrow> bool \<times> kern" where
  "execute a st =
     (if kind a = action_code SetQuantum then write_quantum (ucast (param1 a)) st
      else if kind a = action_code TrimCache then trim_cache (param1 a) st
      else (False, st))"

definition apply_action_atomic :: "u64 \<Rightarrow> Action \<Rightarrow> kern \<Rightarrow> (apply_result \<times> kern) option" where
  "apply_action_atomic seq a st =
     (if \<not> SYSTEM_READY st then
        map_option (\<lambda>st. (Inl NotAllowed, st)) (log_with (journal_reject seq a) st)
      else if \<not> is_allowed (kind a) \<or> \<not> validate_params a then
        map_option (\<lambda>st. (Inl NotAllowed, st)) (log_with (journal_reject seq a) st)
      else
        let before = read_before_state st
        in Option.bind (log_with (journal_intent seq a) st) (\<lambda>st.
             let (ok, st) = execute a st
             in if \<not> ok then
                  map_option (\<lambda>st. (Inl ExecuteFailed, st))
                    (log_with (journal_fail seq a (apply_error_code ExecuteFailed)) st)
                else
                  let (passed, c) = self_test_ok (sens st); st = st\<lparr>sens := c\<rparr>
                  in if passed then
                       map_option (\<lambda>st. (Inr (), st)) (log_with (journal_commit seq a) st)
                     else
                       let (_, st) = write_quantum before st
                       in map_option (\<lambda>st. (Inl SelfTestFailed, st))
                            (log_with (journal_fail seq a (apply_error_code SelfTestFailed)) st)))"

fun outcome_code :: "apply_result \<Rightarrow> u8" where
  "outcome_code (Inr _) = 0"
| "outcome_code (Inl NotAllowed) = 1"
| "outcome_code (Inl InvalidParams) = 3"
| "outcome_code (Inl ExecuteFailed) = 4"
| "outcome_code (Inl SelfTestFailed) = 5"

text \<open>The C entry point; a null pointer is \<open>None\<close>. The result is the return code, the outcome
  structure and the state.\<close>

definition ai_propose_action ::
  "Action option \<Rightarrow> ActionOutcome option \<Rightarrow> kern \<Rightarrow> (int \<times> ActionOutcome option \<times> kern) option" where
  "ai_propose_action action outcome st =
     (case (action, outcome) of
        (Some a, Some o') \<Rightarrow>
          (let s = SEQ st; st = st\<lparr>SEQ := SEQ st + 1\<rparr>
           in map_option (\<lambda>(res, st). (0, Some (o'\<lparr>outcome_result := outcome_code res\<rparr>), st))
                (apply_action_atomic s a st))
      | _ \<Rightarrow> Some (-1, outcome, st))"

definition set_system_ready :: "kern \<Rightarrow> kern" where
  "set_system_ready st = st\<lparr>SYSTEM_READY := True\<rparr>"

definition is_system_ready :: "kern \<Rightarrow> bool" where
  "is_system_ready st = SYSTEM_READY st"

definition get_quantum_us :: "kern \<Rightarrow> u32" where
  "get_quantum_us st = QUANTUM_US st"

section \<open>Journal effects\<close>

definition journalled :: "bytes \<Rightarrow> kern \<Rightarrow> kern" where
  "journalled bs st = st\<lparr>kio := outb_all 0xE9 bs (kio st)\<rparr>"

lemma journalled_simps [simp]:
  "QUANTUM_US (journalled bs st) = QUANTUM_US st" "SEQ (journalled bs st) = SEQ st"
  "SYSTEM_READY (journalled bs st) = SYSTEM_READY st" "sens (journalled bs st) = sens st"
  "e9_sent (kio (journalled bs st)) = e9_sent (kio st) @ bs"
  "com1_sent (kio (journalled bs st)) = com1_sent (kio st)"
  by (simp_all add: journalled_def e9_sent_def com1_sent_def io_simps COM1_BASE_def)

definition reject_text :: "u64 \<Rightarrow> Action \<Rightarrow> bytes" where
  "reject_text seq a = journal_text seq ''REJECT kind='' (ucast (kind a))"
definition intent_text :: "u64 \<Rightarrow> Action \<Rightarrow> bytes" where
  "intent_text seq a = journal_text seq ''INTENT kind='' (ucast (kind a))"
definition commit_text :: "u64 \<Rightarrow> Action \<Rightarrow> bytes" where
  "commit_text seq a = journal_text seq ''APPLY_OK kind='' (ucast (kind a))"
definition fail_text :: "u64 \<Rightarrow> u32 \<Rightarrow> bytes" where
  "fail_text seq code = journal_text seq ''APPLY_FAIL code='' (ucast code)"

lemma log_with_journal [simp]:
  "log_with (journal_reject seq a) st = Some (journalled (reject_text seq a) st)"
  "log_with (journal_intent seq a) st = Some (journalled (intent_text seq a) st)"
  "log_with (journal_commit seq a) st = Some (journalled (commit_text seq a) st)"
  "log_with (journal_fail seq a code) st = Some (journalled (fail_text seq code) st)"
  by (simp_all add: log_with_def journal_defs journal_line_correct journalled_def reject_text_def
      intent_text_def commit_text_def fail_text_def)

definition admitted :: "Action \<Rightarrow> kern \<Rightarrow> bool" where
  "admitted a st \<longleftrightarrow> SYSTEM_READY st \<and> is_allowed (kind a) \<and> validate_params a"

definition target_quantum :: "Action \<Rightarrow> u32 \<Rightarrow> u32" where
  "target_quantum a q = (if kind a = 1 then ucast (param1 a) else q)"

lemma execute_admitted:
  "is_allowed (kind a) \<Longrightarrow> execute a st = (True, st\<lparr>QUANTUM_US := target_quantum a (QUANTUM_US st)\<rparr>)"
  by (auto simp: execute_def is_allowed_def write_quantum_def trim_cache_def target_quantum_def split: if_splits)

lemma apply_rejected:
  "\<not> admitted a st \<Longrightarrow> apply_action_atomic seq a st = Some (Inl NotAllowed, journalled (reject_text seq a) st)"
  by (auto simp: apply_action_atomic_def admitted_def)

lemma apply_admitted:
  assumes "admitted a st"
  shows "apply_action_atomic seq a st =
    (let (passed, c) = self_test_ok (sens st);
         st1 = (journalled (intent_text seq a) st)\<lparr>QUANTUM_US := target_quantum a (QUANTUM_US st), sens := c\<rparr>
     in Some (if passed then (Inr (), journalled (commit_text seq a) st1)
              else (Inl SelfTestFailed, journalled (fail_text seq 5) (st1\<lparr>QUANTUM_US := QUANTUM_US st\<rparr>))))"
  using assms
  by (simp add: apply_action_atomic_def admitted_def execute_admitted read_before_state_def
      write_quantum_def Let_def split: prod.split)

section \<open>The self test\<close>

lemma sat_sub_ge_1: "saturating_sub t u \<ge> 1 \<longleftrightarrow> u < (t :: u64)"
  by (auto simp: word_le_nat_alt word_less_nat_alt unat_saturating_sub)

lemma sat_sub_eq_0: "saturating_sub t u = 0 \<longleftrightarrow> t \<le> (u :: u64)"
  by (simp add: word_unat_eq_iff word_le_nat_alt unat_saturating_sub)

lemma spin_until_tick_reads:
  "\<exists>k \<le> n. spin_until_tick n start c = c\<lparr>tick_pos := tick_pos c + k\<rparr> \<and>
     (k = n \<and> (\<forall>i < n. tick_tape c (tick_pos c + i) \<le> start) \<or>
      0 < k \<and> start < tick_tape c (tick_pos c + (k - 1)))"
proof (induction n arbitrary: c)
  case 0
  then show ?case by simp
next
  case (Suc n)
  let ?c = "c\<lparr>tick_pos := Suc (tick_pos c)\<rparr>"
  show ?case
  proof (cases "start < tick_tape c (tick_pos c)")
    case True
    then show ?thesis by (intro exI [of _ 1]) (simp add: timer_ticks_def sat_sub_ge_1)
  next
    case False
    then obtain k where k: "k \<le> n" "spin_until_tick n start ?c = ?c\<lparr>tick_pos := tick_pos ?c + k\<rparr>"
      and alt: "k = n \<and> (\<forall>i < n. tick_tape ?c (tick_pos ?c + i) \<le> start) \<or>
        0 < k \<and> start < tick_tape ?c (tick_pos ?c + (k - 1))"
      using Suc [of ?c] by auto
    have "\<forall>i < Suc n. tick_tape c (tick_pos c + i) \<le> start" if "\<forall>i < n. tick_tape ?c (tick_pos ?c + i) \<le> start"
      using that False by (auto simp: less_Suc_eq_0_disj)
    with k alt False show ?thesis
      by (intro exI [of _ "Suc k"]) (auto simp: timer_ticks_def sat_sub_ge_1)
  qed
qed

lemma self_test_frame:
  "\<exists>i j. snd (self_test_ok c) = c\<lparr>tick_pos := i, fault_pos := j\<rparr> \<and> i \<le> tick_pos c + 50002 \<and> j = fault_pos c + 2"
proof -
  let ?c = "c\<lparr>tick_pos := Suc (tick_pos c), fault_pos := Suc (fault_pos c)\<rparr>"
  obtain k where "k \<le> 50000" "spin_until_tick 50000 (tick_tape c (tick_pos c)) ?c = ?c\<lparr>tick_pos := tick_pos ?c + k\<rparr>"
    using spin_until_tick_reads [of 50000 "tick_tape c (tick_pos c)" ?c] by auto
  then show ?thesis by (auto simp: self_test_ok_def timer_ticks_def page_faults_def Let_def)
qed

definition alive :: "counters \<Rightarrow> bool" where
  "alive c \<longleftrightarrow> (\<exists>i \<le> 50001. tick_tape c (tick_pos c) < tick_tape c (tick_pos c + i)) \<and>
     fault_tape c (Suc (fault_pos c)) \<le> fault_tape c (fault_pos c)"

lemma self_test_iff_alive:
  assumes "monotone_tape (tick_tape c)"
  shows "fst (self_test_ok c) \<longleftrightarrow> alive c"
proof -
  let ?t = "tick_tape c" and ?p = "tick_pos c"
  let ?c = "c\<lparr>tick_pos := Suc ?p, fault_pos := Suc (fault_pos c)\<rparr>"
  obtain k where k: "k \<le> 50000" "spin_until_tick 50000 (?t ?p) ?c = ?c\<lparr>tick_pos := tick_pos ?c + k\<rparr>"
    and alt: "k = 50000 \<and> (\<forall>i < 50000. ?t (Suc (?p + i)) \<le> ?t ?p) \<or> 0 < k \<and> ?t ?p < ?t (Suc (?p + (k - 1)))"
    using spin_until_tick_reads [of 50000 "?t ?p" ?c] by auto
  have v: "fst (self_test_ok c) \<longleftrightarrow> ?t ?p < ?t (Suc (?p + k)) \<and> fault_tape c (Suc (fault_pos c)) \<le> fault_tape c (fault_pos c)"
    by (simp add: self_test_ok_def timer_ticks_def page_faults_def k(2) sat_sub_ge_1 sat_sub_eq_0 Let_def)
  have mono: "i \<le> j \<Longrightarrow> ?t i \<le> ?t j" for i j using assms by (simp add: monotone_tape_def)
  have "?t ?p < ?t (Suc (?p + k)) \<longleftrightarrow> (\<exists>i \<le> 50001. ?t ?p < ?t (?p + i))"
  proof
    assume "?t ?p < ?t (Suc (?p + k))"
    then show "\<exists>i \<le> 50001. ?t ?p < ?t (?p + i)" using k(1) by (intro exI [of _ "Suc k"]) simp
  next
    assume "\<exists>i \<le> 50001. ?t ?p < ?t (?p + i)"
    then obtain i where i: "i \<le> 50001" "?t ?p < ?t (?p + i)" by blast
    from alt show "?t ?p < ?t (Suc (?p + k))"
    proof
      assume "k = 50000 \<and> (\<forall>i < 50000. ?t (Suc (?p + i)) \<le> ?t ?p)"
      then show ?thesis using i mono [of "?p + i" "Suc (?p + k)"] by (simp add: order.strict_trans2)
    next
      assume later: "0 < k \<and> ?t ?p < ?t (Suc (?p + (k - 1)))"
      then have "Suc (?p + (k - 1)) = ?p + k" by simp
      with later have "?t ?p < ?t (?p + k)" by metis
      then show ?thesis using mono [of "?p + k" "Suc (?p + k)"] by (simp add: order.strict_trans2)
    qed
  qed
  with v show ?thesis by (simp add: alive_def)
qed

section \<open>Invariant of the quantum\<close>

definition quantum_ok :: "kern \<Rightarrow> bool" where
  "quantum_ok st \<longleftrightarrow> 100 \<le> QUANTUM_US st \<and> QUANTUM_US st \<le> 50000"

lemma target_quantum_ok:
  "validate_params a \<Longrightarrow> quantum_ok st \<Longrightarrow> quantum_ok (st\<lparr>QUANTUM_US := target_quantum a (QUANTUM_US st)\<rparr>)"
  by (auto simp: validate_params_def target_quantum_def quantum_ok_def Let_def split: if_splits)

lemma apply_keeps_quantum_ok:
  "quantum_ok st \<Longrightarrow> apply_action_atomic seq a st = Some (r, st') \<Longrightarrow> quantum_ok st'"
  using target_quantum_ok [of a st]
  by (cases "admitted a st")
    (auto simp: apply_rejected apply_admitted admitted_def quantum_ok_def Let_def split: prod.splits if_splits)

lemma apply_SEQ: "apply_action_atomic seq a st = Some (r, st') \<Longrightarrow> SEQ st' = SEQ st \<and> SYSTEM_READY st' = SYSTEM_READY st"
  by (cases "admitted a st")
    (auto simp: apply_rejected apply_admitted Let_def split: prod.splits if_splits)

lemma apply_total: "\<exists>r st'. apply_action_atomic seq a st = Some (r, st')"
  by (cases "admitted a st") (auto simp: apply_rejected apply_admitted Let_def split: prod.split)

lemma propose_total: "\<exists>r o' st'. ai_propose_action a out st = Some (r, o', st')"
proof (cases "\<exists>x y. a = Some x \<and> out = Some y")
  case True
  then obtain x y where "a = Some x" "out = Some y" by blast
  with apply_total [of "SEQ st" x "st\<lparr>SEQ := SEQ st + 1\<rparr>"] show ?thesis
    by (auto simp: ai_propose_action_def Let_def)
next
  case False
  then show ?thesis by (auto simp: ai_propose_action_def split: option.splits)
qed

fun propose_all :: "Action list \<Rightarrow> kern \<Rightarrow> kern option" where
  "propose_all [] st = Some st"
| "propose_all (a # acts) st =
     (case ai_propose_action (Some a) (Some ActionOutcome_default) st of
        None \<Rightarrow> None | Some (r, out, st') \<Rightarrow> propose_all acts st')"

lemma propose_step:
  "ai_propose_action (Some a) (Some out) st = Some (r, out', st') \<Longrightarrow>
   r = 0 \<and> SEQ st' = SEQ st + 1 \<and> (quantum_ok st \<longrightarrow> quantum_ok st')"
proof -
  assume p: "ai_propose_action (Some a) (Some out) st = Some (r, out', st')"
  let ?st = "st\<lparr>SEQ := SEQ st + 1\<rparr>"
  obtain q st1 where q: "apply_action_atomic (SEQ st) a ?st = Some (q, st1)" using apply_total by blast
  have "quantum_ok ?st = quantum_ok st" by (simp add: quantum_ok_def)
  with p q apply_SEQ [OF q] apply_keeps_quantum_ok [OF _ q] show ?thesis
    by (simp add: ai_propose_action_def Let_def)
qed

section \<open>Properties\<close>

text \<open>C21: an action that arrives before the system is ready, or whose kind is not on the allow list, or
  whose parameters are out of range, changes nothing but the journal, which gets one REJECT line with
  its sequence number; the caller gets NotAllowed.\<close>

theorem unadmitted_action_has_no_effect:
  assumes "\<not> (SYSTEM_READY st \<and> (kind a = 1 \<and> 100 \<le> (ucast (param1 a) :: u32) \<and> (ucast (param1 a) :: u32) \<le> 50000 \<or>
      kind a = 4 \<and> 0 < param1 a \<and> param1 a \<le> 16 * 1024 * 1024))"
  shows "\<exists>st'. apply_action_atomic seq a st = Some (Inl NotAllowed, st') \<and>
    st' = st\<lparr>kio := kio st'\<rparr> \<and> e9_sent (kio st') = e9_sent (kio st) @ reject_text seq a \<and>
    com1_sent (kio st') = com1_sent (kio st)"
proof -
  have "\<not> admitted a st"
    using assms by (auto simp: admitted_def is_allowed_def validate_params_def Let_def split: if_splits)
  moreover have "journalled (reject_text seq a) st = st\<lparr>kio := kio (journalled (reject_text seq a) st)\<rparr>"
    by (simp add: journalled_def)
  ultimately show ?thesis
    by (intro exI [of _ "journalled (reject_text seq a) st"]) (simp add: apply_rejected)
qed

theorem unadmitted_action_has_no_effect_witness:
  "\<exists>st'. apply_action_atomic 7 \<lparr>kind = 254, flags = 0, reserved = (0, 0), param1 = 0, param2 = 0, param3 = 0\<rparr>
     (set_system_ready (kern_static \<lparr>outs = [], lsr_tape = (\<lambda>_. 0), lsr_pos = 0, INITIALIZED = True\<rparr>
        \<lparr>tick_tape = (\<lambda>_. 0), tick_pos = 0, fault_tape = (\<lambda>_. 0), fault_pos = 0\<rparr>)) = Some (Inl NotAllowed, st') \<and>
   QUANTUM_US st' = 1000"
proof -
  let ?a = "\<lparr>kind = 254, flags = 0, reserved = (0, 0), param1 = 0, param2 = 0, param3 = 0\<rparr> :: Action"
  let ?st = "set_system_ready (kern_static \<lparr>outs = [], lsr_tape = (\<lambda>_. 0), lsr_pos = 0, INITIALIZED = True\<rparr>
        \<lparr>tick_tape = (\<lambda>_. 0), tick_pos = 0, fault_tape = (\<lambda>_. 0), fault_pos = 0\<rparr>)"
  obtain st' where st': "apply_action_atomic 7 ?a ?st = Some (Inl NotAllowed, st')" "st' = ?st\<lparr>kio := kio st'\<rparr>"
    using unadmitted_action_has_no_effect [of ?st ?a 7] by auto
  have "QUANTUM_US st' = 1000" by (subst st'(2)) (simp add: set_system_ready_def kern_static_def)
  with st'(1) show ?thesis by blast
qed

text \<open>C5: an admitted action is a transaction: the journal gets an INTENT line, then exactly one
  completion line; if the self test passes the quantum is the requested one (or unchanged for a cache
  trim) and the completion is APPLY_OK, otherwise the quantum is what it was before and the completion
  is APPLY_FAIL with code 5. It always completes, after at most 50002 reads of the timer.\<close>

theorem admitted_action_is_transactional:
  assumes "admitted a st"
  shows "\<exists>r st'. apply_action_atomic seq a st = Some (r, st') \<and> SEQ st' = SEQ st \<and>
    tick_pos (sens st') \<le> tick_pos (sens st) + 50002 \<and>
    (if fst (self_test_ok (sens st))
     then r = Inr () \<and> QUANTUM_US st' = (if kind a = 1 then ucast (param1 a) else QUANTUM_US st) \<and>
       e9_sent (kio st') = e9_sent (kio st) @ intent_text seq a @ commit_text seq a
     else r = Inl SelfTestFailed \<and> QUANTUM_US st' = QUANTUM_US st \<and>
       e9_sent (kio st') = e9_sent (kio st) @ intent_text seq a @ fail_text seq 5)"
proof -
  obtain p c where t: "self_test_ok (sens st) = (p, c)" by (cases "self_test_ok (sens st)")
  have k: "tick_pos c \<le> tick_pos (sens st) + 50002" using self_test_frame [of "sens st"] t by auto
  let ?st1 = "(journalled (intent_text seq a) st)\<lparr>QUANTUM_US := target_quantum a (QUANTUM_US st), sens := c\<rparr>"
  have e: "e9_sent (kio ?st1) = e9_sent (kio st) @ intent_text seq a" by simp
  show ?thesis
    using k e by (auto simp: apply_admitted [OF assms] t target_quantum_def Let_def)
qed

definition example_kern :: kern where
  "example_kern = set_system_ready (kern_static \<lparr>outs = [], lsr_tape = (\<lambda>_. 0x20), lsr_pos = 0, INITIALIZED = True\<rparr>
     \<lparr>tick_tape = (\<lambda>n. if n = 0 then 0 else 1), tick_pos = 0, fault_tape = (\<lambda>_. 0), fault_pos = 0\<rparr>)"

definition example_action :: Action where
  "example_action = \<lparr>kind = 1, flags = 1, reserved = (0, 0), param1 = 2500, param2 = 0, param3 = 0\<rparr>"

lemma example_admitted: "admitted example_action example_kern"
  by (simp add: admitted_def example_action_def example_kern_def set_system_ready_def kern_static_def
      is_allowed_def validate_params_def Let_def)

lemma example_alive: "alive (sens example_kern)" "monotone_tape (tick_tape (sens example_kern))"
  by (auto simp: example_kern_def set_system_ready_def kern_static_def alive_def monotone_tape_def
      intro!: exI [of _ 1])

theorem admitted_action_is_transactional_witness:
  "admitted example_action example_kern \<and>
   (\<exists>r st'. apply_action_atomic 0 example_action example_kern = Some (r, st') \<and> SEQ st' = SEQ example_kern)"
  using admitted_action_is_transactional [OF example_admitted, of 0] example_admitted by blast

text \<open>a quantum change survives exactly when the machine stays alive: for a timer that only counts
  up, the requested quantum is in force afterwards if a tick arrives during the observation window and
  no page fault is counted, and the previous quantum is in force otherwise.\<close>

theorem quantum_change_survives_iff_alive:
  assumes "admitted a st" and "kind a = 1" and "monotone_tape (tick_tape (sens st))"
    and "apply_action_atomic seq a st = Some (r, st')"
  shows "QUANTUM_US st' = (if alive (sens st) then ucast (param1 a) else QUANTUM_US st) \<and>
    r = (if alive (sens st) then Inr () else Inl SelfTestFailed)"
proof -
  obtain p c where t: "self_test_ok (sens st) = (p, c)" by (cases "self_test_ok (sens st)")
  have "p \<longleftrightarrow> alive (sens st)" using self_test_iff_alive [OF assms(3)] t by simp
  then show ?thesis
    using assms(2,4) by (auto simp: apply_admitted [OF assms(1)] t target_quantum_def Let_def split: if_splits)
qed

theorem quantum_change_survives_iff_alive_witness:
  "\<exists>st'. apply_action_atomic 0 example_action example_kern = Some (Inr (), st') \<and> QUANTUM_US st' = 2500"
proof -
  obtain r st' where run: "apply_action_atomic 0 example_action example_kern = Some (r, st')"
    using apply_total by blast
  have "kind example_action = 1" by (simp add: example_action_def)
  from quantum_change_survives_iff_alive [OF example_admitted this example_alive(2) run] example_alive(1) run
  show ?thesis by (auto simp: example_action_def)
qed

text \<open>whatever actions are proposed, in whatever number, the scheduler quantum stays between 100
  and 50000 microseconds, every proposal is answered, and the sequence number has advanced by exactly
  one per proposal.\<close>

theorem proposals_keep_quantum_in_range:
  "\<exists>st'. propose_all acts (kern_static s c) = Some st' \<and>
     100 \<le> QUANTUM_US st' \<and> QUANTUM_US st' \<le> 50000 \<and> SEQ st' = of_nat (length acts)"
proof -
  have "\<exists>st'. propose_all acts st = Some st' \<and> quantum_ok st' \<and> SEQ st' = SEQ st + of_nat (length acts)"
    if "quantum_ok st" for st
    using that
  proof (induction acts arbitrary: st)
    case Nil
    then show ?case by simp
  next
    case (Cons a acts)
    obtain r out st1 where p: "ai_propose_action (Some a) (Some ActionOutcome_default) st = Some (r, out, st1)"
      using propose_total by blast
    from propose_step [OF p] Cons.prems have "quantum_ok st1" "SEQ st1 = SEQ st + 1" by simp_all
    with Cons.IH [of st1] p show ?case by (auto simp: algebra_simps)
  qed
  from this [of "kern_static s c"] show ?thesis by (auto simp: kern_static_def quantum_ok_def)
qed

text \<open>a null action or outcome pointer is refused with -1 and without consuming a sequence number;
  any other call returns 0 and stores a result code of 0, 1 or 5, so a rolled back action is reported
  as 5 and never as the 2 that the outcome structure documents.\<close>

theorem propose_result_codes:
  "(ai_propose_action a out st = Some (r, out', st') \<longrightarrow>
     (if a = None \<or> out = None then r = -1 \<and> out' = out \<and> st' = st
      else r = 0 \<and> SEQ st' = SEQ st + 1 \<and> (\<exists>o'. out' = Some o' \<and> outcome_result o' \<in> {0, 1, 5}))) \<and>
   ai_propose_action a out st \<noteq> None"
proof (cases "a = None \<or> out = None")
  case True
  then show ?thesis by (auto simp: ai_propose_action_def split: option.splits)
next
  case False
  then obtain x y where xy: "a = Some x" "out = Some y" by auto
  let ?st = "st\<lparr>SEQ := SEQ st + 1\<rparr>"
  obtain q st1 where q: "apply_action_atomic (SEQ st) x ?st = Some (q, st1)" using apply_total by blast
  have "outcome_code q \<in> {0, 1, 5}"
    using q by (cases "admitted x ?st") (auto simp: apply_rejected apply_admitted Let_def split: prod.splits if_splits)
  then show ?thesis
    using q xy apply_SEQ [OF q] by (auto simp: ai_propose_action_def Let_def)
qed

theorem propose_result_codes_witness:
  "ai_propose_action None (Some ActionOutcome_default) example_kern = Some (-1, Some ActionOutcome_default, example_kern) \<and>
   SEQ example_kern = 0"
proof -
  have "ai_propose_action None (Some ActionOutcome_default) example_kern = Some (-1, Some ActionOutcome_default, example_kern)"
    by (simp add: ai_propose_action_def)
  with propose_result_codes [of None "Some ActionOutcome_default" example_kern "-1" "Some ActionOutcome_default" example_kern]
  show ?thesis by (simp add: example_kern_def set_system_ready_def kern_static_def)
qed

end
