(* ===== verification/Task.thy ===== *)
theory Task
  imports Kernel_Prelude "HOL-Library.Multiset"
begin

text \<open>
  The cooperative scheduler (\<^verbatim>\<open>kernel/src/task.rs\<close>): eight task slots and the index at which
  the next scan starts, each behind its own spin lock. \<^verbatim>\<open>run_once\<close> picks a task under both locks
  and calls it after both are released, so the model returns the function to call: a task may
  itself register others. The function pointers are an arbitrary type.
\<close>

section \<open>State and operations\<close>

record 't sched =
  TASKS :: "'t option list"
  NEXT_INDEX :: usize

definition sched_static :: "'t sched" where
  "sched_static = \<lparr>TASKS = replicate 8 None, NEXT_INDEX = 0\<rparr>"

fun fill_slot :: "'t \<Rightarrow> 't option list \<Rightarrow> bool \<times> 't option list" where
  "fill_slot t [] = (False, [])"
| "fill_slot t (None # slots) = (True, Some t # slots)"
| "fill_slot t (Some u # slots) = (let (ok, rest) = fill_slot t slots in (ok, Some u # rest))"

definition register :: "'t \<Rightarrow> 't sched \<Rightarrow> bool \<times> 't sched" where
  "register task s = (let (ok, slots) = fill_slot task (TASKS s) in (ok, s\<lparr>TASKS := slots\<rparr>))"

fun run_loop :: "nat \<Rightarrow> 't sched \<Rightarrow> 't option \<times> 't sched" where
  "run_loop 0 s = (None, s)"
| "run_loop (Suc n) s =
     (let len = of_nat (length (TASKS s));
          i = NEXT_INDEX s mod len;
          s' = s\<lparr>NEXT_INDEX := (NEXT_INDEX s + 1) mod len\<rparr>
      in case TASKS s ! unat i of
           Some f \<Rightarrow> (Some f, s')
         | None \<Rightarrow> run_loop n s')"

definition run_once :: "'t sched \<Rightarrow> 't option \<times> 't sched" where
  "run_once s = run_loop (length (TASKS s)) s"

definition runqueue_len :: "'t sched \<Rightarrow> usize" where
  "runqueue_len s = of_nat (length (filter (\<lambda>t. t \<noteq> None) (TASKS s)))"

section \<open>Runs of the scheduler\<close>

datatype 't sched_op = Register 't | RunOnce

fun sched_exec :: "'t sched_op \<Rightarrow> 't sched \<Rightarrow> 't list \<times> 't sched" where
  "sched_exec (Register t) s = ([], snd (register t s))"
| "sched_exec RunOnce s = (case run_once s of (Some f, s') \<Rightarrow> ([f], s') | (None, s') \<Rightarrow> ([], s'))"

fun sched_run :: "'t sched_op list \<Rightarrow> 't sched \<Rightarrow> 't list \<times> 't sched" where
  "sched_run [] s = ([], s)"
| "sched_run (a # as) s =
     (let (fs, s1) = sched_exec a s; (gs, s2) = sched_run as s1 in (fs @ gs, s2))"

definition sched_ok :: "'t sched \<Rightarrow> bool" where
  "sched_ok s \<longleftrightarrow> length (TASKS s) = 8 \<and> NEXT_INDEX s < 8"

definition ring :: "'t sched \<Rightarrow> 't option list" where
  "ring s = rotate (unat (NEXT_INDEX s)) (TASKS s)"

definition somes :: "'t option list \<Rightarrow> 't list" where
  "somes xs = map the (filter (\<lambda>t. t \<noteq> None) xs)"

named_theorems sched_simps \<open>the scheduler's operations on the ring of slots\<close>

lemma somes_simps [simp]:
  "somes [] = []" "somes (None # xs) = somes xs" "somes (Some f # xs) = f # somes xs"
  "somes (xs @ ys) = somes xs @ somes ys"
  by (simp_all add: somes_def)

lemma somes_replicate_None [simp]: "somes (replicate m None) = []"
  by (induction m) simp_all

lemma length_somes_rotate: "length (somes (rotate n xs)) = length (somes xs)"
proof -
  have "length (somes (rotate1 ys)) = length (somes ys)" for ys :: "'a option list"
    by (cases ys) (auto simp: somes_def)
  then show ?thesis by (induction n) simp_all
qed

lemma index_advance:
  assumes "(i :: usize) < 8"
  shows "i mod 8 = i" "unat ((i + 1) mod 8) = Suc (unat i) mod 8" "(i + 1) mod 8 < 8"
proof -
  have u: "unat i < 8" using assms by (simp add: word_less_nat_alt)
  then show "i mod 8 = i" by (simp add: word_unat_eq_iff unat_mod_distrib)
  have "unat (i + 1) = Suc (unat i)" using u by (simp add: unat_word_ariths)
  then show "unat ((i + 1) mod 8) = Suc (unat i) mod 8" by (simp add: unat_mod_distrib)
  then show "(i + 1) mod 8 < 8" by (simp add: word_less_nat_alt)
qed

lemma ring_length [simp]: "length (ring s) = length (TASKS s)"
  by (simp add: ring_def)

lemma ring_head:
  assumes "sched_ok s"
  shows "ring s = TASKS s ! unat (NEXT_INDEX s) # tl (ring s)"
proof -
  have u: "unat (NEXT_INDEX s) < 8" using assms by (simp add: sched_ok_def word_less_nat_alt)
  then have "ring s \<noteq> []" using assms by (auto simp: sched_ok_def simp flip: length_0_conv)
  moreover have "ring s ! 0 = TASKS s ! unat (NEXT_INDEX s)"
    using assms u nth_rotate [of 0 "TASKS s" "unat (NEXT_INDEX s)"] by (simp add: ring_def sched_ok_def)
  ultimately show ?thesis by (metis list.collapse hd_conv_nth)
qed

lemma ring_advance:
  assumes "sched_ok s"
  shows "ring (s\<lparr>NEXT_INDEX := (NEXT_INDEX s + 1) mod 8\<rparr>) = rotate1 (ring s)"
proof -
  have l: "length (TASKS s) = 8" and i: "NEXT_INDEX s < 8" using assms by (simp_all add: sched_ok_def)
  have "ring (s\<lparr>NEXT_INDEX := (NEXT_INDEX s + 1) mod 8\<rparr>) = rotate (Suc (unat (NEXT_INDEX s)) mod 8) (TASKS s)"
    by (simp add: ring_def index_advance(2) [OF i])
  also have "\<dots> = rotate (Suc (unat (NEXT_INDEX s))) (TASKS s)"
    using rotate_conv_mod [of "Suc (unat (NEXT_INDEX s))" "TASKS s"] l by simp
  finally show ?thesis by (simp add: ring_def)
qed

lemma run_loop_step:
  assumes "sched_ok s" "ring s = x # xs"
  shows "\<exists>s'. sched_ok s' \<and> TASKS s' = TASKS s \<and> ring s' = xs @ [x] \<and>
    run_loop (Suc n) s = (case x of Some f \<Rightarrow> (Some f, s') | None \<Rightarrow> run_loop n s')"
proof -
  let ?s' = "s\<lparr>NEXT_INDEX := (NEXT_INDEX s + 1) mod 8\<rparr>"
  have l: "length (TASKS s) = 8" and i: "NEXT_INDEX s < 8" using assms by (simp_all add: sched_ok_def)
  have x: "x = TASKS s ! unat (NEXT_INDEX s)" using ring_head [OF assms(1)] assms(2) by simp
  have "ring ?s' = xs @ [x]" using ring_advance [OF assms(1)] assms(2) by simp
  moreover have "sched_ok ?s'" using l index_advance(3) [OF i] by (simp add: sched_ok_def)
  moreover have "run_loop (Suc n) s = (case x of Some f \<Rightarrow> (Some f, ?s') | None \<Rightarrow> run_loop n ?s')"
    using l index_advance(1) [OF i] by (simp add: x Let_def)
  ultimately show ?thesis by (intro exI [of _ ?s']) simp
qed

lemma run_loop_finds:
  assumes "sched_ok s" "ring s = replicate m None @ Some f # rest" "m < n"
  shows "\<exists>s'. run_loop n s = (Some f, s') \<and> sched_ok s' \<and> TASKS s' = TASKS s \<and>
    ring s' = rest @ replicate m None @ [Some f]"
  using assms
proof (induction m arbitrary: n s rest)
  case 0
  then obtain k where "n = Suc k" by (cases n) auto
  with run_loop_step [of s "Some f" rest k] 0 show ?case by auto
next
  case (Suc m)
  then obtain k where k: "n = Suc k" "m < k" by (cases n) auto
  obtain s1 where s1: "sched_ok s1" "TASKS s1 = TASKS s"
    "ring s1 = replicate m None @ Some f # (rest @ [None])" "run_loop n s = run_loop k s1"
    using run_loop_step [of s None "replicate m None @ Some f # rest" k] Suc.prems k by auto
  obtain s2 where "run_loop k s1 = (Some f, s2)" "sched_ok s2" "TASKS s2 = TASKS s1"
    "ring s2 = (rest @ [None]) @ replicate m None @ [Some f]"
    using Suc.IH [OF s1(1,3) k(2)] by blast
  with s1 show ?case by (auto simp: replicate_app_Cons_same)
qed

lemma run_loop_empty:
  assumes "sched_ok s" "somes (ring s) = []"
  shows "fst (run_loop n s) = None \<and> sched_ok (snd (run_loop n s)) \<and> TASKS (snd (run_loop n s)) = TASKS s"
  using assms
proof (induction n arbitrary: s)
  case (Suc n)
  obtain xs where xs: "ring s = None # xs" "somes xs = []"
    using ring_head [OF Suc.prems(1)] Suc.prems(2)
    by (cases "TASKS s ! unat (NEXT_INDEX s)") (metis somes_simps(2), metis somes_simps(3) list.simps(3))
  obtain s1 where "sched_ok s1" "TASKS s1 = TASKS s" "ring s1 = xs @ [None]" "run_loop (Suc n) s = run_loop n s1"
    using run_loop_step [OF Suc.prems(1) xs(1), of n] by auto
  with Suc.IH [of s1] xs(2) show ?case by simp
qed simp

lemma split_at_first: "somes xs \<noteq> [] \<Longrightarrow> \<exists>m f rest. xs = replicate m None @ Some f # rest"
proof (induction xs)
  case (Cons x xs)
  show ?case
  proof (cases x)
    case None
    with Cons obtain m f rest where "xs = replicate m None @ Some f # rest" by auto
    with None have "x # xs = replicate (Suc m) None @ Some f # rest" by simp
    then show ?thesis by blast
  next
    case (Some f)
    then have "x # xs = replicate 0 None @ Some f # xs" by simp
    then show ?thesis by blast
  qed
qed simp

lemma run_once_finds:
  assumes "sched_ok s" "ring s = replicate m None @ Some f # rest"
  shows "\<exists>s'. run_once s = (Some f, s') \<and> sched_ok s' \<and> TASKS s' = TASKS s \<and>
    ring s' = rest @ replicate m None @ [Some f]"
proof -
  have "length (ring s) = m + Suc (length rest)" using assms(2) by simp
  then have "m < length (TASKS s)" by simp
  then show ?thesis unfolding run_once_def using run_loop_finds [OF assms] by blast
qed

lemma run_once_keeps:
  assumes "sched_ok s"
  shows "sched_ok (snd (run_once s)) \<and> TASKS (snd (run_once s)) = TASKS s"
proof (cases "somes (ring s) = []")
  case True
  with run_loop_empty [OF assms] show ?thesis by (simp add: run_once_def)
next
  case False
  then obtain m f rest where "ring s = replicate m None @ Some f # rest" using split_at_first by blast
  with run_once_finds [OF assms] show ?thesis by force
qed

lemma somes_filter: "length (somes xs) = length (filter (\<lambda>t. t \<noteq> None) xs)"
  by (simp add: somes_def)

lemma runqueue_len_ring: "sched_ok s \<Longrightarrow> unat (runqueue_len s) = length (somes (ring s))"
proof -
  assume "sched_ok s"
  then have "length (somes (TASKS s)) \<le> 8"
    unfolding somes_filter sched_ok_def by (metis length_filter_le)
  moreover have "length (somes (ring s)) = length (somes (TASKS s))"
    by (simp add: ring_def length_somes_rotate)
  ultimately show ?thesis
    unfolding runqueue_len_def somes_filter [symmetric] by (simp add: unat_of_nat)
qed

section \<open>Registration\<close>

lemma fill_slot_spec:
  "fill_slot t slots =
     (if None \<in> set slots
      then (True, slots[length (takeWhile (\<lambda>x. x \<noteq> None) slots) := Some t])
      else (False, slots))"
  by (induction t slots rule: fill_slot.induct) auto

lemma fill_slot_length [simp]: "length (snd (fill_slot t slots)) = length slots"
  by (simp add: fill_slot_spec)

lemma fill_slot_keeps: "i < length slots \<Longrightarrow> slots ! i = Some u \<Longrightarrow> snd (fill_slot t slots) ! i = Some u"
proof (induction t slots arbitrary: i rule: fill_slot.induct)
  case (2 t slots)
  then show ?case by (cases i) auto
next
  case (3 t v slots)
  then show ?case by (cases i) (auto simp: split: prod.split)
qed simp

lemma fill_slot_adds: "fst (fill_slot t slots) \<Longrightarrow> mset (somes (snd (fill_slot t slots))) = add_mset t (mset (somes slots))"
  by (induction t slots rule: fill_slot.induct) (auto split: prod.splits)

lemma register_keeps: "sched_ok s \<Longrightarrow> sched_ok (snd (register t s))"
  using fill_slot_length [of t "TASKS s"]
  by (auto simp: register_def sched_ok_def split: prod.splits simp del: fill_slot_length)

lemma exec_keeps: "sched_ok s \<Longrightarrow> sched_ok (snd (sched_exec a s))"
proof (cases a)
  case RunOnce
  assume "sched_ok s"
  with run_once_keeps [of s] RunOnce show ?thesis by (auto split: prod.split option.split)
qed (simp add: register_keeps)

lemma ring_nth: "sched_ok s \<Longrightarrow> d < 8 \<Longrightarrow> ring s ! d = TASKS s ! ((unat (NEXT_INDEX s) + d) mod 8)"
  using nth_rotate [of d "TASKS s" "unat (NEXT_INDEX s)"] by (simp add: ring_def sched_ok_def)

lemma register_ring:
  assumes "sched_ok s" "d < 8" "ring s ! d = Some f"
  shows "ring (snd (register t s)) ! d = Some f"
proof -
  let ?i = "(unat (NEXT_INDEX s) + d) mod 8"
  have "TASKS (snd (register t s)) ! ?i = Some f"
    using assms fill_slot_keeps [of ?i "TASKS s" f t]
    by (auto simp: register_def ring_nth sched_ok_def split: prod.split)
  moreover have "NEXT_INDEX (snd (register t s)) = NEXT_INDEX s"
    by (simp add: register_def split: prod.split)
  ultimately show ?thesis using assms(2) ring_nth [OF register_keeps [OF assms(1)]] by simp
qed

lemma run_once_distance:
  assumes "sched_ok s" "d < 8" "ring s ! d = Some f"
  shows "fst (run_once s) = Some f \<or> (\<exists>e < d. ring (snd (run_once s)) ! e = Some f)"
proof -
  have ln: "length (ring s) = 8" using assms(1) by (simp add: sched_ok_def)
  have "Some f \<in> set (ring s)" using assms(2,3) ln nth_mem by metis
  then have "somes (ring s) \<noteq> []" by (force simp: somes_def filter_empty_conv)
  then obtain m g rest where r: "ring s = replicate m None @ Some g # rest" using split_at_first by blast
  obtain s' where s': "run_once s = (Some g, s')" "ring s' = rest @ replicate m None @ [Some g]"
    using run_once_finds [OF assms(1) r] by blast
  have "m \<le> d"
  proof (rule ccontr)
    assume "\<not> m \<le> d"
    then have "ring s ! d = None" by (simp add: r nth_append)
    with assms(3) show False by simp
  qed
  then consider "d = m" | e where "d = Suc (m + e)" by (auto simp: le_less less_iff_Suc_add)
  then show ?thesis
  proof cases
    case 1
    with assms(3) s'(1) r show ?thesis by (simp add: nth_append)
  next
    case 2
    have "e < length rest" using assms(2) ln 2 by (simp add: r)
    moreover have "rest ! e = Some f" using assms(3) 2 by (simp add: r nth_append)
    ultimately have "ring s' ! e = Some f" by (simp add: s'(2) nth_append)
    with 2 s'(1) show ?thesis by (intro disjI2 exI [of _ e]) simp
  qed
qed

lemma served_within:
  assumes "sched_ok s" "d < 8" "ring s ! d = Some f" "d < length (filter (\<lambda>a. a = RunOnce) ops)"
  shows "f \<in> set (fst (sched_run ops s))"
  using assms
proof (induction ops arbitrary: s d)
  case (Cons a ops)
  show ?case
  proof (cases a)
    case (Register t)
    with Cons.IH [OF register_keeps [OF Cons.prems(1)] Cons.prems(2) register_ring [OF Cons.prems(1-3)]] Cons.prems(4)
    show ?thesis by (simp split: prod.split)
  next
    case RunOnce
    note keeps = exec_keeps [OF Cons.prems(1), of RunOnce]
    from run_once_distance [OF Cons.prems(1-3)] show ?thesis
    proof
      assume "fst (run_once s) = Some f"
      then show ?thesis using RunOnce by (auto split: prod.split option.split)
    next
      assume "\<exists>e<d. ring (snd (run_once s)) ! e = Some f"
      then obtain e where e: "e < d" "ring (snd (run_once s)) ! e = Some f" by blast
      have snd_exec: "snd (sched_exec RunOnce s) = snd (run_once s)" by (simp split: prod.split option.split)
      have "f \<in> set (fst (sched_run ops (snd (sched_exec RunOnce s))))"
        using Cons.IH [OF keeps, of e] e Cons.prems(2,4) RunOnce by (simp only: snd_exec) simp
      then show ?thesis using RunOnce by (auto simp del: sched_exec.simps split: prod.split)
    qed
  qed
qed simp

section \<open>Round robin\<close>

lemma rounds_prefix:
  assumes "sched_ok s" "ring s = p @ q"
  shows "\<exists>s'. sched_run (replicate (length (somes p)) RunOnce) s = (somes p, s') \<and>
    sched_ok s' \<and> TASKS s' = TASKS s \<and> somes (ring s') = somes q @ somes p"
  using assms
proof (induction "length (somes p)" arbitrary: s p q)
  case 0
  then show ?case by simp
next
  case (Suc n)
  then have ne: "somes p \<noteq> []" by auto
  obtain m f p' where p: "p = replicate m None @ Some f # p'" using split_at_first [OF ne] by blast
  obtain s1 where s1: "run_once s = (Some f, s1)" "sched_ok s1" "TASKS s1 = TASKS s"
    "ring s1 = p' @ (q @ replicate m None @ [Some f])"
    using run_once_finds [OF Suc.prems(1), of m f "p' @ q"] Suc.prems(2) p by auto
  have n: "n = length (somes p')" using Suc.hyps(2) by (simp add: p)
  obtain s2 where "sched_run (replicate (length (somes p')) RunOnce) s1 = (somes p', s2)" "sched_ok s2"
    "TASKS s2 = TASKS s1" "somes (ring s2) = somes (q @ replicate m None @ [Some f]) @ somes p'"
    using Suc.hyps(1) [OF n s1(2,4)] by blast
  with s1 show ?case by (auto simp: p)
qed

lemma sched_run_append:
  "sched_run (as @ bs) s =
     (let (fs, s1) = sched_run as s; (gs, s2) = sched_run bs s1 in (fs @ gs, s2))"
  by (induction as arbitrary: s) (auto split: prod.splits)

lemma rounds_repeat:
  assumes "sched_ok s"
  shows "fst (sched_run (replicate (r * length (somes (ring s))) RunOnce) s) = concat (replicate r (somes (ring s)))"
  using assms
proof (induction r arbitrary: s)
  case (Suc r)
  obtain s' where s': "sched_run (replicate (length (somes (ring s))) RunOnce) s = (somes (ring s), s')"
    "sched_ok s'" "somes (ring s') = somes (ring s)"
    using rounds_prefix [of s "ring s" "[]"] Suc.prems by auto
  have "fst (sched_run (replicate (r * length (somes (ring s))) RunOnce) s') = concat (replicate r (somes (ring s)))"
    using Suc.IH [OF s'(2)] s'(3) by simp
  with s'(1) show ?case by (auto simp: replicate_add sched_run_append split: prod.split)
qed simp

section \<open>Properties\<close>

text \<open>Round robin is exact: from any consistent scheduler state, \<^verbatim>\<open>r\<close> times as many calls of
  \<^verbatim>\<open>run_once\<close> as there are registered tasks call every registered task exactly \<^verbatim>\<open>r\<close> times, each
  round in slot order starting at \<^verbatim>\<open>NEXT_INDEX\<close> and wrapping around.\<close>
theorem round_robin_exact:
  assumes "sched_ok s"
  shows "fst (sched_run (replicate (r * unat (runqueue_len s)) RunOnce) s) =
    concat (replicate r (somes (rotate (unat (NEXT_INDEX s)) (TASKS s))))"
  using rounds_repeat [OF assms, of r] runqueue_len_ring [OF assms] by (simp add: ring_def)

theorem round_robin_exact_witness:
  "fst (sched_run (replicate (2 * unat (runqueue_len (snd (register ''shell'' (snd (register ''ai'' sched_static)))))) RunOnce)
     (snd (register ''shell'' (snd (register ''ai'' sched_static))))) = [''ai'', ''shell'', ''ai'', ''shell'']"
proof -
  let ?s = "snd (register ''shell'' (snd (register ''ai'' sched_static)))"
  have s: "TASKS ?s = [Some ''ai'', Some ''shell'', None, None, None, None, None, None]" "NEXT_INDEX ?s = 0"
    by (simp_all add: register_def sched_static_def numeral_eq_Suc)
  have "sched_ok ?s" by (simp add: sched_ok_def s)
  from round_robin_exact [OF this, of 2] show ?thesis by (simp add: s numeral_2_eq_2)
qed

text \<open>C18: No task starves: whatever tasks are registered meanwhile, a task that occupies a slot is
  called by one of any eight later calls of \<^verbatim>\<open>run_once\<close>.\<close>
theorem no_starvation:
  assumes "sched_ok s" "Some f \<in> set (TASKS s)" "8 \<le> length (filter (\<lambda>a. a = RunOnce) ops)"
  shows "f \<in> set (fst (sched_run ops s))"
proof -
  have "Some f \<in> set (ring s)" using assms(2) by (simp add: ring_def)
  then obtain d where "d < length (ring s)" "ring s ! d = Some f" by (auto simp: in_set_conv_nth)
  then show ?thesis using served_within [OF assms(1), of d f ops] assms(1,3) by (simp add: sched_ok_def)
qed

theorem no_starvation_witness:
  "(3 :: nat) \<in> set (fst (sched_run (Register 2 # replicate 8 RunOnce) (snd (register 3 sched_static))))"
proof (rule no_starvation)
  have s: "TASKS (snd (register (3 :: nat) sched_static)) = [Some 3, None, None, None, None, None, None, None]"
    "NEXT_INDEX (snd (register (3 :: nat) sched_static)) = 0"
    by (simp_all add: register_def sched_static_def numeral_eq_Suc)
  show "sched_ok (snd (register (3 :: nat) sched_static))" by (simp add: sched_ok_def s)
  show "Some 3 \<in> set (TASKS (snd (register (3 :: nat) sched_static)))" by (simp add: s)
qed simp

lemma free_slot_iff:
  assumes "sched_ok s"
  shows "runqueue_len s < 8 \<longleftrightarrow> None \<in> set (TASKS s)"
proof -
  let ?n = "length (filter (\<lambda>t. t \<noteq> None) (TASKS s))"
  have len: "length (TASKS s) = 8" using assms by (simp add: sched_ok_def)
  then have "?n \<le> 8" by (metis length_filter_le)
  then have "runqueue_len s < 8 \<longleftrightarrow> ?n < 8" by (simp add: runqueue_len_def word_less_nat_alt unat_of_nat)
  also have "\<dots> \<longleftrightarrow> None \<in> set (TASKS s)"
  proof
    assume lt: "?n < 8"
    show "None \<in> set (TASKS s)"
    proof (rule ccontr)
      assume "None \<notin> set (TASKS s)"
      then have "filter (\<lambda>t. t \<noteq> None) (TASKS s) = TASKS s" by (intro filter_True) metis
      with lt len show False by simp
    qed
  next
    assume "None \<in> set (TASKS s)"
    from length_filter_less [of None "TASKS s" "\<lambda>t. t \<noteq> None", OF this] len show "?n < 8" by simp
  qed
  finally show ?thesis .
qed

text \<open>Registration succeeds exactly while fewer than eight tasks are registered; it then adds
  that one task, keeps every other task in its slot and counts one more, and a refused
  registration changes nothing.\<close>
theorem register_fills_free_slot:
  assumes "sched_ok s" "register t s = (ok, s')"
  shows "sched_ok s' \<and> (ok \<longleftrightarrow> runqueue_len s < 8) \<and>
    (if ok then mset (somes (TASKS s')) = add_mset t (mset (somes (TASKS s))) \<and> runqueue_len s' = runqueue_len s + 1
     else s' = s) \<and>
    (\<forall>i < 8. TASKS s ! i = None \<or> TASKS s' ! i = TASKS s ! i)"
proof -
  let ?n = "\<lambda>xs. length (filter (\<lambda>t. t \<noteq> None) xs)"
  have len: "length (TASKS s) = 8" using assms(1) by (simp add: sched_ok_def)
  have fs: "ok = fst (fill_slot t (TASKS s))" "s' = s\<lparr>TASKS := snd (fill_slot t (TASKS s))\<rparr>"
    using assms(2) by (auto simp: register_def split: prod.splits)
  have "sched_ok s'" using register_keeps [OF assms(1), of t] assms(2) by simp
  moreover have "ok \<longleftrightarrow> runqueue_len s < 8" using free_slot_iff [OF assms(1)] fs(1) by (simp add: fill_slot_spec)
  moreover have "if ok then mset (somes (TASKS s')) = add_mset t (mset (somes (TASKS s))) \<and> runqueue_len s' = runqueue_len s + 1 else s' = s"
  proof (cases ok)
    case True
    then have m: "mset (somes (TASKS s')) = add_mset t (mset (somes (TASKS s)))" using fill_slot_adds fs by simp
    have "?n (TASKS s') = Suc (?n (TASKS s))" unfolding somes_filter [symmetric] using m by (metis size_mset size_add_mset)
    with True m show ?thesis by (simp add: runqueue_len_def)
  next
    case False
    then show ?thesis using fs by (simp add: fill_slot_spec split: if_splits)
  qed
  moreover have "\<forall>i < 8. TASKS s ! i = None \<or> TASKS s' ! i = TASKS s ! i"
  proof (intro allI impI)
    fix i :: nat assume "i < 8"
    then show "TASKS s ! i = None \<or> TASKS s' ! i = TASKS s ! i"
      using fill_slot_keeps [of i "TASKS s" _ t] len fs(2) by (cases "TASKS s ! i") auto
  qed
  ultimately show ?thesis by blast
qed

theorem register_fills_free_slot_witness:
  "fst (register (7 :: nat) sched_static) \<and> sched_ok (snd (register (7 :: nat) sched_static))"
proof -
  have s: "register (7 :: nat) sched_static = (True, sched_static\<lparr>TASKS := Some 7 # replicate 7 None\<rparr>)"
    by (simp add: register_def sched_static_def numeral_eq_Suc)
  have "sched_ok (sched_static :: nat sched)" by (simp add: sched_ok_def sched_static_def)
  from register_fills_free_slot [OF this s] show ?thesis by (simp add: s)
qed

end
