(* ===== verification/Ai_Agent.thy ===== *)
theory Ai_Agent
  imports Ai_Model Apply_Action Pmm Task "HOL-Library.Signed_Division"
begin

text \<open>
  The agent (\<^verbatim>\<open>kernel/src/ai_agent.rs\<close>): telemetry, the int8 network evaluated over the weights in
  memory, the mapping of its score to an action, and one step of the agent, which proposes the
  action to the transactional layer. Signed integers are words read with \<^const>\<open>sint\<close>; a result
  \<open>None\<close> is an index out of range. The reference evaluates the network over the integers.
\<close>

section \<open>Configuration and state\<close>

record ai_cfg =
  REQUANT_SHIFT :: nat
  QUANTUM_BASE_US :: i32
  QUANTUM_SCALE :: i32
  MEM_LOW_KB :: u32
  PF_RATE_THRESH :: u32

definition cfg_default :: ai_cfg where
  "cfg_default = \<lparr>REQUANT_SHIFT = 6, QUANTUM_BASE_US = 1000, QUANTUM_SCALE = 20, MEM_LOW_KB = 8 * 1024, PF_RATE_THRESH = 0\<rparr>"

definition cfg_aggr :: ai_cfg where
  "cfg_aggr = \<lparr>REQUANT_SHIFT = 5, QUANTUM_BASE_US = 800, QUANTUM_SCALE = 30, MEM_LOW_KB = 8 * 1024, PF_RATE_THRESH = 0\<rparr>"

definition cfg_conservative :: ai_cfg where
  "cfg_conservative = \<lparr>REQUANT_SHIFT = 6, QUANTUM_BASE_US = 1500, QUANTUM_SCALE = 10, MEM_LOW_KB = 16 * 1024, PF_RATE_THRESH = 1\<rparr>"

definition TRIM_BYTES :: u64 where
  "TRIM_BYTES = 1 * 1024 * 1024"

record AgentState =
  hdr :: ModelHeader
  model_ptr :: u64
  prev_ticks :: u64
  prev_pf :: u64
  scratch :: "i32 list"

record agent =
  AI_RUNNING :: bool
  AGENT_STATE :: "AgentState option"
  link :: ai_link

definition agent_static :: "ai_link \<Rightarrow> agent" where
  "agent_static k = \<lparr>AI_RUNNING = True, AGENT_STATE = None, link = k\<rparr>"

record Telemetry =
  irq_errors :: u32
  runq :: u32
  irq_rate :: u32
  free_kb :: u32
  pf_rate :: u32

section \<open>Loading the model\<close>

definition load_model :: "mem \<Rightarrow> u64 \<Rightarrow> u64 option" where
  "load_model m addr =
     (case read_unaligned m addr HEADER_SIZE of
        None \<Rightarrow> None
      | Some h \<Rightarrow> if \<not> header_valid h then None else if addr = 0 then None else Some addr)"

section \<open>Telemetry\<close>

definition gather_telemetry :: "pmm \<Rightarrow> 't sched \<Rightarrow> u64 \<Rightarrow> u64 \<Rightarrow> counters \<Rightarrow> Telemetry \<times> u64 \<times> u64 \<times> counters" where
  "gather_telemetry p tasks prev_t prev_f c =
     (let (ticks, c) = timer_ticks c;
          rate = ucast (saturating_sub ticks prev_t);
          (pf, c) = page_faults c;
          pfr = ucast (saturating_sub pf prev_f)
      in (\<lparr>irq_errors = 0, runq = ucast (runqueue_len tasks), irq_rate = rate, free_kb = ucast (free_kib p), pf_rate = pfr\<rparr>,
          ticks, pf, c))"

section \<open>Inference\<close>

definition clip32 :: "int \<Rightarrow> int" where
  "clip32 x = max (- (2 ^ 31)) (min (2 ^ 31 - 1) x)"

definition saturating_add_i32 :: "i32 \<Rightarrow> i32 \<Rightarrow> i32" where
  "saturating_add_i32 a b = word_of_int (clip32 (sint a + sint b))"

definition i32_div :: "i32 \<Rightarrow> i32 \<Rightarrow> i32" where
  "i32_div a b = word_of_int (sint a sdiv sint b)"

definition set_feature :: "nat \<Rightarrow> u32 \<Rightarrow> bytes \<Rightarrow> bytes" where
  "set_feature i v xs = (if length xs > i then xs[i := ucast (min v 127)] else xs)"

definition build_input :: "ModelHeader \<Rightarrow> Telemetry \<Rightarrow> bytes" where
  "build_input h tel =
     (let slice_len = min (unat (hidden h)) 256;
          xs = replicate slice_len 0;
          xs = set_feature 0 (runq tel) xs;
          xs = set_feature 1 (irq_rate tel) xs;
          xs = set_feature 2 (free_kb tel div 1024) xs
      in set_feature 3 (pf_rate tel) xs)"

definition weights_needed :: "ModelHeader \<Rightarrow> usize" where
  "weights_needed h = (case compute h of None \<Rightarrow> 0 | Some total_bytes \<Rightarrow> total_bytes + PAYLOAD_OFFSET)"

definition has_weights :: "ModelHeader \<Rightarrow> usize \<Rightarrow> bool" where
  "has_weights h model_len \<longleftrightarrow> (let need = weights_needed h in need > PAYLOAD_OFFSET \<and> model_len \<ge> need)"

definition neuron :: "mem \<Rightarrow> u64 \<Rightarrow> u64 \<Rightarrow> nat \<Rightarrow> bytes \<Rightarrow> nat \<Rightarrow> i32 option" where
  "neuron m w_ptr b_ptr in_dim xbuf oi =
     (let w_row = w_ptr + of_nat (oi * in_dim)
      in Option.bind
           (foldM (\<lambda>p acc. Option.bind (array_get xbuf p)
              (\<lambda>x. Some (acc + scast (m (w_row + of_nat p)) * scast x))) [0..<in_dim] 0)
           (\<lambda>acc. Some (if b_ptr \<noteq> 0
              then saturating_add_i32 acc (le_word (read_bytes m (b_ptr + of_nat (4 * oi)) 4))
              else acc)))"

definition requantize :: "ai_cfg \<Rightarrow> i32 \<Rightarrow> u8" where
  "requantize cfg v =
     (let v = (if v <s 0 then 0 else v);
          v = signed_drop_bit (REQUANT_SHIFT cfg) v;
          v = (if 127 <s v then 127 else v)
      in ucast v)"

definition eval_layer ::
  "ai_cfg \<Rightarrow> mem \<Rightarrow> u64 \<Rightarrow> u64 \<Rightarrow> nat \<Rightarrow> nat \<Rightarrow> i32 list \<Rightarrow> bytes \<Rightarrow> (i32 list \<times> bytes) option" where
  "eval_layer cfg m w_ptr b_ptr in_dim out_d scr xbuf =
     Option.bind
       (foldM (\<lambda>oi scr. Option.bind (neuron m w_ptr b_ptr in_dim xbuf oi) (\<lambda>acc. array_set oi acc scr)) [0..<out_d] scr)
       (\<lambda>scr. Option.bind
          (foldM (\<lambda>oi xb. Option.bind (array_get scr oi) (\<lambda>v. array_set oi (requantize cfg v) xb)) [0..<out_d] xbuf)
          (\<lambda>xbuf. Some (scr, xbuf)))"

fun run_layers ::
  "ai_cfg \<Rightarrow> mem \<Rightarrow> ModelHeader \<Rightarrow> u64 \<Rightarrow> nat list \<Rightarrow> i32 list \<Rightarrow> bytes \<Rightarrow> nat \<Rightarrow> (i32 list \<times> bytes \<times> nat) option" where
  "run_layers cfg m h addr [] scr xbuf x_len = Some (scr, xbuf, x_len)"
| "run_layers cfg m h addr (l # ls) scr xbuf x_len =
     (case layer_dims h l of
        None \<Rightarrow> Some (scr, xbuf, x_len)
      | Some (i, out) \<Rightarrow>
          (let in_dim = unat i; out_d = unat out
           in if in_dim > x_len \<or> out_d > 256 \<or> in_dim = 0 \<or> out_d = 0 then Some (scr, xbuf, x_len)
              else
                (let w_ptr = (case layer_ptr_int8 addr h l of None \<Rightarrow> 0 | Some p \<Rightarrow> p);
                     b_ptr = (case bias_ptr_i32 addr h l of None \<Rightarrow> 0 | Some p \<Rightarrow> p)
                 in if w_ptr = 0 then Some (scr, xbuf, x_len)
                    else Option.bind (eval_layer cfg m w_ptr b_ptr in_dim out_d scr xbuf)
                           (\<lambda>(scr, xbuf). run_layers cfg m h addr ls scr xbuf out_d))))"

definition fallback_score :: "Telemetry \<Rightarrow> i32" where
  "fallback_score tel =
     (let free_mb = free_kb tel div 1024;
          score = runq tel + i32_div (irq_rate tel) 2 - pf_rate tel - i32_div free_mb 8;
          score = (if score <s - 127 then - 127 else score)
      in if 127 <s score then 127 else score)"

definition choose_action :: "ai_cfg \<Rightarrow> Telemetry \<Rightarrow> i32 \<Rightarrow> Action" where
  "choose_action cfg tel score =
     (if free_kb tel < MEM_LOW_KB cfg \<or> pf_rate tel > PF_RATE_THRESH cfg then
        \<lparr>kind = action_code TrimCache, flags = REQUIRES_SNAPSHOT, reserved = (0, 0), param1 = TRIM_BYTES, param2 = 0, param3 = 0\<rparr>
      else
        (let quantum = QUANTUM_BASE_US cfg + score * QUANTUM_SCALE cfg;
             quantum = (if quantum <s 100 then 100 else quantum);
             quantum = (if 50000 <s quantum then 50000 else quantum)
         in \<lparr>kind = action_code SetQuantum, flags = REQUIRES_SNAPSHOT, reserved = (0, 0), param1 = scast quantum, param2 = 0, param3 = 0\<rparr>))"

definition infer_and_propose ::
  "ai_cfg \<Rightarrow> mem \<Rightarrow> usize \<Rightarrow> ModelHeader \<Rightarrow> Telemetry \<Rightarrow> i32 list \<Rightarrow> u64 \<Rightarrow> (Action \<times> i32 list) option" where
  "infer_and_propose cfg m model_len h tel scr model_addr =
     (let in_slice = build_input h tel;
          weights = has_weights h model_len;
          len = length in_slice;
          xbuf = in_slice @ replicate (256 - len) 0
      in Option.bind
           (if weights \<and> dtype h = 0
            then run_layers cfg m h model_addr [0..<unat (n_layers h)] scr xbuf len
            else Some (scr, xbuf, len))
           (\<lambda>(scr, xbuf, x_len). Option.bind (if x_len > 0 then map_option scast (array_get xbuf 0) else Some 0)
              (\<lambda>score.
                 (let score = (if \<not> weights then fallback_score tel else score)
                  in Some (choose_action cfg tel score, scr)))))"

section \<open>One step of the agent\<close>

definition ensure_init :: "mem \<Rightarrow> agent \<Rightarrow> counters \<Rightarrow> bool \<times> agent \<times> counters" where
  "ensure_init m a c =
     (if AGENT_STATE a \<noteq> None then (True, a, c)
      else case load_model m (AI_MODEL_ADDR (link a)) of
             None \<Rightarrow> (False, a, c)
           | Some p \<Rightarrow>
               (let (t, c) = timer_ticks c; (f, c) = page_faults c
                in (True, a\<lparr>AGENT_STATE := Some \<lparr>hdr = load_header m p, model_ptr = p, prev_ticks = t, prev_pf = f,
                      scratch = replicate 1024 0\<rparr>\<rparr>, c)))"

definition agent_step :: "ai_cfg \<Rightarrow> mem \<Rightarrow> pmm \<Rightarrow> 't sched \<Rightarrow> agent \<Rightarrow> kern \<Rightarrow> (agent \<times> kern) option" where
  "agent_step cfg m p tasks a st =
     (let (ok, a, c) = ensure_init m a (sens st); st = st\<lparr>sens := c\<rparr>
      in if \<not> ok then Some (a, st)
         else if \<not> AI_RUNNING a then Some (a, st)
         else case AGENT_STATE a of
                None \<Rightarrow> None
              | Some ag \<Rightarrow>
                  (let (tel, t, f, c) = gather_telemetry p tasks (prev_ticks ag) (prev_pf ag) (sens st);
                       st = st\<lparr>sens := c\<rparr>;
                       ag = ag\<lparr>prev_ticks := t, prev_pf := f\<rparr>
                   in Option.bind (infer_and_propose cfg m (AI_MODEL_LEN (link a)) (hdr ag) tel (scratch ag) (model_ptr ag))
                        (\<lambda>(action, scr).
                           (let a = a\<lparr>AGENT_STATE := Some (ag\<lparr>scratch := scr\<rparr>)\<rparr>
                            in if flags action AND NEEDS_MANUAL_CONFIRM \<noteq> 0 then Some (a, st)
                               else Option.bind (ai_propose_action (Some action) (Some ActionOutcome_default) st)
                                      (\<lambda>(_, _, st). Some (a, st))))))"

section \<open>Signed words as integers\<close>

lemma sint_i32: "- (2 ^ 31) \<le> x \<Longrightarrow> x < 2 ^ 31 \<Longrightarrow> sint (word_of_int x :: i32) = x"
  by (simp add: signed_of_int signed_take_bit_int_eq_self)

lemma sint_i8_range: "- 128 \<le> sint (w :: u8)" "sint (w :: u8) \<le> 127"
  using sint_ge [of w] sint_lt [of w] by simp_all

lemma sint_i32_range: "- (2 ^ 31) \<le> sint (w :: i32)" "sint (w :: i32) < 2 ^ 31"
  using sint_ge [of w] sint_lt [of w] by simp_all

lemma clip32_range: "- (2 ^ 31) \<le> clip32 x" "clip32 x < 2 ^ 31"
  by (simp_all add: clip32_def)

lemma sint_saturating_add_i32: "sint (saturating_add_i32 a b) = clip32 (sint a + sint b)"
  unfolding saturating_add_i32_def by (rule sint_i32 [OF clip32_range])

lemma sint_requantize: "sint (requantize cfg v) = min 127 (max 0 (sint v) div 2 ^ REQUANT_SHIFT cfg)"
proof -
  let ?n = "REQUANT_SHIFT cfg"
  define r where "r = signed_drop_bit ?n (if v <s 0 then 0 else v)"
  have r: "sint r = max 0 (sint v) div 2 ^ ?n"
    by (auto simp: r_def sint_signed_drop_bit_eq drop_bit_eq_div word_sless_alt max_def)
  define q where "q = (if 127 <s r then 127 else r)"
  have q: "sint q = min 127 (max 0 (sint v) div 2 ^ ?n)" by (auto simp: q_def r word_sless_alt min_def)
  have "0 \<le> sint q" "sint q \<le> 127" unfolding q by (simp_all add: pos_imp_zdiv_nonneg_iff)
  then have "uint q = sint q" by (simp add: uint_sint take_bit_int_eq_self)
  have "sint (ucast q :: u8) = sint q"
    using \<open>0 \<le> sint q\<close> \<open>sint q \<le> 127\<close> \<open>uint q = sint q\<close> by (simp add: signed_ucast_eq signed_take_bit_int_eq_self)
  moreover have "requantize cfg v = ucast q" unfolding requantize_def Let_def q_def r_def by (rule refl)
  ultimately show ?thesis by (simp add: q)
qed

section \<open>The reference network over the integers\<close>

definition ref_weight :: "mem \<Rightarrow> u64 \<Rightarrow> ModelHeader \<Rightarrow> nat \<Rightarrow> nat \<Rightarrow> nat \<Rightarrow> int" where
  "ref_weight m addr h l oi p = sint (m (addr + of_nat (16 + layer_off h l + oi * unat (hidden h) + p)))"

definition ref_bias :: "mem \<Rightarrow> u64 \<Rightarrow> ModelHeader \<Rightarrow> nat \<Rightarrow> nat \<Rightarrow> int" where
  "ref_bias m addr h l oi =
     sint (le_word (read_bytes m (addr + of_nat (16 + layer_off h l + unat (hidden h) * unat (out_dim h l) + 4 * oi)) 4) :: i32)"

definition ref_neuron :: "mem \<Rightarrow> u64 \<Rightarrow> ModelHeader \<Rightarrow> nat \<Rightarrow> int list \<Rightarrow> nat \<Rightarrow> int" where
  "ref_neuron m addr h l xs oi =
     clip32 ((\<Sum>p < unat (hidden h). ref_weight m addr h l oi p * xs ! p) + ref_bias m addr h l oi)"

definition ref_layer :: "ai_cfg \<Rightarrow> mem \<Rightarrow> u64 \<Rightarrow> ModelHeader \<Rightarrow> nat \<Rightarrow> int list \<Rightarrow> int list" where
  "ref_layer cfg m addr h l xs =
     map (\<lambda>oi. min 127 (max 0 (ref_neuron m addr h l xs oi) div 2 ^ REQUANT_SHIFT cfg)) [0..<unat (out_dim h l)]"

fun ref_net :: "ai_cfg \<Rightarrow> mem \<Rightarrow> u64 \<Rightarrow> ModelHeader \<Rightarrow> nat list \<Rightarrow> int list \<Rightarrow> int list" where
  "ref_net cfg m addr h [] xs = xs"
| "ref_net cfg m addr h (l # ls) xs =
     (if length xs < unat (hidden h) \<or> 256 < unat (out_dim h l) then xs
      else ref_net cfg m addr h ls (ref_layer cfg m addr h l xs))"

section \<open>The loops compute the reference\<close>

lemma fold_add_sum: "fold (\<lambda>p acc. acc + f p) [0..<n] (a :: 'b::comm_monoid_add) = a + (\<Sum>p < n. f p)"
  by (induction n) (simp_all add: add.assoc)

lemma dot_bound:
  assumes "\<And>p. p < n \<Longrightarrow> \<bar>w p\<bar> \<le> 128" "\<And>p. p < n \<Longrightarrow> \<bar>x p\<bar> \<le> 128"
  shows "\<bar>\<Sum>p < n. w p * x p\<bar> \<le> int n * (128 * 128)"
proof -
  have "\<bar>\<Sum>p < n. w p * x p\<bar> \<le> (\<Sum>p < n. \<bar>w p * x p\<bar>)" by (rule sum_abs)
  also have "\<dots> \<le> (\<Sum>p < n. 128 * 128)"
  proof (rule sum_mono)
    fix p assume "p \<in> {..<n}"
    then show "\<bar>w p * x p\<bar> \<le> 128 * 128" unfolding abs_mult using assms by (intro mult_mono) simp_all
  qed
  finally show ?thesis by simp
qed

lemma scast_product: "scast (a :: u8) * scast (c :: u8) = (word_of_int (sint a * sint c) :: i32)"
  by (simp only: scast_eq of_int_mult)

lemma neuron_sum:
  assumes "n \<le> length xbuf" "n \<le> 256"
  shows "\<exists>v. neuron m w b n xbuf oi = Some v \<and>
    sint v = (let s = (\<Sum>p < n. sint (m (w + of_nat (oi * n) + of_nat p)) * sint (xbuf ! p))
      in if b \<noteq> 0 then clip32 (s + sint (le_word (read_bytes m (b + of_nat (4 * oi)) 4) :: i32)) else s)"
proof -
  let ?t = "\<lambda>p. sint (m (w + of_nat (oi * n) + of_nat p)) * sint (xbuf ! p)"
  let ?s = "\<Sum>p < n. ?t p"
  have "foldM (\<lambda>p acc. Option.bind (array_get xbuf p) (\<lambda>x. Some (acc + scast (m (w + of_nat (oi * n) + of_nat p)) * scast x))) [0..<n] 0 =
      Some (fold (\<lambda>p acc. acc + (word_of_int (?t p) :: i32)) [0..<n] 0)"
  proof (rule foldM_fold)
    fix p :: nat and acc :: i32
    assume "p \<in> set [0..<n]"
    then have "array_get xbuf p = Some (xbuf ! p)" using assms(1) by (simp add: array_get_def)
    then show "Option.bind (array_get xbuf p) (\<lambda>x. Some (acc + scast (m (w + of_nat (oi * n) + of_nat p)) * scast x)) =
        Some (acc + word_of_int (?t p))"
      by (simp only: bind.bind_lunit scast_product)
  qed
  then have f: "foldM (\<lambda>p acc. Option.bind (array_get xbuf p) (\<lambda>x. Some (acc + scast (m (w + of_nat (oi * n) + of_nat p)) * scast x))) [0..<n] 0 =
      Some (word_of_int ?s :: i32)"
    by (simp only: fold_add_sum) simp
  have abs8: "\<bar>sint (c :: u8)\<bar> \<le> 128" for c using sint_i8_range [of c] by simp
  have "\<bar>?s\<bar> \<le> int n * (128 * 128)" by (rule dot_bound) (rule abs8)+
  also have "\<dots> \<le> 256 * (128 * 128)" using assms(2) by (intro mult_right_mono) simp_all
  finally have "sint (word_of_int ?s :: i32) = ?s" by (intro sint_i32) simp_all
  then show ?thesis unfolding neuron_def Let_def f by (auto simp: sint_saturating_add_i32)
qed

lemma eval_layer_values:
  assumes "n \<le> length xbuf" "n \<le> 256" "k \<le> length scr" "k \<le> length xbuf"
  shows "\<exists>scr' xbuf'. eval_layer cfg m w b n k scr xbuf = Some (scr', xbuf') \<and>
    length scr' = length scr \<and> length xbuf' = length xbuf \<and>
    take k xbuf' = map (\<lambda>oi. requantize cfg (the (neuron m w b n xbuf oi))) [0..<k]"
proof -
  let ?v = "\<lambda>oi. the (neuron m w b n xbuf oi)"
  have "neuron m w b n xbuf oi = Some (?v oi)" for oi using neuron_sum [OF assms(1,2), of m w b oi] by auto
  then have "foldM (\<lambda>oi scr. Option.bind (neuron m w b n xbuf oi) (\<lambda>acc. array_set oi acc scr)) [0..<k] scr =
      foldM (\<lambda>oi. array_set oi (?v oi)) [0..<k] scr"
    by (intro foldM_cong) (metis bind.bind_lunit)
  then have 1: "foldM (\<lambda>oi scr. Option.bind (neuron m w b n xbuf oi) (\<lambda>acc. array_set oi acc scr)) [0..<k] scr =
      Some (map ?v [0..<k] @ drop k scr)" by (simp add: foldM_array_set assms(3))
  let ?scr = "map ?v [0..<k] @ drop k scr"
  have "foldM (\<lambda>oi xb. Option.bind (array_get ?scr oi) (\<lambda>v. array_set oi (requantize cfg v) xb)) [0..<k] xbuf =
      foldM (\<lambda>oi. array_set oi (requantize cfg (?v oi))) [0..<k] xbuf"
    by (intro foldM_cong) (simp add: array_get_def nth_append)
  then have 2: "foldM (\<lambda>oi xb. Option.bind (array_get ?scr oi) (\<lambda>v. array_set oi (requantize cfg v) xb)) [0..<k] xbuf =
      Some (map (\<lambda>oi. requantize cfg (?v oi)) [0..<k] @ drop k xbuf)" by (simp add: foldM_array_set assms(4))
  show ?thesis using assms(3,4) unfolding eval_layer_def 1 by (simp add: 2)
qed

lemma offset_nonzero:
  assumes "0 < k" "unat addr + k < 2 ^ 64"
  shows "addr + of_nat k \<noteq> (0 :: u64)"
proof -
  have "unat (of_nat k :: u64) = k" using assms(2) by (simp add: unat_of_nat take_bit_nat_eq_self)
  then have "unat (addr + of_nat k) = unat addr + k" using assms(2) by (simp add: unat_add_no_wrap)
  then show ?thesis using assms(1) by (metis add_is_0 less_numeral_extra(3) unat_eq_0)
qed

lemma layer_off_mono: "Suc l \<le> k \<Longrightarrow> layer_off h l + layer_bytes h l \<le> layer_off h k"
proof (induction k)
  case (Suc k)
  then show ?case by (cases "l = k") (simp_all add: layer_off_Suc le_Suc_eq)
qed simp

lemma layer_refines:
  assumes "l < unat (n_layers h)" "unat addr + 16 + layer_off h (unat (n_layers h)) < 2 ^ 64"
    and "0 < unat (hidden h)" "unat (hidden h) \<le> x_len" "x_len \<le> length xbuf" "length xbuf = 256" "unat (out_dim h l) \<le> 256" "length scr = 1024"
    and w: "w = addr + (16 + of_nat (layer_off h l))"
    and b: "b = addr + (16 + of_nat (layer_off h l + unat (hidden h) * unat (out_dim h l)))"
  shows "\<exists>scr' xbuf'. eval_layer cfg m w b (unat (hidden h)) (unat (out_dim h l)) scr xbuf = Some (scr', xbuf') \<and>
    length scr' = 1024 \<and> length xbuf' = 256 \<and>
    map sint (take (unat (out_dim h l)) xbuf') = ref_layer cfg m addr h l (map sint (take x_len xbuf))"
proof -
  let ?n = "unat (hidden h)" and ?k = "unat (out_dim h l)"
  have "layer_off h l + ?n * ?k \<le> layer_off h (unat (n_layers h))"
    using layer_off_mono [of l "unat (n_layers h)" h] assms(1) by (simp add: layer_bytes_def)
  then have "b \<noteq> 0"
    using offset_nonzero [of "16 + (layer_off h l + ?n * ?k)" addr] assms(2) by (simp add: b add.assoc)
  have wa: "w + of_nat (oi * ?n) + of_nat p = addr + of_nat (16 + layer_off h l + oi * ?n + p)" for oi p
    by (simp add: w add.assoc)
  have ba: "b + of_nat (4 * oi) = addr + of_nat (16 + layer_off h l + ?n * ?k + 4 * oi)" for oi
    by (simp add: b add.assoc)
  have val: "sint (the (neuron m w b ?n xbuf oi)) = ref_neuron m addr h l (map sint (take x_len xbuf)) oi" for oi
  proof -
    obtain v where v: "neuron m w b ?n xbuf oi = Some v"
      "sint v = clip32 ((\<Sum>p < ?n. sint (m (w + of_nat (oi * ?n) + of_nat p)) * sint (xbuf ! p)) +
          sint (le_word (read_bytes m (b + of_nat (4 * oi)) 4) :: i32))"
      using neuron_sum [of ?n xbuf m w b oi] assms(4-6) \<open>b \<noteq> 0\<close> by auto
    have "(\<Sum>p < ?n. sint (m (w + of_nat (oi * ?n) + of_nat p)) * sint (xbuf ! p)) =
        (\<Sum>p < ?n. ref_weight m addr h l oi p * map sint (take x_len xbuf) ! p)"
      unfolding wa ref_weight_def using assms(4-6) by (intro sum.cong) simp_all
    then show ?thesis unfolding v ref_neuron_def ref_bias_def ba option.sel by simp
  qed
  obtain scr' xbuf' where e: "eval_layer cfg m w b ?n ?k scr xbuf = Some (scr', xbuf')" "length scr' = length scr"
    "length xbuf' = length xbuf" "take ?k xbuf' = map (\<lambda>oi. requantize cfg (the (neuron m w b ?n xbuf oi))) [0..<?k]"
    using eval_layer_values [of ?n xbuf ?k scr cfg m w b] assms(4-8) by auto
  have "map sint (take ?k xbuf') = ref_layer cfg m addr h l (map sint (take x_len xbuf))"
    unfolding e(4) ref_layer_def by (simp add: sint_requantize val)
  with e(1-3) assms(6,8) show ?thesis by auto
qed

lemma run_layers_refines:
  assumes "dtype h = 0" "0 < unat (hidden h)" "unat addr + 16 + layer_off h (unat (n_layers h)) < 2 ^ 64"
    and "set ls \<subseteq> {..<unat (n_layers h)}" "length scr = 1024" "length xbuf = 256" "x_len \<le> 256"
  shows "\<exists>scr' xbuf' n. run_layers cfg m h addr ls scr xbuf x_len = Some (scr', xbuf', n) \<and>
    length scr' = 1024 \<and> length xbuf' = 256 \<and> n \<le> 256 \<and>
    map sint (take n xbuf') = ref_net cfg m addr h ls (map sint (take x_len xbuf))"
  using assms(4-7)
proof (induction ls arbitrary: scr xbuf x_len)
  case (Cons l ls)
  let ?n = "unat (hidden h)" and ?k = "unat (out_dim h l)"
  have l: "l < unat (n_layers h)" using Cons.prems(1) by simp
  note ptr = layer_pointers [OF assms(1) l]
  have len: "length (map sint (take x_len xbuf)) = x_len" using Cons.prems(3,4) by simp
  have "0 < ?k"
  proof -
    have "?k = (if l + 1 = unat (n_layers h) \<and> vocab h \<noteq> 0 then unat (vocab h) else ?n)"
      by (simp add: out_dim_def last_out_def unat_ucast_u16(1) unat_ucast_u32(1))
    then show ?thesis using assms(2) by (simp add: unat_gt_0)
  qed
  let ?w = "addr + (16 + of_nat (layer_off h l))" and ?b = "addr + (16 + of_nat (layer_off h l + ?n * ?k))"
  have lo: "layer_off h l \<le> layer_off h (unat (n_layers h))" using layer_off_mono [of l "unat (n_layers h)" h] l by simp
  have w0: "?w \<noteq> 0" using offset_nonzero [of "16 + layer_off h l" addr] lo assms(3) by simp
  show ?case
  proof (cases "x_len < ?n \<or> 256 < ?k")
    case True
    then show ?thesis using Cons.prems len by (auto simp: ptr unat_ucast_u16(1))
  next
    case False
    obtain scr1 xbuf1 where e: "eval_layer cfg m ?w ?b ?n ?k scr xbuf = Some (scr1, xbuf1)" "length scr1 = 1024" "length xbuf1 = 256"
      "map sint (take ?k xbuf1) = ref_layer cfg m addr h l (map sint (take x_len xbuf))"
      using layer_refines [OF l assms(3,2), of x_len xbuf scr ?w ?b cfg m] False Cons.prems by auto
    obtain scr' xbuf' n where "run_layers cfg m h addr ls scr1 xbuf1 ?k = Some (scr', xbuf', n)" "length scr' = 1024"
      "length xbuf' = 256" "n \<le> 256" "map sint (take n xbuf') = ref_net cfg m addr h ls (map sint (take ?k xbuf1))"
      using Cons.IH [of scr1 xbuf1 ?k] Cons.prems(1) e False by auto
    moreover have "run_layers cfg m h addr (l # ls) scr xbuf x_len = run_layers cfg m h addr ls scr1 xbuf1 ?k"
      using False assms(2) \<open>0 < ?k\<close> w0 e(1) by (simp add: ptr unat_ucast_u16(1) Let_def)
    ultimately show ?thesis using False len e(4) by auto
  qed
qed simp

section \<open>The reference policy\<close>

definition ref_input :: "ModelHeader \<Rightarrow> Telemetry \<Rightarrow> int list" where
  "ref_input h tel =
     (replicate (min (unat (hidden h)) 256) 0)
       [0 := int (min (unat (runq tel)) 127), 1 := int (min (unat (irq_rate tel)) 127),
        2 := int (min (unat (free_kb tel) div 1024) 127), 3 := int (min (unat (pf_rate tel)) 127)]"

definition enough_weights :: "ModelHeader \<Rightarrow> usize \<Rightarrow> bool" where
  "enough_weights h model_len \<longleftrightarrow> dtype h = 0 \<and> 16 + layer_off h (unat (n_layers h)) \<le> unat model_len"

definition ref_score :: "ai_cfg \<Rightarrow> mem \<Rightarrow> usize \<Rightarrow> ModelHeader \<Rightarrow> Telemetry \<Rightarrow> u64 \<Rightarrow> int" where
  "ref_score cfg m model_len h tel addr =
     (if enough_weights h model_len
      then (case ref_net cfg m addr h [0..<unat (n_layers h)] (ref_input h tel) of [] \<Rightarrow> 0 | x # _ \<Rightarrow> x)
      else sint (fallback_score tel))"

definition ref_action :: "ai_cfg \<Rightarrow> Telemetry \<Rightarrow> int \<Rightarrow> Action" where
  "ref_action cfg tel score =
     (if free_kb tel < MEM_LOW_KB cfg \<or> PF_RATE_THRESH cfg < pf_rate tel
      then \<lparr>kind = 4, flags = 1, reserved = (0, 0), param1 = 2 ^ 20, param2 = 0, param3 = 0\<rparr>
      else \<lparr>kind = 1, flags = 1, reserved = (0, 0),
        param1 = of_int (max 100 (min 50000 (sint (QUANTUM_BASE_US cfg) + score * sint (QUANTUM_SCALE cfg)))),
        param2 = 0, param3 = 0\<rparr>)"

definition preset :: "ai_cfg \<Rightarrow> bool" where
  "preset cfg \<longleftrightarrow> cfg = cfg_default \<or> cfg = cfg_aggr \<or> cfg = cfg_conservative"

lemma set_feature_update: "set_feature i v xs = xs[i := ucast (min v 127)]"
  by (simp add: set_feature_def not_less list_update_beyond)

lemma sint_feature: "sint (ucast (min v 127) :: u8) = int (min (unat (v :: u32)) 127)"
proof -
  have u: "unat (min v 127) = min (unat v) 127" by (simp add: min_def word_le_nat_alt)
  then have "uint (min v 127) = int (min (unat v) 127)" by (metis of_nat_unat uint_nat)
  then show ?thesis by (simp add: signed_ucast_eq signed_take_bit_int_eq_self)
qed

lemma build_input_ref: "map sint (build_input h tel) = ref_input h tel"
  by (simp add: build_input_def ref_input_def Let_def set_feature_update map_update sint_feature unat_div_distrib)

lemma length_build_input: "length (build_input h tel) = min (unat (hidden h)) 256"
  by (simp add: build_input_def Let_def set_feature_update)

lemma has_weights_iff:
  assumes "header_valid h"
  shows "has_weights h model_len \<longleftrightarrow> enough_weights h model_len"
proof (cases "dtype h = 0")
  case True
  have nz: "n_layers h \<noteq> 0" "hidden h \<noteq> 0" using assms by (auto simp: header_valid_def)
  let ?nl = "unat (n_layers h)"
  let ?tot = "fold (add_layer h) [0..<?nl] 0"
  have c: "compute h = Some ?tot" using True nz by (simp add: compute_def)
  have u: "unat ?tot = layer_off h ?nl" "layer_off h ?nl < 2 ^ 50" using fold_add_layer [of ?nl h] layer_off_limit [of ?nl h] by simp_all
  have need: "unat (weights_needed h) = 16 + layer_off h ?nl"
    using u by (simp add: weights_needed_def c PAYLOAD_OFFSET_def unat_add_no_wrap)
  have "0 < unat (out_dim h 0)" using nz
    by (auto simp: out_dim_def last_out_def unat_ucast_u16(1) unat_ucast_u32(1) unat_gt_0 simp flip: unat_gt_0)
  moreover have "layer_bytes h 0 \<le> layer_off h ?nl"
    using layer_off_mono [of 0 ?nl h] nz by (simp add: unat_gt_0 Suc_le_eq)
  ultimately have "0 < layer_off h ?nl" by (simp add: layer_bytes_def)
  then show ?thesis
    using True need by (simp add: has_weights_def enough_weights_def Let_def word_less_nat_alt word_le_nat_alt PAYLOAD_OFFSET_def)
next
  case False
  then show ?thesis
    by (simp add: has_weights_def enough_weights_def weights_needed_def compute_def PAYLOAD_OFFSET_def Let_def)
qed

lemma fallback_range: "- 127 \<le> sint (fallback_score tel)" "sint (fallback_score tel) \<le> 127"
  by (simp_all add: fallback_score_def Let_def word_sless_alt)

lemma ref_layer_range: "x \<in> set (ref_layer cfg m addr h l xs) \<Longrightarrow> 0 \<le> x \<and> x \<le> 127"
  by (auto simp: ref_layer_def pos_imp_zdiv_nonneg_iff)

lemma ref_net_range:
  "(\<And>x. x \<in> set xs \<Longrightarrow> 0 \<le> x \<and> x \<le> 127) \<Longrightarrow> y \<in> set (ref_net cfg m addr h ls xs) \<Longrightarrow> 0 \<le> y \<and> y \<le> 127"
proof (induction ls arbitrary: xs)
  case (Cons l ls)
  show ?case
  proof (cases "length xs < unat (hidden h) \<or> 256 < unat (out_dim h l)")
    case True
    with Cons.prems show ?thesis by simp
  next
    case False
    with Cons.prems(2) Cons.IH [of "ref_layer cfg m addr h l xs"] ref_layer_range show ?thesis by simp
  qed
qed simp

lemma ref_input_range: "x \<in> set (ref_input h tel) \<Longrightarrow> 0 \<le> x \<and> x \<le> 127"
proof -
  assume x: "x \<in> set (ref_input h tel)"
  have "set (ref_input h tel) \<subseteq> {0, int (min (unat (runq tel)) 127), int (min (unat (irq_rate tel)) 127),
      int (min (unat (free_kb tel) div 1024) 127), int (min (unat (pf_rate tel)) 127)}"
    unfolding ref_input_def by (intro set_update_subsetI) (auto simp: set_replicate_conv_if)
  with x show ?thesis by auto
qed

lemma ref_score_range: "- 127 \<le> ref_score cfg m model_len h tel addr \<and> ref_score cfg m model_len h tel addr \<le> 127"
proof (cases "ref_net cfg m addr h [0..<unat (n_layers h)] (ref_input h tel)")
  case Nil
  then show ?thesis using fallback_range by (simp add: ref_score_def)
next
  case (Cons y ys)
  then have "y \<in> set (ref_net cfg m addr h [0..<unat (n_layers h)] (ref_input h tel))" by simp
  then have "0 \<le> y \<and> y \<le> 127" using ref_net_range [of "ref_input h tel" y] ref_input_range by blast
  with Cons show ?thesis using fallback_range by (simp add: ref_score_def)
qed

lemma choose_action_ref:
  assumes "preset cfg" "- 127 \<le> sint s" "sint s \<le> 127"
  shows "choose_action cfg tel s = ref_action cfg tel (sint s)"
proof -
  let ?b = "sint (QUANTUM_BASE_US cfg)" and ?c = "sint (QUANTUM_SCALE cfg)"
  have c: "0 \<le> ?c" "?c \<le> 30" "0 \<le> ?b" "?b \<le> 1500"
    using assms(1) by (auto simp: preset_def cfg_default_def cfg_aggr_def cfg_conservative_def)
  have "sint s * ?c \<le> 127 * 30" using assms(3) c by (intro order.trans [OF mult_right_mono [of "sint s" 127 ?c] mult_left_mono [of ?c 30 127]]) simp_all
  moreover have "- (127 * 30) \<le> sint s * ?c"
    using assms(2) c mult_right_mono [of "- 127" "sint s" ?c] by simp
  ultimately have q: "sint (QUANTUM_BASE_US cfg + s * QUANTUM_SCALE cfg) = ?b + sint s * ?c"
    using c by (simp add: sint_word_add sint_word_mult signed_take_bit_int_eq_self)
  define q0 where "q0 = QUANTUM_BASE_US cfg + s * QUANTUM_SCALE cfg"
  define q1 where "q1 = (if q0 <s 100 then 100 else q0)"
  define q2 where "q2 = (if 50000 <s q1 then 50000 else q1)"
  have "sint q2 = max 100 (min 50000 (?b + sint s * ?c))"
    by (auto simp: q2_def q1_def q0_def q word_sless_alt)
  then have p: "(scast q2 :: u64) = of_int (max 100 (min 50000 (?b + sint s * ?c)))" by (simp only: scast_eq)
  show ?thesis
    unfolding choose_action_def ref_action_def Let_def q0_def [symmetric] q1_def [symmetric] q2_def [symmetric] p
    by (simp add: TRIM_BYTES_def REQUIRES_SNAPSHOT_def)
qed


lemma infer_refines:
  assumes "header_valid h" "preset cfg" "length scr = 1024" "unat addr + unat model_len < 2 ^ 64"
  shows "\<exists>scr'. infer_and_propose cfg m model_len h tel scr addr =
      Some (ref_action cfg tel (ref_score cfg m model_len h tel addr), scr') \<and> length scr' = 1024"
proof -
  let ?in = "build_input h tel"
  let ?xbuf = "?in @ replicate (256 - length ?in) 0"
  have len: "length ?in \<le> 256" "length ?xbuf = 256" by (simp_all add: length_build_input)
  note hw = has_weights_iff [OF assms(1), of model_len]
  show ?thesis
  proof (cases "enough_weights h model_len")
    case True
    have "hidden h \<noteq> 0" using assms(1) by (auto simp: header_valid_def)
    then have h: "0 < unat (hidden h)" by (simp add: unat_gt_0)
    have d: "dtype h = 0" and "unat addr + 16 + layer_off h (unat (n_layers h)) < 2 ^ 64"
      using True assms(4) by (simp_all add: enough_weights_def)
    have sub: "set [0..<unat (n_layers h)] \<subseteq> {..<unat (n_layers h)}" by auto
    note net = run_layers_refines [OF d h \<open>unat addr + 16 + layer_off h (unat (n_layers h)) < 2 ^ 64\<close> sub, of scr ?xbuf "length ?in" cfg m]
    obtain scr' xbuf' n where r: "run_layers cfg m h addr [0..<unat (n_layers h)] scr ?xbuf (length ?in) = Some (scr', xbuf', n)"
      "length scr' = 1024" "length xbuf' = 256" "n \<le> 256"
      "map sint (take n xbuf') = ref_net cfg m addr h [0..<unat (n_layers h)] (ref_input h tel)"
      using net len assms(3) by (auto simp: build_input_ref)
    let ?s = "if n > 0 then scast (xbuf' ! 0) else 0 :: i32"
    have "sint ?s = (case map sint (take n xbuf') of [] \<Rightarrow> 0 | x # _ \<Rightarrow> x)"
    proof (cases n)
      case (Suc k)
      then obtain y ys where y: "xbuf' = y # ys" using r(3) by (cases xbuf') auto
      have "sint (scast y :: i32) = sint y"
        using sint_i8_range [of y] by (simp add: signed_scast_eq signed_take_bit_int_eq_self)
      then show ?thesis using Suc y by simp
    qed simp
    then have s: "sint ?s = ref_score cfg m model_len h tel addr" unfolding r(5) by (simp add: ref_score_def True)
    have "infer_and_propose cfg m model_len h tel scr addr = Some (choose_action cfg tel ?s, scr')"
      using r(1,3) True d hw by (simp add: infer_and_propose_def Let_def array_get_def)
    then show ?thesis using choose_action_ref [OF assms(2), of ?s] ref_score_range s r(2) by metis
  next
    case False
    have "infer_and_propose cfg m model_len h tel scr addr = Some (choose_action cfg tel (fallback_score tel), scr)"
      using False hw len by (simp add: infer_and_propose_def Let_def array_get_def)
    then show ?thesis
      using choose_action_ref [OF assms(2) fallback_range] False assms(3) by (simp add: ref_score_def)
  qed
qed

lemma quantum_word: "100 \<le> x \<Longrightarrow> x \<le> 50000 \<Longrightarrow> unat (ucast (of_int x :: u64) :: u32) = nat x"
  by (simp add: unsigned_ucast_eq unat_eq_nat_uint uint_word_of_int_eq take_bit_int_eq_self take_bit_nat_eq_self nat_less_iff)

lemma ref_action_admissible:
  "is_allowed (kind (ref_action cfg tel s)) \<and> validate_params (ref_action cfg tel s) \<and>
   flags (ref_action cfg tel s) AND NEEDS_MANUAL_CONFIRM = 0"
proof -
  define x where "x = max 100 (min 50000 (sint (QUANTUM_BASE_US cfg) + s * sint (QUANTUM_SCALE cfg)))"
  have x: "100 \<le> x" "x \<le> 50000" by (simp_all add: x_def)
  then have "(100 :: u32) \<le> ucast (of_int x :: u64)" "ucast (of_int x :: u64) \<le> (50000 :: u32)"
    by (simp_all add: word_le_nat_alt quantum_word nat_le_iff le_nat_iff)
  then show ?thesis
    by (simp add: ref_action_def x_def [symmetric] is_allowed_def validate_params_def Let_def NEEDS_MANUAL_CONFIRM_def)
qed

lemma region_offset: "k < n \<Longrightarrow> n < 2 ^ 64 \<Longrightarrow> addr + of_nat k \<in> region addr n"
  by (simp add: region_def unat_of_nat take_bit_nat_eq_self)

lemma ref_layer_cong:
  assumes "l < unat (n_layers h)" "16 + layer_off h (unat (n_layers h)) \<le> n" "n < 2 ^ 64"
    and "\<And>x. x \<in> region addr n \<Longrightarrow> m x = m' x"
  shows "ref_layer cfg m addr h l xs = ref_layer cfg m' addr h l xs"
proof -
  let ?i = "unat (hidden h)" and ?k = "unat (out_dim h l)"
  have tot: "16 + layer_off h l + ?i * ?k + 4 * ?k \<le> n"
    using layer_off_mono [of l "unat (n_layers h)" h] assms(1,2) by (simp add: layer_bytes_def)
  have agree: "m (addr + of_nat j) = m' (addr + of_nat j)" if "j < n" for j
    using assms(4) region_offset [OF that assms(3)] by blast
  have w: "ref_weight m addr h l oi p = ref_weight m' addr h l oi p" if "oi < ?k" "p < ?i" for oi p
  proof -
    have "oi * ?i + p < Suc oi * ?i" using that(2) by simp
    also have "\<dots> \<le> ?k * ?i" using that(1) by (intro mult_le_mono1) simp
    finally have "16 + layer_off h l + oi * ?i + p < n" using tot by (simp add: mult.commute)
    from agree [OF this] show ?thesis by (simp only: ref_weight_def)
  qed
  have b: "ref_bias m addr h l oi = ref_bias m' addr h l oi" if "oi < ?k" for oi
  proof -
    have "read_bytes m (addr + of_nat (16 + layer_off h l + ?i * ?k + 4 * oi)) 4 =
        read_bytes m' (addr + of_nat (16 + layer_off h l + ?i * ?k + 4 * oi)) 4"
      using agree [of "16 + layer_off h l + ?i * ?k + 4 * oi + _"] that tot
      by (auto simp: read_bytes_def add.assoc simp flip: of_nat_add)
    then show ?thesis by (simp add: ref_bias_def)
  qed
  show ?thesis by (simp add: ref_layer_def ref_neuron_def w b)
qed

lemma ref_net_cong:
  assumes "16 + layer_off h (unat (n_layers h)) \<le> n" "n < 2 ^ 64" "\<And>x. x \<in> region addr n \<Longrightarrow> m x = m' x"
  shows "set ls \<subseteq> {..<unat (n_layers h)} \<Longrightarrow> ref_net cfg m addr h ls xs = ref_net cfg m' addr h ls xs"
proof (induction ls arbitrary: xs)
  case (Cons l ls)
  then show ?case using ref_layer_cong [OF _ assms, where l = l and cfg = cfg and xs = xs] by simp
qed simp

lemma ref_score_cong:
  assumes "\<And>x. x \<in> region addr (unat model_len) \<Longrightarrow> m x = m' x"
  shows "ref_score cfg m model_len h tel addr = ref_score cfg m' model_len h tel addr"
proof (cases "enough_weights h model_len")
  case True
  have "unat model_len < 2 ^ 64" using unsigned_less [of model_len, where ?'a = nat] by simp
  moreover have "set [0..<unat (n_layers h)] \<subseteq> {..<unat (n_layers h)}" by auto
  ultimately have "ref_net cfg m addr h [0..<unat (n_layers h)] xs = ref_net cfg m' addr h [0..<unat (n_layers h)] xs" for xs
    using True by (intro ref_net_cong [of h "unat model_len"] assms) (simp_all add: enough_weights_def)
  then show ?thesis by (simp add: ref_score_def)
qed (simp add: ref_score_def)

section \<open>Steps of the agent\<close>

definition agent_ok :: "agent \<Rightarrow> bool" where
  "agent_ok a \<longleftrightarrow> unat (AI_MODEL_ADDR (link a)) + unat (AI_MODEL_LEN (link a)) < 2 ^ 64 \<and>
     (case AGENT_STATE a of None \<Rightarrow> True
      | Some ag \<Rightarrow> header_valid (hdr ag) \<and> length (scratch ag) = 1024 \<and> model_ptr ag = AI_MODEL_ADDR (link a))"

lemma ensure_init_ok:
  assumes "agent_ok a" "ensure_init m a c = (ok, a', c')"
  shows "agent_ok a' \<and> (ok \<longleftrightarrow> AGENT_STATE a' \<noteq> None) \<and> AI_RUNNING a' = AI_RUNNING a \<and> link a' = link a"
  using assms
  by (auto simp: ensure_init_def agent_ok_def load_model_def read_unaligned_def timer_ticks_def page_faults_def Let_def
      split: if_splits option.splits)

lemma propose_admitted:
  assumes "is_allowed (kind act)" "validate_params act" "SYSTEM_READY st" "quantum_ok st"
  shows "\<exists>r out st'. ai_propose_action (Some act) (Some out0) st = Some (r, out, st') \<and> quantum_ok st' \<and> SYSTEM_READY st' \<and>
    (e9_sent (kio st') = e9_sent (kio st) @ intent_text (SEQ st) act @ commit_text (SEQ st) act \<or>
     e9_sent (kio st') = e9_sent (kio st) @ intent_text (SEQ st) act @ fail_text (SEQ st) 5)"
proof -
  let ?st = "st\<lparr>SEQ := SEQ st + 1\<rparr>"
  have adm: "admitted act ?st" using assms by (simp add: admitted_def)
  obtain r st' where r: "apply_action_atomic (SEQ st) act ?st = Some (r, st')" using apply_total by blast
  have q: "quantum_ok st'" "SYSTEM_READY st'"
    using apply_keeps_quantum_ok [OF _ r] apply_SEQ [OF r] assms(3,4) by (simp_all add: quantum_ok_def)
  have "e9_sent (kio st') = e9_sent (kio st) @ intent_text (SEQ st) act @ commit_text (SEQ st) act \<or>
     e9_sent (kio st') = e9_sent (kio st) @ intent_text (SEQ st) act @ fail_text (SEQ st) 5"
    using r unfolding apply_admitted [OF adm] by (auto simp: Let_def split: prod.splits if_splits)
  with q r show ?thesis by (simp add: ai_propose_action_def Let_def)
qed

lemma agent_step_proposes:
  assumes "preset cfg" "agent_ok a" "AGENT_STATE a = Some ag" "gather_telemetry p tasks (prev_ticks ag) (prev_pf ag) c = (tel, t, f, c')"
  shows "\<exists>act scr. infer_and_propose cfg m (AI_MODEL_LEN (link a)) (hdr ag) tel (scratch ag) (model_ptr ag) = Some (act, scr) \<and>
    is_allowed (kind act) \<and> validate_params act \<and> flags act AND NEEDS_MANUAL_CONFIRM = 0 \<and>
    agent_ok (a\<lparr>AGENT_STATE := Some (ag\<lparr>prev_ticks := t, prev_pf := f, scratch := scr\<rparr>)\<rparr>)"
proof -
  have ag: "header_valid (hdr ag)" "length (scratch ag) = 1024" "unat (model_ptr ag) + unat (AI_MODEL_LEN (link a)) < 2 ^ 64"
    using assms(2,3) by (simp_all add: agent_ok_def)
  obtain scr where "infer_and_propose cfg m (AI_MODEL_LEN (link a)) (hdr ag) tel (scratch ag) (model_ptr ag) =
      Some (ref_action cfg tel (ref_score cfg m (AI_MODEL_LEN (link a)) (hdr ag) tel (model_ptr ag)), scr)" "length scr = 1024"
    using infer_refines [OF ag(1) assms(1) ag(2,3), of m tel] by blast
  then show ?thesis using ref_action_admissible assms(2,3) by (auto simp: agent_ok_def)
qed

section \<open>Properties\<close>

text \<open>C8: For a valid header whose payload lies inside the announced model, the inference loop (wrapping
  32-bit accumulation, saturating bias, in-place buffers) computes exactly the network over the
  integers: no accumulation overflows, no index is out of range, and the action proposed is the one
  the reference score selects.\<close>
theorem inference_is_exact:
  assumes "header_valid h" "preset cfg" "length scr = 1024" "unat addr + unat model_len < 2 ^ 64"
  shows "\<exists>scr'. infer_and_propose cfg m model_len h tel scr addr =
      Some (ref_action cfg tel (ref_score cfg m model_len h tel addr), scr') \<and> length scr' = 1024"
  by (rule infer_refines [OF assms])

theorem inference_is_exact_witness:
  "\<exists>scr'. infer_and_propose cfg_default (\<lambda>_. 1) 72 example_header
     \<lparr>irq_errors = 0, runq = 2, irq_rate = 18, free_kb = 65536, pf_rate = 0\<rparr> (replicate 1024 0) 0x300000 =
   Some (ref_action cfg_default \<lparr>irq_errors = 0, runq = 2, irq_rate = 18, free_kb = 65536, pf_rate = 0\<rparr>
     (ref_score cfg_default (\<lambda>_. 1) 72 example_header
        \<lparr>irq_errors = 0, runq = 2, irq_rate = 18, free_kb = 65536, pf_rate = 0\<rparr> 0x300000), scr') \<and> length scr' = 1024"
  by (rule inference_is_exact) (simp_all add: example_header_def header_valid_def preset_def)

text \<open>Inference reads nothing outside the announced model: two memories that agree on the model's
  bytes give the same action, for every header and telemetry.\<close>
theorem inference_reads_only_the_model:
  assumes "header_valid h" "preset cfg" "length scr = 1024" "unat addr + unat model_len < 2 ^ 64"
    "\<And>x. x \<in> region addr (unat model_len) \<Longrightarrow> m x = m' x"
  shows "map_option fst (infer_and_propose cfg m model_len h tel scr addr) =
    map_option fst (infer_and_propose cfg m' model_len h tel scr addr)"
  using infer_refines [OF assms(1-4), of m tel] infer_refines [OF assms(1-4), of m' tel] ref_score_cong [OF assms(5)]
  by auto

theorem inference_reads_only_the_model_witness:
  "map_option fst (infer_and_propose cfg_default (\<lambda>_. 1) 72 example_header
     \<lparr>irq_errors = 0, runq = 2, irq_rate = 18, free_kb = 65536, pf_rate = 0\<rparr> (replicate 1024 0) 0x300000) =
   map_option fst (infer_and_propose cfg_default (\<lambda>x. if x < 0x400000 then 1 else 9) 72 example_header
     \<lparr>irq_errors = 0, runq = 2, irq_rate = 18, free_kb = 65536, pf_rate = 0\<rparr> (replicate 1024 0) 0x300000)"
proof (rule inference_reads_only_the_model)
  fix x :: u64 assume "x \<in> region 0x300000 (unat (72 :: usize))"
  then have lt: "unat (x - 0x300000) < 72" by (simp add: region_def)
  have "x = 0x300000 + (x - 0x300000)" by simp
  then have "unat x = unat (0x300000 + (x - 0x300000) :: u64)" by simp
  also have "\<dots> = 0x300000 + unat (x - 0x300000)" using lt unat_add_no_wrap [of "0x300000" "x - 0x300000"] by simp
  finally have "unat x = 0x300000 + unat (x - 0x300000)" .
  then show "1 = (if x < 0x400000 then 1 else 9 :: u8)" using lt by (simp add: word_less_nat_alt)
qed (simp_all add: example_header_def header_valid_def preset_def)

text \<open>A step of a sound agent proposes nothing or one action the transactional layer admits.\<close>

lemma agent_step_cases:
  assumes "preset cfg" "agent_ok a"
  obtains (idle) a' c where "agent_ok a'" "agent_step cfg m p tasks a st = Some (a', st\<lparr>sens := c\<rparr>)"
  | (proposal) a' c act where "agent_ok a'" "is_allowed (kind act)" "validate_params act"
      "agent_step cfg m p tasks a st =
         map_option (\<lambda>(_, _, st). (a', st)) (ai_propose_action (Some act) (Some ActionOutcome_default) (st\<lparr>sens := c\<rparr>))"
proof -
  obtain ok a1 c1 where ei: "ensure_init m a (sens st) = (ok, a1, c1)" by (cases "ensure_init m a (sens st)")
  note i = ensure_init_ok [OF assms(2) ei]
  show thesis
  proof (cases "ok \<and> AI_RUNNING a1")
    case False
    then show ?thesis using i idle [of a1 c1] by (auto simp: agent_step_def ei)
  next
    case True
    then obtain ag where ag: "AGENT_STATE a1 = Some ag" using i by auto
    obtain tel t f c2 where g: "gather_telemetry p tasks (prev_ticks ag) (prev_pf ag) c1 = (tel, t, f, c2)"
      by (cases "gather_telemetry p tasks (prev_ticks ag) (prev_pf ag) c1")
    obtain act scr where act: "infer_and_propose cfg m (AI_MODEL_LEN (link a1)) (hdr ag) tel (scratch ag) (model_ptr ag) = Some (act, scr)"
      "is_allowed (kind act)" "validate_params act" "flags act AND NEEDS_MANUAL_CONFIRM = 0"
      "agent_ok (a1\<lparr>AGENT_STATE := Some (ag\<lparr>prev_ticks := t, prev_pf := f, scratch := scr\<rparr>)\<rparr>)"
      using agent_step_proposes [OF assms(1) _ ag g, of m] i by blast
    show ?thesis
      by (rule proposal [OF act(5,2,3), of c2])
        (use True act in \<open>simp add: agent_step_def ei ag g Let_def map_option_case split: option.split\<close>)
  qed
qed

lemma agent_step_total:
  assumes "preset cfg" "agent_ok a"
  shows "\<exists>a' st'. agent_step cfg m p tasks a st = Some (a', st') \<and> agent_ok a'"
proof (cases rule: agent_step_cases [OF assms, of m p tasks st, case_names idle proposal])
  case (proposal a' c act)
  obtain r out st' where "ai_propose_action (Some act) (Some ActionOutcome_default) (st\<lparr>sens := c\<rparr>) = Some (r, out, st')"
    using propose_total by blast
  then show ?thesis using proposal by simp
qed blast

text \<open>C22: A step of the agent never panics and its proposals are never refused: once the system is ready,
  a step either proposes nothing (no model, or the agent is stopped) or is journalled as an
  intention followed by its commit or its rollback, and the quantum stays between 100 and 50000
  microseconds.\<close>
theorem agent_proposals_are_never_refused:
  assumes "preset cfg" "agent_ok a" "SYSTEM_READY st" "quantum_ok st"
  shows "\<exists>a' st'. agent_step cfg m p tasks a st = Some (a', st') \<and> agent_ok a' \<and> SYSTEM_READY st' \<and> quantum_ok st' \<and>
    (e9_sent (kio st') = e9_sent (kio st) \<or>
     (\<exists>act. e9_sent (kio st') = e9_sent (kio st) @ intent_text (SEQ st) act @ commit_text (SEQ st) act \<or>
            e9_sent (kio st') = e9_sent (kio st) @ intent_text (SEQ st) act @ fail_text (SEQ st) 5))"
proof (cases rule: agent_step_cases [OF assms(1,2), of m p tasks st, case_names idle proposal])
  case (idle a' c)
  then show ?thesis using assms(3,4) by (auto simp: quantum_ok_def)
next
  case (proposal a' c act)
  have "SYSTEM_READY (st\<lparr>sens := c\<rparr>)" "quantum_ok (st\<lparr>sens := c\<rparr>)" using assms(3,4) by (simp_all add: quantum_ok_def)
  from propose_admitted [OF proposal(2,3) this, of ActionOutcome_default]
  obtain r out st' where "ai_propose_action (Some act) (Some ActionOutcome_default) (st\<lparr>sens := c\<rparr>) = Some (r, out, st')"
    "quantum_ok st'" "SYSTEM_READY st'"
    "e9_sent (kio st') = e9_sent (kio st) @ intent_text (SEQ st) act @ commit_text (SEQ st) act \<or>
     e9_sent (kio st') = e9_sent (kio st) @ intent_text (SEQ st) act @ fail_text (SEQ st) 5"
    by auto
  then show ?thesis using proposal(1,4) by auto
qed

definition example_model_mem :: mem where
  "example_model_mem = write_bytes (\<lambda>_. 1) 0x300000 (str_bytes ''AIMD'' @ [1, 0, 4, 0, 0, 0, 0, 0, 0, 0, 0, 0])"

definition example_agent :: agent where
  "example_agent = agent_static (ai_link_static\<lparr>AI_MODEL_ADDR := 0x300000, AI_MODEL_LEN := 0x1000\<rparr>)"

theorem agent_proposals_are_never_refused_witness:
  "\<exists>a' st'. agent_step cfg_aggr example_model_mem pmm_static (sched_static :: nat sched) example_agent example_kern =
     Some (a', st') \<and> quantum_ok st'"
proof -
  have "agent_ok example_agent" by (simp add: agent_ok_def example_agent_def agent_static_def ai_link_static_def)
  moreover have "SYSTEM_READY example_kern" "quantum_ok example_kern"
    by (simp_all add: quantum_ok_def example_kern_def kern_static_def set_system_ready_def)
  moreover have "preset cfg_aggr" by (simp add: preset_def)
  ultimately show ?thesis
    using agent_proposals_are_never_refused [of cfg_aggr example_agent example_kern example_model_mem pmm_static "sched_static :: nat sched"]
    by blast
qed

end
