(* ===== verification/Keyboard.thy ===== *)
theory Keyboard
  imports Vga
begin

text \<open>
  The PS/2 keyboard (\<^verbatim>\<open>kernel/src/keyboard.rs\<close>): modifier state, the set-1 scancode tables, the
  scancode handler with its console echo, and the single-producer single-consumer byte ring between
  the interrupt handler and the shell. \<open>kbuf_step\<close> splits \<open>poll_char\<close> into its memory accesses and
  lets the interrupt handler run between any two of them.
\<close>

section \<open>State\<close>

definition KBUF_CAP :: nat where
  "KBUF_CAP = 256"

record kbd =
  CTRL_HELD :: bool
  SHIFT_HELD :: bool
  KBUF :: "u8 list"
  KHEAD :: nat
  KTAIL :: nat

definition kbd_static :: kbd where
  "kbd_static = \<lparr>CTRL_HELD = False, SHIFT_HELD = False, KBUF = replicate KBUF_CAP 0, KHEAD = 0, KTAIL = 0\<rparr>"

definition kbuf_push :: "u8 \<Rightarrow> kbd \<Rightarrow> kbd" where
  "kbuf_push b k =
     (let head = KHEAD k;
          nxt = (head + 1) mod KBUF_CAP;
          tail = KTAIL k
      in if nxt \<noteq> tail then k\<lparr>KBUF := (KBUF k)[head := b], KHEAD := nxt\<rparr> else k)"

definition poll_char :: "kbd \<Rightarrow> u8 option \<times> kbd" where
  "poll_char k =
     (let tail = KTAIL k;
          head = KHEAD k
      in if tail = head then (None, k)
         else (Some (KBUF k ! tail), k\<lparr>KTAIL := (tail + 1) mod KBUF_CAP\<rparr>))"

section \<open>Scancode tables\<close>

definition MAP_NORMAL :: "char option list" where
  "MAP_NORMAL = (replicate 0x3A None)[
    0x02 := Some (CHR ''1''), 0x03 := Some (CHR ''2''), 0x04 := Some (CHR ''3''),
     0x05 := Some (CHR ''4''), 0x06 := Some (CHR ''5''), 0x07 := Some (CHR ''6''),
     0x08 := Some (CHR ''7''), 0x09 := Some (CHR ''8''), 0x0A := Some (CHR ''9''),
     0x0B := Some (CHR ''0''), 0x0C := Some (CHR ''-''), 0x0D := Some (CHR ''=''),
     0x10 := Some (CHR ''q''), 0x11 := Some (CHR ''w''), 0x12 := Some (CHR ''e''),
     0x13 := Some (CHR ''r''), 0x14 := Some (CHR ''t''), 0x15 := Some (CHR ''y''),
     0x16 := Some (CHR ''u''), 0x17 := Some (CHR ''i''), 0x18 := Some (CHR ''o''),
     0x19 := Some (CHR ''p''), 0x1A := Some (CHR ''[''), 0x1B := Some (CHR '']''),
     0x1E := Some (CHR ''a''), 0x1F := Some (CHR ''s''), 0x20 := Some (CHR ''d''),
     0x21 := Some (CHR ''f''), 0x22 := Some (CHR ''g''), 0x23 := Some (CHR ''h''),
     0x24 := Some (CHR ''j''), 0x25 := Some (CHR ''k''), 0x26 := Some (CHR ''l''),
     0x27 := Some (CHR '';''), 0x28 := Some (CHR 0x27), 0x29 := Some (CHR 0x60),
     0x2B := Some (CHR 0x5C), 0x2C := Some (CHR ''z''), 0x2D := Some (CHR ''x''),
     0x2E := Some (CHR ''c''), 0x2F := Some (CHR ''v''), 0x30 := Some (CHR ''b''),
     0x31 := Some (CHR ''n''), 0x32 := Some (CHR ''m''), 0x33 := Some (CHR '',''),
     0x34 := Some (CHR ''.''), 0x35 := Some (CHR ''/''), 0x39 := Some (CHR '' '')]"

definition MAP_SHIFT :: "char option list" where
  "MAP_SHIFT = (replicate 0x3A None)[
    0x02 := Some (CHR ''!''), 0x03 := Some (CHR ''@''), 0x04 := Some (CHR ''#''),
     0x05 := Some (CHR ''$''), 0x06 := Some (CHR ''%''), 0x07 := Some (CHR ''^''),
     0x08 := Some (CHR ''&''), 0x09 := Some (CHR ''*''), 0x0A := Some (CHR ''(''),
     0x0B := Some (CHR '')''), 0x0C := Some (CHR ''_''), 0x0D := Some (CHR ''+''),
     0x10 := Some (CHR ''Q''), 0x11 := Some (CHR ''W''), 0x12 := Some (CHR ''E''),
     0x13 := Some (CHR ''R''), 0x14 := Some (CHR ''T''), 0x15 := Some (CHR ''Y''),
     0x16 := Some (CHR ''U''), 0x17 := Some (CHR ''I''), 0x18 := Some (CHR ''O''),
     0x19 := Some (CHR ''P''), 0x1A := Some (CHR ''{''), 0x1B := Some (CHR ''}''),
     0x1E := Some (CHR ''A''), 0x1F := Some (CHR ''S''), 0x20 := Some (CHR ''D''),
     0x21 := Some (CHR ''F''), 0x22 := Some (CHR ''G''), 0x23 := Some (CHR ''H''),
     0x24 := Some (CHR ''J''), 0x25 := Some (CHR ''K''), 0x26 := Some (CHR ''L''),
     0x27 := Some (CHR '':''), 0x28 := Some (CHR 0x22), 0x29 := Some (CHR ''~''),
     0x2B := Some (CHR ''|''), 0x2C := Some (CHR ''Z''), 0x2D := Some (CHR ''X''),
     0x2E := Some (CHR ''C''), 0x2F := Some (CHR ''V''), 0x30 := Some (CHR ''B''),
     0x31 := Some (CHR ''N''), 0x32 := Some (CHR ''M''), 0x33 := Some (CHR ''<''),
     0x34 := Some (CHR ''>''), 0x35 := Some (CHR ''?''), 0x39 := Some (CHR '' '')]"

definition table_get :: "char option list \<Rightarrow> u8 \<Rightarrow> char option" where
  "table_get m code = (if unat code < length m then m ! unat code else None)"

section \<open>The scancode handler\<close>

type_synonym kbd_console = "kbd \<times> Console"

definition echo :: "char \<Rightarrow> kbd_console \<Rightarrow> kbd_console" where
  "echo ch st = (case st of (k, c) \<Rightarrow> (kbuf_push (of_char ch) k, vga_put_char (of_char ch) c))"

definition handle_scancode :: "u8 \<Rightarrow> kbd_console \<Rightarrow> string option \<times> kbd_console" where
  "handle_scancode scancode st =
     (let (k, c) = st
      in if scancode = 0xE0 then (None, st)
         else
           let is_release = (scancode AND 0x80 \<noteq> 0);
               code = scancode AND 0x7F
           in if code = 0x2A \<or> code = 0x36 then (None, (k\<lparr>SHIFT_HELD := \<not> is_release\<rparr>, c))
              else if code = 0x1D then (None, (k\<lparr>CTRL_HELD := \<not> is_release\<rparr>, c))
              else if code = 0x2D then
                (if \<not> is_release \<and> CTRL_HELD k then Some ''Ctrl+X'' else None, st)
              else if code = 0x2E then
                (if \<not> is_release \<and> CTRL_HELD k then Some ''Ctrl+C'' else None, st)
              else if code = 0x0E then
                (None, if \<not> is_release then (kbuf_push 8 k, vga_backspace c) else st)
              else if code = 0x0F then
                (None, if \<not> is_release then
                   ((kbuf_push 32 ^^ 4) k, vga_write_str (str_bytes ''    '') c) else st)
              else if code = 0x1C then
                (None, if \<not> is_release then (kbuf_push 10 k, vga_put_char 10 c) else st)
              else
                (None,
                 if \<not> is_release then
                   (case (if SHIFT_HELD k then table_get MAP_SHIFT code else table_get MAP_NORMAL code) of
                      Some ch \<Rightarrow> echo ch st
                    | None \<Rightarrow> st)
                 else st))"

section \<open>The reader interrupted by the handler\<close>

datatype reader = RIdle | RTail nat | RBoth nat nat | RByte nat u8

record kbuf_sys =
  kst :: kbd
  reader_at :: reader
  taken :: "u8 list"
  accepted :: "u8 list"

inductive kbuf_step :: "kbuf_sys \<Rightarrow> kbuf_sys \<Rightarrow> bool" where
  isr_push: "kbuf_step s (s\<lparr>kst := kbuf_push b (kst s),
      accepted := (if (KHEAD (kst s) + 1) mod KBUF_CAP \<noteq> KTAIL (kst s) then accepted s @ [b] else accepted s)\<rparr>)"
| load_tail: "reader_at s = RIdle \<Longrightarrow> kbuf_step s (s\<lparr>reader_at := RTail (KTAIL (kst s))\<rparr>)"
| load_head: "reader_at s = RTail t \<Longrightarrow> kbuf_step s (s\<lparr>reader_at := RBoth t (KHEAD (kst s))\<rparr>)"
| none: "reader_at s = RBoth t h \<Longrightarrow> t = h \<Longrightarrow> kbuf_step s (s\<lparr>reader_at := RIdle\<rparr>)"
| read_byte: "reader_at s = RBoth t h \<Longrightarrow> t \<noteq> h \<Longrightarrow> kbuf_step s (s\<lparr>reader_at := RByte t (KBUF (kst s) ! t)\<rparr>)"
| store_tail: "reader_at s = RByte t b \<Longrightarrow>
     kbuf_step s (s\<lparr>kst := (kst s)\<lparr>KTAIL := (t + 1) mod KBUF_CAP\<rparr>, reader_at := RIdle, taken := taken s @ [b]\<rparr>)"

inductive kbuf_reach :: "kbuf_sys \<Rightarrow> bool" where
  start: "kbuf_reach \<lparr>kst = kbd_static, reader_at = RIdle, taken = [], accepted = []\<rparr>"
| step: "kbuf_reach s \<Longrightarrow> kbuf_step s t \<Longrightarrow> kbuf_reach t"

section \<open>The ring as a queue\<close>

definition kbd_ok :: "kbd \<Rightarrow> bool" where
  "kbd_ok k \<longleftrightarrow> length (KBUF k) = 256 \<and> KHEAD k < 256 \<and> KTAIL k < 256"

definition pending :: "kbd \<Rightarrow> nat" where
  "pending k = (KHEAD k + 256 - KTAIL k) mod 256"

definition contents :: "kbd \<Rightarrow> bytes" where
  "contents k = map (\<lambda>i. KBUF k ! ((KTAIL k + i) mod 256)) [0..<pending k]"

definition kbuf_full :: "kbd \<Rightarrow> bool" where
  "kbuf_full k \<longleftrightarrow> (KHEAD k + 1) mod KBUF_CAP = KTAIL k"

lemma wrap256: "n < 512 \<Longrightarrow> n mod 256 = (if n < 256 then n else n - (256::nat))"
  by (simp add: mod_if)

lemma pending_eq:
  "kbd_ok k \<Longrightarrow> pending k = (if KTAIL k \<le> KHEAD k then KHEAD k - KTAIL k else KHEAD k + 256 - KTAIL k)"
  by (auto simp: pending_def kbd_ok_def wrap256)

lemma kbuf_full_pending: "kbd_ok k \<Longrightarrow> kbuf_full k \<longleftrightarrow> pending k = 255"
  by (auto simp: kbuf_full_def KBUF_CAP_def pending_eq kbd_ok_def wrap256 split: if_splits)

lemma pending_less: "pending k < 256"
  by (simp add: pending_def)

lemma length_contents [simp]: "length (contents k) = pending k"
  by (simp add: contents_def)

lemma kbd_ok_push: "kbd_ok k \<Longrightarrow> kbd_ok (kbuf_push b k)"
  by (simp add: kbd_ok_def kbuf_push_def KBUF_CAP_def Let_def)

lemma contents_push:
  assumes "kbd_ok k"
  shows "contents (kbuf_push b k) = (if kbuf_full k then contents k else contents k @ [b])"
proof (cases "kbuf_full k")
  case True
  then show ?thesis by (simp add: kbuf_push_def kbuf_full_def Let_def)
next
  case False
  let ?k = "k\<lparr>KBUF := (KBUF k)[KHEAD k := b], KHEAD := Suc (KHEAD k) mod 256\<rparr>"
  have k: "kbuf_push b k = ?k" using False by (simp add: kbuf_push_def kbuf_full_def Let_def KBUF_CAP_def)
  have ok': "kbd_ok ?k" using kbd_ok_push [OF assms, of b] k by simp
  have n: "pending k < 255"
    using False kbuf_full_pending [OF assms] pending_less [of k] by linarith
  have len: "pending ?k = Suc (pending k)"
    using assms n False unfolding pending_eq [OF ok'] pending_eq [OF assms]
    by (auto simp: kbd_ok_def kbuf_full_def KBUF_CAP_def wrap256 split: if_splits)
  have at: "(KTAIL k + i) mod 256 = KHEAD k \<longleftrightarrow> i = pending k" if "i < 256" for i
    using assms that unfolding pending_eq [OF assms] by (auto simp: kbd_ok_def wrap256 split: if_splits)
  have "contents ?k = contents k @ [b]"
  proof (rule nth_equalityI)
    show "length (contents ?k) = length (contents k @ [b])" by (simp add: len)
    fix i assume "i < length (contents ?k)"
    then have i: "i < Suc (pending k)" by (simp add: len)
    show "contents ?k ! i = (contents k @ [b]) ! i"
      using i n assms at [of i]
      by (auto simp: contents_def len nth_append kbd_ok_def nth_list_update less_Suc_eq simp del: upt_Suc)
  qed
  then show ?thesis using False k by simp
qed

lemma contents_Cons:
  assumes "kbd_ok k" and "KTAIL k \<noteq> KHEAD k"
  shows "contents k = KBUF k ! KTAIL k # contents (k\<lparr>KTAIL := (KTAIL k + 1) mod 256\<rparr>)"
    and "kbd_ok (k\<lparr>KTAIL := (KTAIL k + 1) mod 256\<rparr>)"
proof -
  let ?k = "k\<lparr>KTAIL := (KTAIL k + 1) mod 256\<rparr>"
  show ok': "kbd_ok ?k" using assms(1) by (simp add: kbd_ok_def)
  have len: "pending k = Suc (pending ?k)"
    using assms unfolding pending_eq [OF ok'] pending_eq [OF assms(1)]
    by (auto simp: kbd_ok_def wrap256 split: if_splits)
  have t: "KTAIL k mod 256 = KTAIL k" using assms(1) by (simp add: kbd_ok_def)
  have "(KTAIL k + Suc i) mod 256 = ((KTAIL k + 1) mod 256 + i) mod 256" for i
    by (simp add: mod_simps)
  then show "contents k = KBUF k ! KTAIL k # contents ?k"
    unfolding contents_def len
    by (simp add: upt_conv_Cons map_Suc_upt [symmetric] t comp_def del: upt_Suc)
qed

lemma contents_empty: "kbd_ok k \<Longrightarrow> KTAIL k = KHEAD k \<Longrightarrow> contents k = []"
  by (simp add: contents_def pending_eq)

lemma contents_nonempty: "kbd_ok k \<Longrightarrow> contents k \<noteq> [] \<longleftrightarrow> KTAIL k \<noteq> KHEAD k"
  using contents_empty contents_Cons(1) by fastforce

interpretation kbuf: bounded_queue kbuf_push poll_char kbuf_full contents kbd_ok 255
proof unfold_locales
  fix q :: kbd and x assume ok: "kbd_ok q"
  show "length (contents q) \<le> 255" using pending_less [of q] by simp
  show "kbuf_full q \<longleftrightarrow> length (contents q) = 255" using kbuf_full_pending [OF ok] by simp
  show "contents (kbuf_push x q) = (if kbuf_full q then contents q else contents q @ [x])"
    by (rule contents_push [OF ok])
  show "kbd_ok (kbuf_push x q)" by (rule kbd_ok_push [OF ok])
  show "case poll_char q of (None, q') \<Rightarrow> contents q = [] \<and> q' = q
      | (Some x, q') \<Rightarrow> contents q = x # contents q' \<and> kbd_ok q'"
    using contents_empty [OF ok] contents_Cons [OF ok]
    by (simp add: poll_char_def Let_def KBUF_CAP_def)
qed

section \<open>The reader and the interrupt handler\<close>

definition kbuf_inv :: "kbuf_sys \<Rightarrow> bool" where
  "kbuf_inv s \<longleftrightarrow>
     kbd_ok (kst s) \<and> taken s @ contents (kst s) = accepted s \<and>
     (case reader_at s of
        RIdle \<Rightarrow> True
      | RTail t \<Rightarrow> t = KTAIL (kst s)
      | RBoth t h \<Rightarrow> t = KTAIL (kst s) \<and> (t \<noteq> h \<longrightarrow> contents (kst s) \<noteq> [])
      | RByte t b \<Rightarrow> t = KTAIL (kst s) \<and> contents (kst s) \<noteq> [] \<and> b = hd (contents (kst s)))"

lemma KTAIL_push [simp]: "KTAIL (kbuf_push b k) = KTAIL k"
  by (simp add: kbuf_push_def Let_def)

lemma kbuf_inv_step:
  assumes "kbuf_step s t" and "kbuf_inv s"
  shows "kbuf_inv t"
proof -
  have ok: "kbd_ok (kst s)" using assms(2) by (simp add: kbuf_inv_def)
  from assms(1) show ?thesis
  proof cases
    case (isr_push b)
    with assms(2) ok show ?thesis
      by (auto simp: kbuf_inv_def kbd_ok_push contents_push kbuf_full_def split: reader.splits)
  next
    case (store_tail u b)
    with assms(2) have u: "u = KTAIL (kst s)" "contents (kst s) \<noteq> []" "b = hd (contents (kst s))"
      by (auto simp: kbuf_inv_def)
    with contents_Cons [OF ok] contents_nonempty [OF ok] store_tail assms(2) show ?thesis
      by (auto simp: kbuf_inv_def KBUF_CAP_def)
  next
    case (read_byte u h)
    with assms(2) have "contents (kst s) \<noteq> []" "u = KTAIL (kst s)" by (auto simp: kbuf_inv_def)
    with contents_Cons(1) [OF ok] contents_nonempty [OF ok] read_byte assms(2) show ?thesis
      by (auto simp: kbuf_inv_def)
  qed (use assms(2) contents_nonempty [OF ok] in \<open>auto simp: kbuf_inv_def\<close>)
qed

lemma kbd_ok_static: "kbd_ok kbd_static" "contents kbd_static = []"
  by (simp_all add: kbd_static_def kbd_ok_def KBUF_CAP_def contents_def pending_def)

lemma kbuf_inv_reach: "kbuf_reach s \<Longrightarrow> kbuf_inv s"
proof (induction rule: kbuf_reach.induct)
  case start
  show ?case by (simp add: kbuf_inv_def kbd_ok_static)
next
  case (step s t)
  then show ?case by (blast intro: kbuf_inv_step)
qed

section \<open>Typing\<close>

definition kbd_run :: "u8 list \<Rightarrow> kbd_console \<Rightarrow> kbd_console" where
  "kbd_run codes st = fold (\<lambda>sc st. snd (handle_scancode sc st)) codes st"

definition special_code :: "u8 \<Rightarrow> bool" where
  "special_code code \<longleftrightarrow> code \<in> {0x2A, 0x36, 0x1D, 0x2D, 0x2E, 0x0E, 0x0F, 0x1C}"

definition key_char :: "kbd \<Rightarrow> u8 \<Rightarrow> char option" where
  "key_char k code = (if SHIFT_HELD k then table_get MAP_SHIFT code else table_get MAP_NORMAL code)"

lemma press_code: "sc < 0x80 \<Longrightarrow> sc AND 0x7F = sc" "sc < 0x80 \<Longrightarrow> sc AND 0x80 = (0 :: u8)"
proof -
  assume "sc < 0x80"
  then have small: "take_bit 7 sc = sc"
    by (intro word_unat_eq_iff [THEN iffD2])
      (simp add: unsigned_take_bit_eq word_less_nat_alt take_bit_nat_eq_self_iff)
  then show "sc AND 0x7F = sc" by (simp add: take_bit_eq_mask mask_numeral)
  then have "sc AND 0x80 = (sc AND 0x7F) AND 0x80" by simp
  also have "\<dots> = 0" by (simp add: and.assoc)
  finally show "sc AND 0x80 = 0" .
qed

lemma handle_scancode_other:
  assumes "\<not> special_code (sc AND 0x7F)" "sc \<noteq> 0xE0"
  shows "handle_scancode sc (k, c) =
    (None, if sc AND 0x80 \<noteq> 0 then (k, c)
           else case key_char k (sc AND 0x7F) of Some ch \<Rightarrow> echo ch (k, c) | None \<Rightarrow> (k, c))"
  using assms by (simp add: handle_scancode_def special_code_def key_char_def Let_def split: option.splits)

lemma set_contents_push: "kbd_ok k \<Longrightarrow> set (contents (kbuf_push b k)) \<subseteq> insert b (set (contents k))"
  by (auto simp: contents_push)

lemma tables_without_c_x:
  "list_all (\<lambda>i. i = 0x2D \<or> i = 0x2E \<or>
     (\<forall>ch \<in> set_option (MAP_NORMAL ! i) \<union> set_option (MAP_SHIFT ! i). ch \<notin> set ''cCxX'')) [0..<0x3A]"
  by code_simp

definition never_typed :: "u8 set" where
  "never_typed = {99, 67, 120, 88}"

lemma table_get_never_typed:
  assumes "\<not> special_code code" and "table_get MAP_NORMAL code = Some ch \<or> table_get MAP_SHIFT code = Some ch"
  shows "of_char ch \<notin> never_typed"
proof -
  have len: "length MAP_NORMAL = 0x3A" "length MAP_SHIFT = 0x3A" by (simp_all add: MAP_NORMAL_def MAP_SHIFT_def)
  have i: "unat code < 0x3A" "ch \<in> set_option (MAP_NORMAL ! unat code) \<union> set_option (MAP_SHIFT ! unat code)"
    using assms(2) by (auto simp: table_get_def len split: if_splits)
  have "code \<noteq> 0x2D" "code \<noteq> 0x2E" using assms(1) by (auto simp: special_code_def)
  then have "unat code \<noteq> 0x2D" "unat code \<noteq> 0x2E" by (auto simp: word_unat_eq_iff)
  with i tables_without_c_x have ch: "ch \<notin> set ''cCxX''" unfolding list_all_iff by fastforce
  have "(of_char (CHR ''c'') :: u8) = 99" "(of_char (CHR ''C'') :: u8) = 67"
    "(of_char (CHR ''x'') :: u8) = 120" "(of_char (CHR ''X'') :: u8) = 88" by simp_all
  with ch show ?thesis by (auto simp: never_typed_def simp flip: of_char_u8_eq_iff)
qed

lemma kbd_ok_held [simp]:
  "kbd_ok (k\<lparr>SHIFT_HELD := b\<rparr>) = kbd_ok k" "contents (k\<lparr>SHIFT_HELD := b\<rparr>) = contents k"
  "kbd_ok (k\<lparr>CTRL_HELD := b\<rparr>) = kbd_ok k" "contents (k\<lparr>CTRL_HELD := b\<rparr>) = contents k"
  by (simp_all add: kbd_ok_def contents_def pending_def)

lemma kbuf_push_held [simp]: "CTRL_HELD (kbuf_push b k) = CTRL_HELD k" "SHIFT_HELD (kbuf_push b k) = SHIFT_HELD k"
  by (simp_all add: kbuf_push_def Let_def)

definition untyped :: "kbd \<Rightarrow> bool" where
  "untyped k \<longleftrightarrow> kbd_ok k \<and> set (contents k) \<inter> never_typed = {}"

lemma untyped_push: "untyped k \<Longrightarrow> b \<notin> never_typed \<Longrightarrow> untyped (kbuf_push b k)"
  using set_contents_push [of k b] by (auto simp: untyped_def kbd_ok_push)

lemma untyped_handle:
  assumes "untyped k"
  shows "untyped (fst (snd (handle_scancode sc (k, c))))"
proof (cases "special_code (sc AND 0x7F) \<or> sc = 0xE0")
  case True
  have keys: "(8::u8) \<notin> never_typed" "(32::u8) \<notin> never_typed" "(10::u8) \<notin> never_typed"
    by (auto simp: never_typed_def)
  have "untyped ((kbuf_push 32 ^^ 4) k)"
    using keys(2) assms by (simp add: numeral_eq_Suc untyped_push)
  with True keys assms show ?thesis
    by (auto simp: handle_scancode_def special_code_def Let_def untyped_push) (simp_all add: untyped_def)
next
  case False
  then have "handle_scancode sc (k, c) =
    (None, if sc AND 0x80 \<noteq> 0 then (k, c)
           else case key_char k (sc AND 0x7F) of Some ch \<Rightarrow> echo ch (k, c) | None \<Rightarrow> (k, c))"
    by (simp add: handle_scancode_other)
  moreover have "of_char ch \<notin> never_typed" if "key_char k (sc AND 0x7F) = Some ch" for ch
    using table_get_never_typed [of "sc AND 0x7F" ch] False that by (auto simp: key_char_def split: if_splits)
  ultimately show ?thesis using assms by (auto simp: echo_def untyped_push split: option.splits)
qed

lemma untyped_run: "untyped (fst st) \<Longrightarrow> untyped (fst (kbd_run codes st))"
proof (induction codes arbitrary: st)
  case Nil
  then show ?case by (simp add: kbd_run_def)
next
  case (Cons sc codes)
  then show ?case using untyped_handle [of "fst st" sc "snd st"] by (simp add: kbd_run_def)
qed

text \<open>Which modifier state a sequence of scancodes leaves: the last press or release of the key.\<close>

fun ctrl_after :: "bool \<Rightarrow> u8 list \<Rightarrow> bool" where
  "ctrl_after h [] = h"
| "ctrl_after h (sc # codes) = ctrl_after (if sc = 0x1D then True else if sc = 0x9D then False else h) codes"

lemma scancode_ctrl_iff: "sc AND 0x7F = (0x1D :: u8) \<longleftrightarrow> sc = 0x1D \<or> sc = 0x9D"
  by (rule u8_exhaust) code_simp

lemma handle_ctrl: "CTRL_HELD (fst (snd (handle_scancode sc (k, c)))) = (if sc = 0x1D then True else if sc = 0x9D then False else CTRL_HELD k)"
proof (cases "sc AND 0x7F = 0x1D")
  case True
  then have "sc = 0x1D \<or> sc = 0x9D" by (simp add: scancode_ctrl_iff)
  then show ?thesis by (auto simp: handle_scancode_def Let_def)
next
  case False
  then have "sc \<noteq> 0x1D" "sc \<noteq> 0x9D" by auto
  with False show ?thesis
    by (auto simp: handle_scancode_def Let_def echo_def numeral_eq_Suc split: option.splits)
qed

lemma run_ctrl: "CTRL_HELD (fst (kbd_run codes st)) = ctrl_after (CTRL_HELD (fst st)) codes"
proof (induction codes arbitrary: st)
  case Nil
  then show ?case by (simp add: kbd_run_def)
next
  case (Cons sc codes)
  then show ?case using handle_ctrl [of sc "fst st" "snd st"] by (simp add: kbd_run_def)
qed

section \<open>Properties\<close>

text \<open>C10: with the interrupt handler pushing bytes between any two memory accesses of the reader, the
  bytes the shell has taken followed by those still in the ring are exactly the bytes the handler
  stored, in order: nothing is lost, repeated, reordered or overwritten before it is read.\<close>

theorem interrupted_reader_is_fifo:
  assumes "kbuf_reach s"
  shows "taken s @ contents (kst s) = accepted s \<and> length (contents (kst s)) \<le> 255"
  using kbuf_inv_reach [OF assms] kbuf.items_cap [of "kst s"] by (simp add: kbuf_inv_def)

theorem interrupted_reader_is_fifo_witness:
  "\<exists>s. kbuf_reach s \<and> reader_at s = RByte 0 65 \<and> taken s = [] \<and> accepted s = [65, 66] \<and>
     taken s @ contents (kst s) = [65, 66]"
proof -
  let ?s0 = "\<lparr>kst = kbd_static, reader_at = RIdle, taken = [], accepted = []\<rparr>"
  let ?k1 = "kbuf_push 65 kbd_static" and ?k2 = "kbuf_push 66 (kbuf_push 65 kbd_static)"
  let ?s1 = "?s0\<lparr>kst := ?k1, accepted := [65]\<rparr>"
  have 1: "kbuf_step ?s0 ?s1"
    using isr_push [of ?s0 65] by (simp add: kbd_static_def KBUF_CAP_def)
  let ?s2 = "?s1\<lparr>reader_at := RTail 0\<rparr>"
  have 2: "kbuf_step ?s1 ?s2"
    using load_tail [of ?s1] by (simp add: kbd_static_def)
  let ?s3 = "?s2\<lparr>reader_at := RBoth 0 1\<rparr>"
  have 3: "kbuf_step ?s2 ?s3"
    using load_head [of ?s2 0] by (simp add: kbd_static_def kbuf_push_def KBUF_CAP_def Let_def)
  let ?s4 = "?s3\<lparr>kst := ?k2, accepted := [65, 66]\<rparr>"
  have 4: "kbuf_step ?s3 ?s4"
    using isr_push [of ?s3 66] by (simp add: kbd_static_def kbuf_push_def KBUF_CAP_def Let_def)
  let ?s5 = "?s4\<lparr>reader_at := RByte 0 65\<rparr>"
  have 5: "kbuf_step ?s4 ?s5"
    using read_byte [of ?s4 0 1] by (simp add: kbd_static_def kbuf_push_def KBUF_CAP_def Let_def)
  have "kbuf_reach ?s5"
    by (rule kbuf_reach.step [OF kbuf_reach.step [OF kbuf_reach.step [OF kbuf_reach.step
          [OF kbuf_reach.step [OF kbuf_reach.start 1] 2] 3] 4] 5])
  with interrupted_reader_is_fifo [OF this] show ?thesis by (intro exI [of _ ?s5]) simp
qed

text \<open>over any sequence of pushes and polls the ring behaves as a queue of 255 bytes: what comes
  out, followed by what remains, is the initial content followed by the accepted bytes, and a byte is
  dropped only when 255 are waiting.\<close>

theorem kbuf_is_bounded_queue:
  assumes "kbd_ok k" and "queue_run kbuf_push poll_char kbuf_full ops k = (acc, out, k')"
  shows "out @ contents k' = contents k @ acc \<and> kbd_ok k' \<and> (kbuf_full k' \<longleftrightarrow> length (contents k') = 255)"
  using kbuf.run_fifo [OF assms] kbuf.full_iff by blast

theorem kbuf_is_bounded_queue_witness:
  "\<exists>k'. queue_run kbuf_push poll_char kbuf_full [Push 65, Push 66, Pop, Push 67, Pop] kbd_static =
     ([65, 66, 67], [65, 66], k') \<and> contents k' = [67]"
proof -
  obtain acc out k' where run:
    "queue_run kbuf_push poll_char kbuf_full [Push 65, Push 66, Pop, Push 67, Pop] kbd_static = (acc, out, k')"
    by (cases "queue_run kbuf_push poll_char kbuf_full [Push 65, Push 66, Pop, Push 67, Pop] kbd_static")
  have "acc = [65, 66, 67]" "out = [65, 66]"
    using run by (auto simp: kbd_static_def kbuf_push_def poll_char_def kbuf_full_def KBUF_CAP_def Let_def nth_list_update)
  with kbuf_is_bounded_queue [OF kbd_ok_static(1) run] run show ?thesis by (simp add: kbd_ok_static)
qed

text \<open>pressing an ordinary key puts the character of the active table both in the ring and on the
  console, and asks for no shutdown; releasing it does nothing.\<close>

theorem typed_key_reaches_shell:
  assumes "kbd_ok k" and "\<not> special_code sc" and "sc < 0x80"
    and "key_char k sc = Some ch" and "\<not> kbuf_full k"
  shows "\<exists>k'. handle_scancode sc (k, c) = (None, (k', vga_put_char (of_char ch) c)) \<and>
      contents k' = contents k @ [of_char ch] \<and> kbd_ok k' \<and>
    handle_scancode (sc OR 0x80) (k, c) = (None, (k, c))"
proof -
  have e0: "sc \<noteq> 0xE0" using assms(3) by auto
  have up: "sc < 0x80 \<longrightarrow> (sc OR 0x80) AND 0x80 \<noteq> 0 \<and> (sc OR 0x80) AND 0x7F = sc" 
    by (rule u8_exhaust [where x = sc]) code_simp
  have "handle_scancode (sc OR 0x80) (k, c) = (None, (k, c))"
  proof (cases "sc OR 0x80 = 0xE0")
    case True
    then show ?thesis by (simp add: handle_scancode_def)
  next
    case False
    then show ?thesis using handle_scancode_other [of "sc OR 0x80" k c] up assms(2,3) by simp
  qed
  moreover have "handle_scancode sc (k, c) = (None, echo ch (k, c))"
    using handle_scancode_other [of sc k c] press_code [OF assms(3)] assms(2,4) e0 by simp
  ultimately show ?thesis
    using assms(1,5) by (simp add: echo_def contents_push kbd_ok_push)
qed

theorem typed_key_reaches_shell_witness:
  "\<exists>k'. handle_scancode 0x1E (kbd_static, Console_new (\<lambda>_. 0)) =
     (None, (k', vga_put_char 97 (Console_new (\<lambda>_. 0)))) \<and> contents k' = [97]"
proof -
  have "\<not> special_code 0x1E" "(0x1E :: u8) < 0x80" "\<not> kbuf_full kbd_static"
    by (simp_all add: special_code_def kbuf_full_def kbd_static_def KBUF_CAP_def)
  moreover have "key_char kbd_static 0x1E = Some (CHR ''a'')" by code_simp
  ultimately show ?thesis
    using typed_key_reaches_shell [OF kbd_ok_static(1), of "0x1E" "CHR ''a''" "Console_new (\<lambda>_. 0)"]
    by (auto simp: kbd_ok_static)
qed

text \<open>a shutdown is requested exactly by a press of X or C while control is held, where control is
  held exactly when the last control event of the scancode sequence was a press.\<close>

theorem shutdown_combo_iff:
  "fst (handle_scancode sc (kbd_run codes (kbd_static, c))) =
     (if ctrl_after False codes \<and> sc = 0x2D then Some ''Ctrl+X''
      else if ctrl_after False codes \<and> sc = 0x2E then Some ''Ctrl+C'' else None)"
proof -
  obtain k d where st: "kbd_run codes (kbd_static, c) = (k, d)" by (cases "kbd_run codes (kbd_static, c)")
  have ctrl: "CTRL_HELD k = ctrl_after False codes"
    using run_ctrl [of codes "(kbd_static, c)"] st by (simp add: kbd_static_def)
  have x: "sc AND 0x7F = 0x2D \<and> sc AND 0x80 = 0 \<longleftrightarrow> sc = 0x2D"
    and y: "sc AND 0x7F = 0x2E \<and> sc AND 0x80 = 0 \<longleftrightarrow> sc = 0x2E" for sc :: u8
    by (rule u8_exhaust [where x = sc], code_simp)+
  have "(0xE0 :: u8) AND 0x7F = 0x60" by simp
  then show ?thesis
    using x [of sc] y [of sc] by (auto simp: st handle_scancode_def ctrl Let_def)
qed

text \<open>no sequence of scancodes ever puts one of the letters c, C, x or X in the ring: their table
  entries are shadowed by the control-key cases of the handler, so commands such as \<^verbatim>\<open>cat\<close>,
  \<^verbatim>\<open>hexdump\<close> or \<^verbatim>\<open>pci\<close> cannot be typed on the PS/2 keyboard.\<close>

theorem c_and_x_cannot_be_typed:
  "set (contents (fst (kbd_run codes (kbd_static, c)))) \<inter> {of_char (CHR ''c''), of_char (CHR ''C''), of_char (CHR ''x''), of_char (CHR ''X'')} = {}"
  using untyped_run [of "(kbd_static, c)" codes] kbd_ok_static
  by (auto simp: untyped_def never_typed_def)

end
