(* ===== verification/Shell.thy ===== *)
theory Shell
  imports Usb_Probe Ramfs Ai_Agent Keyboard
begin

text \<open>
  The shell (\<^verbatim>\<open>kernel/src/shell.rs\<close>): the line buffer filled from the keyboard ring, the command
  interpreter and its commands, over the state of the whole machine. Keyboard interrupts that arrive
  between two polls of the ring are delivered at the second poll, from a tape; \<^verbatim>\<open>hlt\<close> waits for an
  interrupt, so its effect is on the tapes only. A command returns, ends the machine through the exit
  port, or stops it (a panic, a deadlock, or a loop that never ends).
\<close>

section \<open>The machine\<close>

datatype task = AgentStep

record mach =
  dev :: xsys
  act :: kern
  agt :: agent
  tasks :: "task sched"

datatype fin = Exited mach | Halted mach | Failed stop

type_synonym 'a mm = "mach \<Rightarrow> fin + 'a \<times> mach"

definition retm :: "'a \<Rightarrow> 'a mm" where
  "retm a s = Inr (a, s)"

definition bindm :: "'a mm \<Rightarrow> ('a \<Rightarrow> 'b mm) \<Rightarrow> 'b mm" where
  "bindm f g s = (case f s of Inl e \<Rightarrow> Inl e | Inr (a, s') \<Rightarrow> g a s')"

definition thenm :: "'a mm \<Rightarrow> 'b mm \<Rightarrow> 'b mm" where
  "thenm f g = bindm f (\<lambda>_. g)"

definition getm :: "(mach \<Rightarrow> 'a) \<Rightarrow> 'a mm" where
  "getm f s = Inr (f s, s)"

definition updm :: "(mach \<Rightarrow> mach) \<Rightarrow> unit mm" where
  "updm f s = Inr ((), f s)"

definition lift_x :: "'a xm \<Rightarrow> 'a mm" where
  "lift_x f s = (case f (dev s) of Inl e \<Rightarrow> Inl (Failed e) | Inr (a, d) \<Rightarrow> Inr (a, s\<lparr>dev := d\<rparr>))"

definition or_stop :: "stop \<Rightarrow> 'a option \<Rightarrow> 'a mm" where
  "or_stop e r s = (case r of None \<Rightarrow> Inl (Failed e) | Some a \<Rightarrow> Inr (a, s))"

definition on_screen :: "(Console \<Rightarrow> Console) \<Rightarrow> unit mm" where
  "on_screen f = lift_x (upd (\<lambda>d. d\<lparr>con := f (con d)\<rparr>))"

definition out_str :: "bytes \<Rightarrow> unit mm" where
  "out_str bs = lift_x (log_str bs)"

definition out_fmt :: "bytes \<Rightarrow> unit mm" where
  "out_fmt bs = lift_x (log_fmt bs)"

definition exit_machine :: "u32 \<Rightarrow> 'a mm" where
  "exit_machine code s = Inl (Exited (s\<lparr>dev := (dev s)\<lparr>xio := outl 0xF4 (push_bit 1 code OR 1) (xio (dev s))\<rparr>\<rparr>))"

section \<open>Strings\<close>

text \<open>\<^verbatim>\<open>core::str::from_utf8\<close>: the well-formed byte sequences of UTF-8.\<close>

fun cont_bytes :: "u8 \<Rightarrow> u8 \<Rightarrow> nat \<Rightarrow> bytes \<Rightarrow> bytes option" where
  "cont_bytes lo hi 0 bs = Some bs"
| "cont_bytes lo hi (Suc n) (b # bs) = (if lo \<le> b \<and> b \<le> hi then cont_bytes 0x80 0xBF n bs else None)"
| "cont_bytes lo hi (Suc n) [] = None"

definition utf8_tail :: "u8 \<Rightarrow> bytes \<Rightarrow> bytes option" where
  "utf8_tail b bs =
     (if b < 0x80 then Some bs
      else if 0xC2 \<le> b \<and> b \<le> 0xDF then cont_bytes 0x80 0xBF 1 bs
      else if b = 0xE0 then cont_bytes 0xA0 0xBF 2 bs
      else if b = 0xED then cont_bytes 0x80 0x9F 2 bs
      else if 0xE1 \<le> b \<and> b \<le> 0xEF then cont_bytes 0x80 0xBF 2 bs
      else if b = 0xF0 then cont_bytes 0x90 0xBF 3 bs
      else if 0xF1 \<le> b \<and> b \<le> 0xF3 then cont_bytes 0x80 0xBF 3 bs
      else if b = 0xF4 then cont_bytes 0x80 0x8F 3 bs
      else None)"

lemma cont_bytes_length: "cont_bytes lo hi n bs = Some r \<Longrightarrow> length r + n = length bs"
  by (induction lo hi n bs rule: cont_bytes.induct) (auto split: if_splits)

lemma utf8_tail_length: "utf8_tail b bs = Some r \<Longrightarrow> length r \<le> length bs"
  unfolding utf8_tail_def by (auto split: if_splits dest!: cont_bytes_length)

function utf8_valid :: "bytes \<Rightarrow> bool" where
  "utf8_valid [] = True"
| "utf8_valid (b # bs) = (case utf8_tail b bs of None \<Rightarrow> False | Some r \<Rightarrow> utf8_valid r)"
  by pat_completeness auto
termination
  by (relation "measure length") (auto dest: utf8_tail_length)

text \<open>\<^verbatim>\<open>str::trim\<close> on ASCII text, which is all a line can hold.\<close>

definition ascii_space :: "u8 \<Rightarrow> bool" where
  "ascii_space b \<longleftrightarrow> 9 \<le> b \<and> b \<le> 13 \<or> b = 32"

definition trim :: "bytes \<Rightarrow> bytes" where
  "trim s = rev (dropWhile ascii_space (rev (dropWhile ascii_space s)))"

definition split1 :: "bytes \<Rightarrow> bytes \<times> bytes" where
  "split1 s =
     (let s = trim s
      in if s = [] then ([], [])
         else if 32 \<in> set s then (takeWhile (\<lambda>b. b \<noteq> 32) s, trim (tl (dropWhile (\<lambda>b. b \<noteq> 32) s)))
         else (s, []))"

fun parse_digits :: "bytes \<Rightarrow> u64 \<Rightarrow> u64 option" where
  "parse_digits [] v = Some v"
| "parse_digits (c # cs) v =
     (if c < 48 \<or> c > 57 then None
      else parse_digits cs (saturating_add (saturating_mul v 10) (ucast (c - 48))))"

definition parse_u64 :: "bytes \<Rightarrow> u64 option" where
  "parse_u64 s = parse_digits s 0"

section \<open>Output\<close>

definition shell_write_str :: "bytes \<Rightarrow> unit mm" where
  "shell_write_str s = thenm (out_str s) (on_screen (vga_write_str s))"

definition writeln :: "bytes \<Rightarrow> unit mm" where
  "writeln s = thenm (shell_write_str s) (shell_write_str CRLF)"

definition put_char :: "u8 \<Rightarrow> unit mm" where
  "put_char b = on_screen (vga_put_char (ucast b))"

text \<open>The number printers share the digit loop; an index below the buffer would panic.\<close>

definition print_num :: "u64 \<Rightarrow> unit mm" where
  "print_num n =
     (if n = 0 then put_char 48
      else bindm (or_stop Panicked (fill_digits n (replicate 20 0) 20)) (\<lambda>(buf, i).
             on_screen (fold (\<lambda>b. vga_put_char (ucast b)) (drop i buf))))"

definition writeln_num :: "string \<Rightarrow> u64 \<Rightarrow> unit mm" where
  "writeln_num prefix n =
     thenm (out_fmt (str_bytes prefix @ fmt_dec n @ CRLF))
    (thenm (on_screen (vga_write_str (str_bytes prefix)))
    (thenm (print_num n) (put_char 10)))"

definition dump_cell :: "bytes \<Rightarrow> nat \<Rightarrow> nat \<Rightarrow> unit mm" where
  "dump_cell bs off i = (if off + i < length bs then out_fmt (fmt_hex 2 (bs ! (off + i)) @ [32]) else out_str (str_bytes ''   ''))"

definition dump_char :: "bytes \<Rightarrow> nat \<Rightarrow> nat \<Rightarrow> unit mm" where
  "dump_char bs off i =
     (if off + i < length bs
      then (let ch = bs ! (off + i) in out_fmt [if 32 \<le> ch \<and> ch < 127 then ch else 46])
      else retm ())"

fun for_m :: "'x list \<Rightarrow> ('x \<Rightarrow> unit mm) \<Rightarrow> unit mm" where
  "for_m [] f = retm ()"
| "for_m (x # xs) f = thenm (f x) (for_m xs f)"

function hex_dump_from :: "bytes \<Rightarrow> nat \<Rightarrow> unit mm" where
  "hex_dump_from bs off =
     (if off < length bs
      then thenm (out_fmt (fmt_hex 8 (of_nat off :: usize) @ str_bytes ''  ''))
          (thenm (for_m [0..<16] (dump_cell bs off))
          (thenm (out_str (str_bytes '' |''))
          (thenm (for_m [0..<16] (dump_char bs off))
          (thenm (out_str (str_bytes ''|'' @ CRLF)) (hex_dump_from bs (off + 16))))))
      else retm ())"
  by pat_completeness auto
termination
  by (relation "measure (\<lambda>(bs, off). length bs - off)") auto

declare hex_dump_from.simps [simp del]

definition hex_dump :: "bytes \<Rightarrow> unit mm" where
  "hex_dump bs = hex_dump_from bs 0"

section \<open>Commands\<close>

definition initrd_now :: "mach \<Rightarrow> initrd" where
  "initrd_now s = \<lparr>INITRD_BASE = INITRD_BASE (link (agt s)), INITRD_LEN = INITRD_LEN (link (agt s))\<rparr>"

definition ls_entry :: "Entry \<Rightarrow> unit mm" where
  "ls_entry e =
     (if utf8_valid (entry_name e)
      then thenm (out_fmt (entry_name e @ [32] @ fmt_dec (entry_size e) @ CRLF))
          (thenm (on_screen (vga_write_str (entry_name e)))
          (thenm (put_char 32) (thenm (print_num (entry_size e)) (put_char 10))))
      else retm ())"

text \<open>The callback of the walk; once it has stopped the machine nothing runs any more.\<close>

definition ls_visit :: "Entry \<Rightarrow> fin + unit \<times> mach \<Rightarrow> fin + unit \<times> mach" where
  "ls_visit e st = (case st of Inl f \<Rightarrow> Inl f | Inr (_, s) \<Rightarrow> ls_entry e s)"

definition ls :: "unit mm" where
  "ls s = (case for_each (ram (dev s)) (initrd_now s) ls_visit (Inr ((), s)) of None \<Rightarrow> Inl (Failed Diverged) | Some r \<Rightarrow> r)"

definition find_file :: "bytes \<Rightarrow> (u64 \<times> usize) option mm" where
  "find_file path s = or_stop Diverged (ramfs_find (ram (dev s)) (initrd_now s) path) s"

definition cat :: "bytes \<Rightarrow> unit mm" where
  "cat arg =
     (if arg = [] then writeln (str_bytes ''usage: cat <path>'')
      else bindm (find_file arg) (\<lambda>r. case r of
             Some (p, sz) \<Rightarrow>
               bindm (getm (\<lambda>s. read_bytes (ram (dev s)) p (min (unat sz) 1024))) (\<lambda>bs.
                 if utf8_valid bs then shell_write_str bs else writeln (str_bytes ''(binary)''))
           | None \<Rightarrow> writeln (str_bytes ''not found'')))"

definition hexdump :: "bytes \<Rightarrow> unit mm" where
  "hexdump arg =
     (if arg = [] then writeln (str_bytes ''usage: hexdump <path> [len]'')
      else
        (let (path, rest) = split1 arg;
             dump_len = (if rest \<noteq> [] then (case parse_u64 rest of Some v \<Rightarrow> v | None \<Rightarrow> 256) else 256)
         in bindm (find_file path) (\<lambda>r. case r of
              Some (p, sz) \<Rightarrow>
                (let n = min sz dump_len
                 in bindm (getm (\<lambda>s. read_bytes (ram (dev s)) p (unat n))) hex_dump)
            | None \<Rightarrow> writeln (str_bytes ''not found''))))"

partial_function (option) sleep_loop :: "u64 \<Rightarrow> counters \<Rightarrow> counters option" where
  "sleep_loop target c = (let (t, c) = timer_ticks c in if t < target then sleep_loop target c else Some c)"

definition sleep_ms :: "u64 \<Rightarrow> counters \<Rightarrow> counters option" where
  "sleep_ms ms c = (let (start, c) = timer_ticks c in sleep_loop (saturating_add start ms) c)"

definition set_sens :: "counters \<Rightarrow> unit mm" where
  "set_sens c = updm (\<lambda>s. s\<lparr>act := (act s)\<lparr>sens := c\<rparr>\<rparr>)"

definition uptime :: "unit mm" where
  "uptime s = (let (t, c) = timer_ticks (sens (act s)) in thenm (set_sens c) (writeln_num ''ticks='' t) s)"

definition ai_status :: "unit mm" where
  "ai_status =
     bindm (getm (\<lambda>s. link (agt s))) (\<lambda>k.
     thenm (writeln_num ''ai_model_addr='' (AI_MODEL_ADDR k))
    (thenm (writeln_num ''ai_model_len='' (AI_MODEL_LEN k))
    (bindm (getm (\<lambda>s. is_system_ready (act s))) (\<lambda>ready.
     thenm (out_fmt (str_bytes ''system_ready='' @ [if ready then 49 else 48] @ CRLF))
    (thenm (on_screen (vga_write_line (str_bytes (if ready then ''system_ready=1'' else ''system_ready=0''))))
    (bindm (getm (\<lambda>s. get_quantum_us (act s))) (\<lambda>q. writeln_num ''quantum_us='' (ucast q))))))))"

definition help_text :: bytes where
  "help_text = str_bytes (''Commands: help, ls, cat <path>, hexdump <path> [len], mem, uptime, ai, '' @
     ''pci, reboot, sleep <ms>, yield'')"

definition run_command :: "cfg \<Rightarrow> bytes \<Rightarrow> bytes \<Rightarrow> unit mm" where
  "run_command cfg cmd arg =
     (if cmd = [] then retm ()
      else if cmd = str_bytes ''help'' then writeln help_text
      else if cmd = str_bytes ''ls'' then ls
      else if cmd = str_bytes ''cat'' then cat arg
      else if cmd = str_bytes ''hexdump'' then hexdump arg
      else if cmd = str_bytes ''mem'' then bindm (getm (\<lambda>s. free_kib (xpmm (dev s)))) (writeln_num ''free_kib='')
      else if cmd = str_bytes ''uptime'' then uptime
      else if cmd = str_bytes ''ai'' then ai_status
      else if cmd = str_bytes ''pci'' then lift_x (log_usb_controllers cfg)
      else if cmd = str_bytes ''reboot'' then exit_machine 0
      else if cmd = str_bytes ''sleep'' then
        (if arg = [] then writeln (str_bytes ''usage: sleep <ms>'')
         else case parse_u64 arg of
                None \<Rightarrow> retm ()
              | Some ms \<Rightarrow> bindm (\<lambda>s. or_stop Diverged (sleep_ms ms (sens (act s))) s) set_sens)
      else if cmd = str_bytes ''yield'' then retm ()
      else writeln (str_bytes ''unknown command''))"

definition prompt :: "unit mm" where
  "prompt = thenm (out_str (str_bytes ''$ '')) (on_screen (vga_write_str (str_bytes ''$ '')))"

definition shell_start :: "unit mm" where
  "shell_start = prompt"

section \<open>The line and the loop\<close>

record shell =
  mach_st :: mach
  keys :: kbd
  LINE :: bytes
  LEN :: nat
  key_tape :: "nat \<Rightarrow> u8 list"
  key_pos :: nat

definition on_mach :: "unit mm \<Rightarrow> shell \<Rightarrow> fin + shell" where
  "on_mach f s = (case f (mach_st s) of Inl e \<Rightarrow> Inl e | Inr (_, m) \<Rightarrow> Inr (s\<lparr>mach_st := m\<rparr>))"

definition execute_line :: "cfg \<Rightarrow> shell \<Rightarrow> fin + shell" where
  "execute_line cfg s = (let (cmd, arg) = split1 (take (LEN s) (LINE s)) in on_mach (run_command cfg cmd arg) s)"

definition clear_line :: "shell \<Rightarrow> shell" where
  "clear_line s = s\<lparr>LEN := 0\<rparr>"

definition on_char :: "cfg \<Rightarrow> u8 \<Rightarrow> shell \<Rightarrow> fin + shell" where
  "on_char cfg c s =
     (if c = 10 then (case execute_line cfg s of Inl e \<Rightarrow> Inl e | Inr s \<Rightarrow> on_mach prompt (clear_line s))
      else if c = 8 then Inr (if LEN s > 0 then s\<lparr>LEN := LEN s - 1\<rparr> else s)
      else if 32 \<le> c \<and> c < 127 then
        Inr (if LEN s < length (LINE s) then s\<lparr>LINE := (LINE s)[LEN s := c], LEN := LEN s + 1\<rparr> else s)
      else Inr s)"

text \<open>The keyboard interrupts that arrived since the last poll.\<close>

fun arrive :: "u8 list \<Rightarrow> shell \<Rightarrow> fin + shell" where
  "arrive [] s = Inr s"
| "arrive (sc # codes) s =
     (let (trigger, k, c) = handle_scancode sc (keys s, con (dev (mach_st s)));
          s = s\<lparr>keys := k, mach_st := (mach_st s)\<lparr>dev := (dev (mach_st s))\<lparr>con := c\<rparr>\<rparr>\<rparr>
      in case trigger of
           None \<Rightarrow> arrive codes s
         | Some combo \<Rightarrow> on_mach (thenm (out_fmt (str_bytes ''[KEYBOARD] '' @ str_bytes combo @ CRLF)) (exit_machine 0)) s)"

definition poll_key :: "shell \<Rightarrow> fin + u8 option \<times> shell" where
  "poll_key s =
     (case arrive (key_tape s (key_pos s)) (s\<lparr>key_pos := Suc (key_pos s)\<rparr>) of
        Inl e \<Rightarrow> Inl e
      | Inr s \<Rightarrow> (let (b, k) = poll_char (keys s) in Inr (b, s\<lparr>keys := k\<rparr>)))"

partial_function (option) shell_loop :: "cfg \<Rightarrow> shell \<Rightarrow> (fin + shell) option" where
  "shell_loop cfg s =
     (case poll_key s of
        Inl e \<Rightarrow> Some (Inl e)
      | Inr (None, s) \<Rightarrow> Some (Inr s)
      | Inr (Some c, s) \<Rightarrow> (case on_char cfg c s of Inl e \<Rightarrow> Some (Inl e) | Inr s \<Rightarrow> shell_loop cfg s))"

definition shell_step :: "cfg \<Rightarrow> shell \<Rightarrow> fin + shell" where
  "shell_step cfg s = (case shell_loop cfg s of None \<Rightarrow> Inl (Failed Diverged) | Some r \<Rightarrow> r)"

end
