(* ===== verification/Shell_Spec.thy ===== *)
theory Shell_Spec
  imports Shell
begin

text \<open>
  What the shell promises: the numbers and words it parses, the text every command answers with, when
  \<^verbatim>\<open>sleep\<close> ends, the line editor the keyboard loop implements, and the line buffer's invariant.
\<close>

section \<open>Parsing\<close>

lemma parse_digits_value:
  "parse_digits s v = (if \<forall>c \<in> set s. is_dec_digit c then Some (of_nat (min (2 ^ 64 - 1) (foldl digit_value (unat v) s))) else None)"
proof (induction s v rule: parse_digits.induct)
  case (1 v)
  have "unat v \<le> 2 ^ 64 - 1" using unsigned_less [of v, where 'a = nat] by simp
  then show ?case by (simp add: min_absorb2)
next
  case (2 c cs v)
  show ?case
  proof (cases "is_dec_digit c")
    case True
    then have c: "48 \<le> c" "c \<le> 57" by (simp_all add: is_dec_digit_def)
    then have d: "unat (ucast (c - 48) :: u64) = unat c - 48"
      by (simp add: unat_ucast_u8 unat_sub word_le_nat_alt)
    let ?v = "saturating_add (saturating_mul v 10) (ucast (c - 48)) :: u64"
    have v: "unat ?v = min (2 ^ 64 - 1) (digit_value (unat v) c)"
      by (simp add: unat_saturating_add unat_saturating_mul d digit_value_def)
    have mono: "foldl digit_value a cs \<le> foldl digit_value b cs" if "a \<le> b" for a b
      using that by (induction cs arbitrary: a b) (auto simp: digit_value_def)
    have ge: "a \<le> foldl digit_value a cs" for a
    proof (induction cs arbitrary: a)
      case (Cons d ds)
      have "a \<le> digit_value a d" by (simp add: digit_value_def)
      also have "\<dots> \<le> foldl digit_value (digit_value a d) ds" by (rule Cons.IH)
      finally show ?case by simp
    qed simp
    have "min (2 ^ 64 - 1) (foldl digit_value (unat ?v) cs) = min (2 ^ 64 - 1) (foldl digit_value (digit_value (unat v) c) cs)"
      using mono [of "2 ^ 64 - 1" "digit_value (unat v) c"] ge [of "2 ^ 64 - 1"] by (auto simp: v min_def)
    then show ?thesis using 2 True c by (auto simp: is_dec_digit_def not_less)
  next
    case False
    then show ?thesis by (auto simp: is_dec_digit_def not_le)
  qed
qed

lemma parse_u64_value:
  "parse_u64 s = (if \<forall>c \<in> set s. is_dec_digit c then Some (of_nat (min (2 ^ 64 - 1) (dec_value s))) else None)"
  by (simp add: parse_u64_def parse_digits_value dec_value_def)

lemma parse_u64_fmt_dec: "parse_u64 (fmt_dec n) = Some n"
proof -
  have "unat n \<le> 2 ^ 64 - 1" using unsigned_less [of n, where 'a = nat] by simp
  then show ?thesis using dec_digits_digits [of "unat n"] by (simp add: parse_u64_value fmt_dec_def dec_value_digits min_absorb2)
qed

lemma trim_id: "s = [] \<or> \<not> ascii_space (hd s) \<and> \<not> ascii_space (last s) \<Longrightarrow> trim s = s"
proof (cases "s = []")
  case False
  assume "s = [] \<or> \<not> ascii_space (hd s) \<and> \<not> ascii_space (last s)"
  with False have e: "\<not> ascii_space (hd s)" "\<not> ascii_space (last s)" by auto
  have "dropWhile ascii_space s = s" using e(1) False by (cases s) auto
  moreover have "dropWhile ascii_space (rev s) = rev s" using e(2) False by (cases s rule: rev_cases) auto
  ultimately show ?thesis by (simp add: trim_def)
qed (simp add: trim_def)

lemma dropWhile_blank: "(\<forall>b \<in> set a. P b) \<Longrightarrow> dropWhile P (a @ s) = dropWhile P s"
  by (induction a) auto

lemma trim_pad:
  assumes "\<forall>b \<in> set a \<union> set z. ascii_space b"
  shows "trim (a @ s @ z) = trim s"
proof (cases "\<forall>b \<in> set s. ascii_space b")
  case True
  then have "dropWhile ascii_space (a @ s @ z) = []" "dropWhile ascii_space s = []" using assms by (auto simp: dropWhile_eq_Nil_conv)
  then have "trim (a @ s @ z) = []" "trim s = []" by (simp_all only: trim_def rev.simps dropWhile.simps)
  then show ?thesis by simp
next
  case False
  then obtain x y b where s: "s = x @ b # y" "\<forall>c \<in> set x. ascii_space c" "\<not> ascii_space b"
    using split_list_first_prop [of s "\<lambda>b. \<not> ascii_space b"] by auto
  then have "dropWhile ascii_space (a @ s @ z) = b # y @ z" "dropWhile ascii_space s = b # y"
    using assms by (simp_all add: dropWhile_blank)
  then show ?thesis using assms dropWhile_blank [of "rev z" ascii_space "rev y @ [b]"] by (simp add: trim_def)
qed

definition blank :: "bytes \<Rightarrow> bool" where
  "blank s \<longleftrightarrow> (\<forall>b \<in> set s. b = 32)"

definition word :: "bytes \<Rightarrow> bool" where
  "word s \<longleftrightarrow> s \<noteq> [] \<and> (\<forall>b \<in> set s. \<not> ascii_space b)"

lemma blank_spaces: "blank s \<Longrightarrow> \<forall>b \<in> set s. ascii_space b"
  by (simp add: blank_def ascii_space_def)

lemma word_space: "word s \<Longrightarrow> 32 \<notin> set s"
  by (auto simp: word_def ascii_space_def)

lemma word_ends: "word s \<Longrightarrow> s \<noteq> [] \<and> \<not> ascii_space (hd s) \<and> \<not> ascii_space (last s)"
  by (simp add: word_def)

lemma trim_word: "word s \<Longrightarrow> trim s = s"
  using word_ends [of s] by (intro trim_id) blast

lemma split1_blank: "blank s \<Longrightarrow> split1 s = ([], [])"
  using blank_spaces [of s] trim_pad [of s "[]" "[]"] by (simp add: split1_def trim_def)

lemma split1_word: "blank a \<Longrightarrow> word w \<Longrightarrow> blank z \<Longrightarrow> split1 (a @ w @ z) = (w, [])"
proof -
  assume a: "blank a" "word w" "blank z"
  have "trim (a @ w @ z) = w" using trim_pad [of a z w] blank_spaces a trim_word by auto
  then show ?thesis using word_space [OF a(2)] word_ends [OF a(2)] by (simp add: split1_def)
qed

lemma split1_words:
  assumes "blank a" "word w" "blank z" and arg: "arg \<noteq> []" "\<not> ascii_space (hd arg)" "\<not> ascii_space (last arg)" and "blank b"
  shows "split1 (a @ w @ 32 # b @ arg @ z) = (w, arg)"
proof -
  let ?s = "w @ 32 # b @ arg"
  have "trim (a @ ?s @ z) = ?s"
    using trim_pad [of a z ?s] trim_id [of ?s] blank_spaces assms word_ends [OF assms(2)] by auto
  moreover have "takeWhile (\<lambda>b. b \<noteq> 32) ?s = w" "dropWhile (\<lambda>b. b \<noteq> 32) ?s = 32 # b @ arg"
    using word_space [OF assms(2)] by (simp_all add: takeWhile_append2 dropWhile_append2 takeWhile_append dropWhile_append)
  moreover have "trim (b @ arg) = arg"
    using trim_pad [of b "[]" arg] blank_spaces [OF assms(7)] trim_id [of arg] arg by simp
  ultimately show ?thesis by (simp add: split1_def)
qed

section \<open>Commands that only print\<close>

text \<open>\<open>talks f bs\<close>: from every state \<open>f\<close> returns, having changed nothing but the two consoles: COM1 has
  received \<open>bs\<close>, and the screen is still well formed and untouched outside its frame.\<close>

definition talked :: "bytes \<Rightarrow> xsys \<Rightarrow> xsys \<Rightarrow> bool" where
  "talked bs d d' \<longleftrightarrow> (\<exists>i c. d' = d\<lparr>xio := i, con := c\<rparr> \<and> INITIALIZED i = INITIALIZED (xio d) \<and>
     com1_sent i = com1_sent (xio d) @ (if INITIALIZED (xio d) then with_cr bs else []) \<and>
     (console_ok (con d) \<longrightarrow> console_ok c \<and> same_outside (con d) c))"

definition talks :: "unit mm \<Rightarrow> bytes \<Rightarrow> bool" where
  "talks f bs \<longleftrightarrow> (\<forall>s. \<exists>d. f s = Inr ((), s\<lparr>dev := d\<rparr>) \<and> talked bs (dev s) d)"

named_theorems talk_intros \<open>the text the printing operations send\<close>

lemma talked_refl: "talked [] d d"
  unfolding talked_def by (intro exI [of _ "xio d"] exI [of _ "con d"]) (simp add: with_cr_def same_outside_refl)

lemma talked_trans: "talked a d e \<Longrightarrow> talked b e g \<Longrightarrow> talked (a @ b) d g"
proof -
  assume "talked a d e" and "talked b e g"
  then obtain i c j k where i: "e = d\<lparr>xio := i, con := c\<rparr>" "INITIALIZED i = INITIALIZED (xio d)"
      "com1_sent i = com1_sent (xio d) @ (if INITIALIZED (xio d) then with_cr a else [])"
      "console_ok (con d) \<longrightarrow> console_ok c \<and> same_outside (con d) c"
    and j: "g = e\<lparr>xio := j, con := k\<rparr>" "INITIALIZED j = INITIALIZED (xio e)"
      "com1_sent j = com1_sent (xio e) @ (if INITIALIZED (xio e) then with_cr b else [])"
      "console_ok (con e) \<longrightarrow> console_ok k \<and> same_outside (con e) k"
    unfolding talked_def by blast
  have "console_ok k \<and> same_outside (con d) k" if "console_ok (con d)"
    using i(1,4) j(4) that same_outside_trans [of "con d" c k] by simp
  then show ?thesis unfolding talked_def using i j(1,2,3)
    by (intro exI [of _ j] exI [of _ k]) (simp add: with_cr_append)
qed

lemma talks_ret [talk_intros]: "talks (retm ()) []"
  unfolding talks_def retm_def by (intro allI, rule_tac x = "dev s" in exI) (simp add: talked_refl)

lemma talks_then [talk_intros]: "talks f a \<Longrightarrow> talks g b \<Longrightarrow> talks (thenm f g) (a @ b)"
proof -
  assume f: "talks f a" and g: "talks g b"
  show ?thesis unfolding talks_def
  proof
    fix s
    obtain d where d: "f s = Inr ((), s\<lparr>dev := d\<rparr>)" "talked a (dev s) d" using f unfolding talks_def by blast
    obtain e where e: "g (s\<lparr>dev := d\<rparr>) = Inr ((), s\<lparr>dev := e\<rparr>)" "talked b d e"
      using g [unfolded talks_def, rule_format, of "s\<lparr>dev := d\<rparr>"] by auto
    show "\<exists>d. thenm f g s = Inr ((), s\<lparr>dev := d\<rparr>) \<and> talked (a @ b) (dev s) d"
      using d e talked_trans by (auto simp: thenm_def bindm_def)
  qed
qed

lemma talks_out [talk_intros]: "talks (out_fmt bs) bs" "talks (out_str bs) bs"
proof -
  have "talked bs d (d\<lparr>xio := serial_write_fmt bs (xio d)\<rparr>)" for d
    unfolding talked_def by (intro exI [of _ "serial_write_fmt bs (xio d)"] exI [of _ "con d"]) (simp add: same_outside_refl)
  moreover have "talked bs d (d\<lparr>xio := serial_write_str bs (xio d)\<rparr>)" for d
    unfolding talked_def by (intro exI [of _ "serial_write_str bs (xio d)"] exI [of _ "con d"]) (simp add: same_outside_refl)
  ultimately show "talks (out_fmt bs) bs" "talks (out_str bs) bs"
    by (auto simp: talks_def out_fmt_def out_str_def lift_x_def log_fmt_def log_str_def upd_def)
qed

lemma talks_screen: "keeps console_ok same_outside f \<Longrightarrow> talks (on_screen f) []"
proof -
  assume f: "keeps console_ok same_outside f"
  have "talked [] d (d\<lparr>con := f (con d)\<rparr>)" for d
    unfolding talked_def using f by (intro exI [of _ "xio d"] exI [of _ "f (con d)"]) (auto simp: with_cr_def keeps_def)
  then show ?thesis by (auto simp: talks_def on_screen_def lift_x_def upd_def)
qed

lemma keeps_interface: "keeps console_ok same_outside (vga_write_str bs)" "keeps console_ok same_outside (vga_put_char c)"
  "keeps console_ok same_outside (vga_write_line bs)"
  using keeps_vga_exec [of "VWriteStr bs"] keeps_vga_exec [of "VPutChar c"] keeps_vga_exec [of "VWriteLine bs"]
  by (simp_all add: keeps_def)

lemma talks_vga [talk_intros]: "talks (on_screen (vga_write_str bs)) []" "talks (put_char b) []"
  "talks (on_screen (vga_write_line bs)) []"
  unfolding put_char_def by (rule talks_screen, rule keeps_interface)+

lemma talks_text: "talks f a \<Longrightarrow> a = b \<Longrightarrow> talks f b"
  by simp

lemma talks_write [talk_intros]: "talks (shell_write_str bs) bs" "talks (writeln bs) (bs @ CRLF)"
proof -
  have w: "talks (shell_write_str bs) bs" for bs
    unfolding shell_write_str_def by (rule talks_text, (rule talk_intros)+) simp
  then show "talks (shell_write_str bs) bs" "talks (writeln bs) (bs @ CRLF)"
    unfolding writeln_def by (auto intro: talks_then)
qed

lemma digits_filled: "n \<noteq> 0 \<Longrightarrow> \<exists>buf i. fill_digits n (replicate 20 0) 20 = Some (buf, i) \<and> drop i buf = fmt_dec n"
  using fill_digits_correct [of n 20 "replicate 20 0"] length_dec_u64 [of n]
  by (auto simp: fmt_dec_def word_neq_0_conv)

lemma talks_print_num [talk_intros]: "talks (print_num n) []"
proof (cases "n = 0")
  case True
  then show ?thesis by (simp add: print_num_def talk_intros)
next
  case False
  obtain buf i where f: "fill_digits n (replicate 20 0) 20 = Some (buf, i)" using digits_filled [OF False] by blast
  have "print_num n = on_screen (fold (\<lambda>b. vga_put_char (ucast b)) (drop i buf))"
    by (rule ext) (simp add: print_num_def False f or_stop_def bindm_def)
  then show ?thesis by (auto intro!: talks_screen console.keeps_fold keeps_interface)
qed

lemma talks_writeln_num [talk_intros]: "talks (writeln_num p n) (str_bytes p @ fmt_dec n @ CRLF)"
  unfolding writeln_num_def by (rule talks_text, (rule talk_intros)+) simp

lemma talks_for_m: "(\<And>x. x \<in> set xs \<Longrightarrow> talks (f x) (g x)) \<Longrightarrow> talks (for_m xs f) (concat (map g xs))"
  by (induction xs) (auto intro: talk_intros)

text \<open>The printer of numbers shows the decimal digits on the screen.\<close>

lemma print_num_digits: "print_num n = on_screen (fold (\<lambda>b. vga_put_char (ucast b)) (fmt_dec n))"
proof (cases "n = 0")
  case True
  then show ?thesis by (simp add: print_num_def put_char_def fmt_dec_def dec_digits_small)
next
  case False
  obtain buf i where "fill_digits n (replicate 20 0) 20 = Some (buf, i)" "drop i buf = fmt_dec n" using digits_filled [OF False] by blast
  then show ?thesis by (intro ext) (simp add: print_num_def False or_stop_def bindm_def)
qed

section \<open>What each command answers\<close>

definition dump_row :: "bytes \<Rightarrow> nat \<Rightarrow> bytes" where
  "dump_row bs k =
     (let row = take 16 (drop (16 * k) bs)
      in fmt_hex 8 (of_nat (16 * k) :: usize) @ str_bytes ''  '' @
         concat (map (\<lambda>b. fmt_hex 2 b @ [32]) row) @ replicate (3 * (16 - length row)) 32 @
         str_bytes '' |'' @ map (\<lambda>b. if 32 \<le> b \<and> b < 127 then b else 46) row @ str_bytes ''|'' @ CRLF)"

definition dump_text :: "bytes \<Rightarrow> bytes" where
  "dump_text bs = concat (map (dump_row bs) [0..<(length bs + 15) div 16])"

lemma concat_cells:
  "k \<le> n \<Longrightarrow> concat (map (\<lambda>i. if i < k then f i else p) [0..<n]) = concat (map f [0..<k]) @ concat (replicate (n - k) p)"
proof -
  assume "k \<le> n"
  then have "[0..<n] = [0..<k] @ [k..<n]" using upt_add_eq_append [of 0 k "n - k"] by simp
  moreover have "map (\<lambda>i. if i < k then f i else p) [k..<n] = replicate (n - k) p"
    by (rule nth_equalityI) simp_all
  moreover have "map (\<lambda>i. if i < k then f i else p) [0..<k] = map f [0..<k]" by simp
  ultimately show ?thesis by (simp only: map_append concat_append)
qed

lemma map_row: "map (\<lambda>i. h (bs ! (off + i))) [0..<min 16 (length bs - off)] = map h (take 16 (drop off bs))"
  by (rule nth_equalityI) auto

lemma replicate_blanks: "concat (replicate n (str_bytes ''   '')) = replicate (3 * n) 32"
  by (induction n) (simp_all add: str_bytes_def numeral_3_eq_3)

lemma talks_row:
  assumes g: "talks g t" and dvd: "16 dvd off"
  shows "talks (thenm (out_fmt (fmt_hex 8 (of_nat off :: usize) @ str_bytes ''  ''))
      (thenm (for_m [0..<16] (dump_cell bs off))
      (thenm (out_str (str_bytes '' |''))
      (thenm (for_m [0..<16] (dump_char bs off)) (thenm (out_str (str_bytes ''|'' @ CRLF)) g))))) (dump_row bs (off div 16) @ t)"
proof -
  let ?k = "min 16 (length bs - off)"
  have k: "off + i < length bs \<longleftrightarrow> i < ?k" if "i < 16" for i using that by auto
  have cell: "talks (dump_cell bs off i) (if i < ?k then fmt_hex 2 (bs ! (off + i)) @ [32] else str_bytes ''   '')" if "i < 16" for i
    using k [OF that] by (auto simp: dump_cell_def intro: talk_intros)
  have ch: "talks (dump_char bs off i)
      (if i < ?k then [if 32 \<le> bs ! (off + i) \<and> bs ! (off + i) < 127 then bs ! (off + i) else 46] else [])" if "i < 16" for i
    using k [OF that] talks_out(1) [of "[if 32 \<le> bs ! (off + i) \<and> bs ! (off + i) < 127 then bs ! (off + i) else 46]"]
    by (auto simp: dump_char_def Let_def intro: talks_ret)
  have off: "16 * (off div 16) = off" using dvd by simp
  have len: "16 - length (take 16 (drop off bs)) = 16 - ?k" by simp
  have cells: "concat (map (\<lambda>i. if i < ?k then fmt_hex 2 (bs ! (off + i)) @ [32] else str_bytes ''   '') [0..<16]) =
      concat (map (\<lambda>b. fmt_hex 2 b @ [32]) (take 16 (drop off bs))) @ replicate (3 * (16 - length (take 16 (drop off bs)))) 32"
    by (subst concat_cells) (simp_all only: min.cobounded1 map_row [of "\<lambda>b. fmt_hex 2 b @ [32]"] replicate_blanks len)
  have chars: "concat (map (\<lambda>i. if i < ?k then [if 32 \<le> bs ! (off + i) \<and> bs ! (off + i) < 127 then bs ! (off + i) else 46] else []) [0..<16]) =
      map (\<lambda>b. if 32 \<le> b \<and> b < 127 then b else 46) (take 16 (drop off bs))"
  proof (subst concat_cells)
    show "?k \<le> 16" by simp
    have "concat (map (\<lambda>i. [h (bs ! (off + i))]) [0..<?k]) = map h (take 16 (drop off bs))" for h :: "u8 \<Rightarrow> u8"
      using map_row [of h bs off] concat_map_singleton [of "\<lambda>i. h (bs ! (off + i))" "[0..<?k]"] by simp
    then show "concat (map (\<lambda>i. [if 32 \<le> bs ! (off + i) \<and> bs ! (off + i) < 127 then bs ! (off + i) else 46]) [0..<?k]) @
        concat (replicate (16 - ?k) []) = map (\<lambda>b. if 32 \<le> b \<and> b < 127 then b else 46) (take 16 (drop off bs))"
      by (simp add: concat_replicate_trivial)
  qed
  show ?thesis
    by (rule talks_text, (rule talks_then talks_out talks_for_m cell ch g; simp?)+)
      (simp only: dump_row_def Let_def off cells chars append.assoc)
qed

lemma talks_hex_dump_from:
  "16 dvd off \<Longrightarrow> talks (hex_dump_from bs off) (concat (map (dump_row bs) [off div 16..<(length bs + 15) div 16]))"
proof (induction bs off rule: hex_dump_from.induct)
  case (1 bs off)
  show ?case
  proof (cases "off < length bs")
    case True
    let ?n = "(length bs + 15) div 16"
    have n: "off div 16 < ?n" "(off + 16) div 16 = Suc (off div 16)" using True 1(2) by auto
    have rest: "talks (hex_dump_from bs (off + 16)) (concat (map (dump_row bs) [Suc (off div 16)..<?n]))"
      using "1.IH" [OF True] 1(2) n(2) by simp
    show ?thesis
      using talks_row [OF rest 1(2), of bs] True n(1) by (simp add: hex_dump_from.simps [of bs off] upt_conv_Cons)
  next
    case False
    then have "(length bs + 15) div 16 \<le> off div 16" using 1(2) by auto
    then show ?thesis using False by (simp add: hex_dump_from.simps [of bs off] talks_ret)
  qed
qed

lemma talks_hex_dump [talk_intros]: "talks (hex_dump bs) (dump_text bs)"
  using talks_hex_dump_from [of 0 bs] by (simp add: hex_dump_def dump_text_def)

lemma fold_ls_visit: "fold ls_visit es (Inr ((), s)) = for_m es ls_entry s"
proof (induction es arbitrary: s)
  case (Cons e es)
  have stopped: "fold ls_visit es (Inl f) = Inl f" for f by (induction es) (simp_all add: ls_visit_def)
  have "fold ls_visit (e # es) (Inr ((), s)) = fold ls_visit es (ls_entry e s)" by (simp add: ls_visit_def)
  also have "\<dots> = thenm (ls_entry e) (for_m es ls_entry) s"
    using Cons.IH stopped by (cases "ls_entry e s") (auto simp: thenm_def bindm_def)
  finally show ?case by simp
qed (simp add: retm_def)

text \<open>The text of each answer, as a function of the archive and the kernel's counters.\<close>

definition ls_line :: "Entry \<Rightarrow> bytes" where
  "ls_line e = (if utf8_valid (entry_name e) then entry_name e @ [32] @ fmt_dec (entry_size e) @ CRLF else [])"

definition files :: "mach \<Rightarrow> Entry list" where
  "files s = initrd_entries (ram (dev s)) (INITRD_BASE (initrd_now s)) (INITRD_LEN (initrd_now s))"

definition lookup :: "mach \<Rightarrow> bytes \<Rightarrow> Entry option" where
  "lookup s path = List.find (\<lambda>e. entry_name e = path) (files s)"

definition file_bytes :: "mach \<Rightarrow> Entry \<Rightarrow> nat \<Rightarrow> bytes" where
  "file_bytes s e n = read_bytes (ram (dev s)) (entry_data e) (min (unat (entry_size e)) n)"

definition cat_text :: "mach \<Rightarrow> bytes \<Rightarrow> bytes" where
  "cat_text s arg =
     (if arg = [] then str_bytes ''usage: cat <path>'' @ CRLF
      else case lookup s arg of
             None \<Rightarrow> str_bytes ''not found'' @ CRLF
           | Some e \<Rightarrow> if utf8_valid (file_bytes s e 1024) then file_bytes s e 1024 else str_bytes ''(binary)'' @ CRLF)"

definition hexdump_text :: "mach \<Rightarrow> bytes \<Rightarrow> bytes" where
  "hexdump_text s arg =
     (if arg = [] then str_bytes ''usage: hexdump <path> [len]'' @ CRLF
      else case lookup s (fst (split1 arg)) of
             None \<Rightarrow> str_bytes ''not found'' @ CRLF
           | Some e \<Rightarrow>
               dump_text (file_bytes s e (if snd (split1 arg) = [] then 256
                 else case parse_u64 (snd (split1 arg)) of None \<Rightarrow> 256 | Some n \<Rightarrow> unat n)))"

definition ai_text :: "mach \<Rightarrow> bytes" where
  "ai_text s =
     str_bytes ''ai_model_addr='' @ fmt_dec (AI_MODEL_ADDR (link (agt s))) @ CRLF @
     str_bytes ''ai_model_len='' @ fmt_dec (AI_MODEL_LEN (link (agt s))) @ CRLF @
     str_bytes ''system_ready='' @ [if SYSTEM_READY (act s) then 49 else 48] @ CRLF @
     str_bytes ''quantum_us='' @ fmt_dec (QUANTUM_US (act s)) @ CRLF"

lemma talks_at: "talks f bs \<Longrightarrow> \<exists>d. f s = Inr ((), s\<lparr>dev := d\<rparr>) \<and> talked bs (dev s) d"
  by (simp add: talks_def)

lemma talks_ls_entry: "talks (ls_entry e) (ls_line e)"
proof (cases "utf8_valid (entry_name e)")
  case True
  then show ?thesis unfolding ls_entry_def ls_line_def
    by (simp only: if_True) (rule talks_text, (rule talk_intros)+, simp)
qed (simp add: ls_entry_def ls_line_def talk_intros)

lemma ls_answer:
  "unat (INITRD_LEN (initrd_now s)) < 2 ^ 63 \<Longrightarrow> \<exists>d. ls s = Inr ((), s\<lparr>dev := d\<rparr>) \<and> talked (concat (map ls_line (files s))) (dev s) d"
  using talks_at [OF talks_for_m [of "files s" ls_entry ls_line], of s] talks_ls_entry
  by (simp add: ls_def for_each_entries fold_ls_visit files_def)

lemma find_file_lookup:
  "unat (INITRD_LEN (initrd_now s)) < 2 ^ 63 \<Longrightarrow>
   find_file p s = Inr (map_option (\<lambda>e. (entry_data e, entry_size e)) (lookup s p), s)"
  by (simp add: find_file_def or_stop_def ramfs_find_entries lookup_def files_def)

lemma cat_answer:
  assumes "unat (INITRD_LEN (initrd_now s)) < 2 ^ 63"
  shows "\<exists>d. cat arg s = Inr ((), s\<lparr>dev := d\<rparr>) \<and> talked (cat_text s arg) (dev s) d"
  using talks_at [OF talks_write(1)] talks_at [OF talks_write(2)]
  by (auto simp: cat_def cat_text_def bindm_def find_file_lookup [OF assms] getm_def file_bytes_def split: option.split)

lemma unat_min: "unat (min a b) = min (unat a) (unat b)"
  by (simp add: min_def word_le_nat_alt)

lemma hexdump_answer:
  assumes "unat (INITRD_LEN (initrd_now s)) < 2 ^ 63"
  shows "\<exists>d. hexdump arg s = Inr ((), s\<lparr>dev := d\<rparr>) \<and> talked (hexdump_text s arg) (dev s) d"
  using talks_at [OF talks_hex_dump] talks_at [OF talks_write(2)]
  by (auto simp: hexdump_def hexdump_text_def bindm_def find_file_lookup [OF assms] getm_def file_bytes_def unat_min Let_def
    split: option.split prod.split)

lemma ucast_fmt_dec: "fmt_dec (ucast (q :: u32) :: u64) = fmt_dec q"
  by (simp add: fmt_dec_def unat_ucast_u32)

lemma get_after: "talks f a \<Longrightarrow> (\<And>d. h (s\<lparr>dev := d\<rparr>) = h s) \<Longrightarrow> thenm f (bindm (getm h) g) s = thenm f (g (h s)) s"
  using talks_at [of f a s] by (auto simp: thenm_def bindm_def getm_def)

lemma ai_answer: "\<exists>d. ai_status s = Inr ((), s\<lparr>dev := d\<rparr>) \<and> talked (ai_text s) (dev s) d"
proof -
  let ?k = "link (agt s)" and ?r = "is_system_ready (act s)" and ?q = "ucast (get_quantum_us (act s)) :: u64"
  let ?a = "thenm (writeln_num ''ai_model_addr='' (AI_MODEL_ADDR ?k)) (writeln_num ''ai_model_len='' (AI_MODEL_LEN ?k))"
  let ?b = "thenm (out_fmt (str_bytes ''system_ready='' @ [if ?r then 49 else 48] @ CRLF))
     (on_screen (vga_write_line (str_bytes (if ?r then ''system_ready=1'' else ''system_ready=0''))))"
  have assoc: "thenm (thenm f g) h = thenm f (thenm g h)" for f :: "unit mm" and g :: "unit mm" and h :: "unit mm"
    by (rule ext) (simp add: thenm_def bindm_def split: sum.split)
  have a: "talks ?a (str_bytes ''ai_model_addr='' @ fmt_dec (AI_MODEL_ADDR ?k) @ CRLF @ str_bytes ''ai_model_len='' @ fmt_dec (AI_MODEL_LEN ?k) @ CRLF)"
    by (rule talks_text, (rule talk_intros)+) simp
  have ab: "talks (thenm ?a ?b) (str_bytes ''ai_model_addr='' @ fmt_dec (AI_MODEL_ADDR ?k) @ CRLF @ str_bytes ''ai_model_len='' @ fmt_dec (AI_MODEL_LEN ?k) @ CRLF
      @ str_bytes ''system_ready='' @ [if ?r then 49 else 48] @ CRLF)"
    by (rule talks_text, (rule a talk_intros)+) simp
  have "talks (thenm (thenm ?a ?b) (writeln_num ''quantum_us='' ?q)) (ai_text s)"
    by (rule talks_text, (rule ab talk_intros)+) (simp add: ai_text_def is_system_ready_def get_quantum_us_def ucast_fmt_dec)
  moreover have "ai_status s = thenm (thenm ?a ?b) (writeln_num ''quantum_us='' ?q) s"
  proof -
    have "ai_status s = thenm ?a (bindm (getm (\<lambda>s. is_system_ready (act s))) (\<lambda>ready.
       thenm (out_fmt (str_bytes ''system_ready='' @ [if ready then 49 else 48] @ CRLF))
      (thenm (on_screen (vga_write_line (str_bytes (if ready then ''system_ready=1'' else ''system_ready=0''))))
      (bindm (getm (\<lambda>s. get_quantum_us (act s))) (\<lambda>q. writeln_num ''quantum_us='' (ucast q)))))) s"
      unfolding ai_status_def assoc by (simp add: bindm_def getm_def)
    also have "\<dots> = thenm (thenm ?a ?b) (bindm (getm (\<lambda>s. get_quantum_us (act s))) (\<lambda>q. writeln_num ''quantum_us='' (ucast q))) s"
      by (subst get_after [OF a]) (simp_all add: assoc)
    also have "\<dots> = thenm (thenm ?a ?b) (writeln_num ''quantum_us='' ?q) s"
      by (subst get_after [OF ab]) simp_all
    finally show ?thesis .
  qed
  ultimately show ?thesis using talks_at by metis
qed

definition answer :: "mach \<Rightarrow> bytes \<Rightarrow> bytes \<Rightarrow> bytes" where
  "answer s cmd arg =
     (if cmd = [] \<or> cmd = str_bytes ''yield'' then []
      else if cmd = str_bytes ''help'' then help_text @ CRLF
      else if cmd = str_bytes ''ls'' then concat (map ls_line (files s))
      else if cmd = str_bytes ''cat'' then cat_text s arg
      else if cmd = str_bytes ''hexdump'' then hexdump_text s arg
      else if cmd = str_bytes ''mem'' then str_bytes ''free_kib='' @ fmt_dec (free_kib (xpmm (dev s))) @ CRLF
      else if cmd = str_bytes ''uptime'' then str_bytes ''ticks='' @ fmt_dec (fst (timer_ticks (sens (act s)))) @ CRLF
      else if cmd = str_bytes ''ai'' then ai_text s
      else str_bytes ''unknown command'' @ CRLF)"

lemma printed_at:
  "talks f bs \<Longrightarrow> \<exists>d. f s = Inr ((), s\<lparr>dev := d, act := (act s)\<lparr>sens := sens (act s)\<rparr>\<rparr>) \<and> talked bs (dev s) d"
  using talks_at [of f bs s] by auto

lemma command_cases:
  "run_command cfg [] arg = retm ()" "run_command cfg (str_bytes ''yield'') arg = retm ()"
  "run_command cfg (str_bytes ''help'') arg = writeln help_text" "run_command cfg (str_bytes ''ls'') arg = ls"
  "run_command cfg (str_bytes ''cat'') arg = cat arg" "run_command cfg (str_bytes ''hexdump'') arg = hexdump arg"
  "run_command cfg (str_bytes ''mem'') arg s = writeln_num ''free_kib='' (free_kib (xpmm (dev s))) s"
  "run_command cfg (str_bytes ''ai'') arg = ai_status"
  "answer s [] arg = []" "answer s (str_bytes ''yield'') arg = []" "answer s (str_bytes ''help'') arg = help_text @ CRLF"
  "answer s (str_bytes ''ls'') arg = concat (map ls_line (files s))" "answer s (str_bytes ''cat'') arg = cat_text s arg"
  "answer s (str_bytes ''hexdump'') arg = hexdump_text s arg" "answer s (str_bytes ''ai'') arg = ai_text s"
  "answer s (str_bytes ''mem'') arg = str_bytes ''free_kib='' @ fmt_dec (free_kib (xpmm (dev s))) @ CRLF"
  by (simp_all add: run_command_def answer_def str_bytes_def bindm_def getm_def)

lemma other_answer:
  assumes len: "unat (INITRD_LEN (initrd_now s)) < 2 ^ 63"
    and cmd: "cmd \<noteq> str_bytes ''pci''" "cmd \<noteq> str_bytes ''reboot''" "cmd \<noteq> str_bytes ''sleep''" "cmd \<noteq> str_bytes ''uptime''"
  shows "\<exists>d. run_command cfg cmd arg s = Inr ((), s\<lparr>dev := d\<rparr>) \<and> talked (answer s cmd arg) (dev s) d"
proof -
  consider "cmd = [] \<or> cmd = str_bytes ''yield''" | "cmd = str_bytes ''help''" | "cmd = str_bytes ''ls''" | "cmd = str_bytes ''cat''"
    | "cmd = str_bytes ''hexdump''" | "cmd = str_bytes ''mem''" | "cmd = str_bytes ''ai''"
    | (unknown) "run_command cfg cmd arg = writeln (str_bytes ''unknown command'')" "answer s cmd arg = str_bytes ''unknown command'' @ CRLF"
    using cmd unfolding run_command_def answer_def by argo
  then show ?thesis
  proof cases
    case 1
    then show ?thesis using talks_at [OF talks_ret, of s] by (auto simp only: command_cases)
  next
    case 2
    show ?thesis unfolding 2 command_cases by (rule talks_at [OF talks_write(2)])
  next
    case 3
    show ?thesis unfolding 3 command_cases by (rule ls_answer [OF len])
  next
    case 4
    show ?thesis unfolding 4 command_cases by (rule cat_answer [OF len])
  next
    case 5
    show ?thesis unfolding 5 command_cases by (rule hexdump_answer [OF len])
  next
    case 6
    show ?thesis unfolding 6 command_cases by (rule talks_at [OF talks_writeln_num])
  next
    case 7
    show ?thesis unfolding 7 command_cases by (rule ai_answer)
  next
    case unknown
    show ?thesis unfolding unknown by (rule talks_at [OF talks_write(2)])
  qed
qed

lemma mach_swap: "s\<lparr>act := a, dev := d\<rparr> = s\<lparr>dev := d, act := a\<rparr>"
  by simp

lemma command_answer:
  assumes len: "unat (INITRD_LEN (initrd_now s)) < 2 ^ 63"
    and cmd: "cmd \<noteq> str_bytes ''pci''" "cmd \<noteq> str_bytes ''reboot''" "cmd \<noteq> str_bytes ''sleep''"
  shows "\<exists>d. run_command cfg cmd arg s = Inr ((), s\<lparr>dev := d, act := (act s)\<lparr>sens :=
      (if cmd = str_bytes ''uptime'' then snd (timer_ticks (sens (act s))) else sens (act s))\<rparr>\<rparr>) \<and> talked (answer s cmd arg) (dev s) d"
proof (cases "cmd = str_bytes ''uptime''")
  case True
  let ?c = "snd (timer_ticks (sens (act s)))" and ?t = "fst (timer_ticks (sens (act s)))"
  obtain d where "writeln_num ''ticks='' ?t (s\<lparr>act := (act s)\<lparr>sens := ?c\<rparr>\<rparr>) = Inr ((), s\<lparr>act := (act s)\<lparr>sens := ?c\<rparr>, dev := d\<rparr>)"
    "talked (str_bytes ''ticks='' @ fmt_dec ?t @ CRLF) (dev s) d"
    using talks_at [OF talks_writeln_num, of "''ticks=''" ?t "s\<lparr>act := (act s)\<lparr>sens := ?c\<rparr>\<rparr>"] by auto
  moreover have "run_command cfg cmd arg = uptime" using True by (simp add: run_command_def str_bytes_def)
  moreover have "answer s cmd arg = str_bytes ''ticks='' @ fmt_dec ?t @ CRLF" using True by (simp add: answer_def str_bytes_def)
  ultimately show ?thesis using True
    by (intro exI [of _ d]) (simp add: uptime_def thenm_def bindm_def set_sens_def updm_def mach_swap case_prod_beta Let_def)
next
  case False
  have "\<exists>d. run_command cfg cmd arg s = Inr ((), s\<lparr>dev := d\<rparr>) \<and> talked (answer s cmd arg) (dev s) d"
    by (rule other_answer [OF len cmd False])
  then show ?thesis using False by auto
qed

section \<open>Sleeping\<close>

lemma sleep_loop_unfold:
  "sleep_loop target c = (if tick_tape c (tick_pos c) < target then sleep_loop target (c\<lparr>tick_pos := Suc (tick_pos c)\<rparr>)
     else Some (c\<lparr>tick_pos := Suc (tick_pos c)\<rparr>))"
  by (subst sleep_loop.simps) (simp add: timer_ticks_def)

lemma sleep_loop_reaches:
  "tick_pos c \<le> n \<Longrightarrow> target \<le> tick_tape c n \<Longrightarrow> (\<And>k. tick_pos c \<le> k \<Longrightarrow> k < n \<Longrightarrow> tick_tape c k < target) \<Longrightarrow>
   sleep_loop target c = Some (c\<lparr>tick_pos := Suc n\<rparr>)"
proof (induction "n - tick_pos c" arbitrary: c)
  case 0
  then show ?case by (subst sleep_loop_unfold) auto
next
  case (Suc m)
  then have "tick_tape c (tick_pos c) < target" by simp
  moreover have "sleep_loop target (c\<lparr>tick_pos := Suc (tick_pos c)\<rparr>) = Some (c\<lparr>tick_pos := Suc (tick_pos c)\<rparr>\<lparr>tick_pos := Suc n\<rparr>)"
    using Suc.hyps(2) Suc.prems by (intro Suc.hyps(1)) auto
  ultimately show ?case by (subst sleep_loop_unfold) simp
qed

lemma sleep_loop_returned:
  "sleep_loop target c = Some c' \<Longrightarrow> \<exists>n \<ge> tick_pos c. target \<le> tick_tape c n"
proof (induction rule: sleep_loop.raw_induct [rotated, consumes 1, case_names step])
  case (step loop target c c')
  show ?case
  proof (cases "tick_tape c (tick_pos c) < target")
    case True
    then have "loop target (c\<lparr>tick_pos := Suc (tick_pos c)\<rparr>) = Some c'" using step(2) by (simp add: timer_ticks_def)
    from step(1) [OF this] show ?thesis by (auto dest: Suc_leD)
  qed auto
qed

lemma sleep_ms_ends:
  fixes c :: counters and ms :: u64
  defines "deadline \<equiv> saturating_add (tick_tape c (tick_pos c)) ms"
  shows "(\<exists>c'. sleep_ms ms c = Some c') \<longleftrightarrow> (\<exists>n > tick_pos c. deadline \<le> tick_tape c n)"
    and "n > tick_pos c \<Longrightarrow> deadline \<le> tick_tape c n \<Longrightarrow> (\<And>k. tick_pos c < k \<Longrightarrow> k < n \<Longrightarrow> tick_tape c k < deadline) \<Longrightarrow>
      sleep_ms ms c = Some (c\<lparr>tick_pos := Suc n\<rparr>)"
proof -
  let ?c = "c\<lparr>tick_pos := Suc (tick_pos c)\<rparr>"
  have s: "sleep_ms ms c = sleep_loop deadline ?c" by (simp add: sleep_ms_def timer_ticks_def deadline_def)
  show least: "sleep_ms ms c = Some (c\<lparr>tick_pos := Suc n\<rparr>)" if "n > tick_pos c" "deadline \<le> tick_tape c n"
    "\<And>k. tick_pos c < k \<Longrightarrow> k < n \<Longrightarrow> tick_tape c k < deadline" for n
    using sleep_loop_reaches [of ?c n deadline] that by (simp add: s Suc_le_eq)
  show "(\<exists>c'. sleep_ms ms c = Some c') \<longleftrightarrow> (\<exists>n > tick_pos c. deadline \<le> tick_tape c n)"
  proof
    assume "\<exists>c'. sleep_ms ms c = Some c'"
    then show "\<exists>n > tick_pos c. deadline \<le> tick_tape c n" using sleep_loop_returned [of deadline ?c] by (auto simp: s Suc_le_eq)
  next
    let ?P = "\<lambda>n. n > tick_pos c \<and> deadline \<le> tick_tape c n"
    assume "\<exists>n > tick_pos c. deadline \<le> tick_tape c n"
    then have "\<exists>n. ?P n" by simp
    from LeastI_ex [OF this] have "?P (LEAST n. ?P n)" .
    moreover have "tick_tape c k < deadline" if "tick_pos c < k" "k < (LEAST n. ?P n)" for k
      using not_less_Least [OF that(2)] that(1) by (simp add: not_le)
    ultimately have "sleep_ms ms c = Some (c\<lparr>tick_pos := Suc (LEAST n. ?P n)\<rparr>)" by (intro least) simp_all
    then show "\<exists>c'. sleep_ms ms c = Some c'" by (rule exI)
  qed
qed

section \<open>The line editor\<close>

text \<open>The abstract editor: a backspace removes the last character, a printable character is appended
  while there is room, and a line feed hands the line over.\<close>

definition printable :: "u8 \<Rightarrow> bool" where
  "printable c \<longleftrightarrow> 32 \<le> c \<and> c < 127"

definition edit :: "bytes \<Rightarrow> u8 \<Rightarrow> bytes" where
  "edit l c = (if c = 8 then butlast l else if printable c \<and> length l < 256 then l @ [c] else l)"

fun typed_lines :: "bytes \<Rightarrow> bytes \<Rightarrow> bytes list \<times> bytes" where
  "typed_lines l [] = ([], l)"
| "typed_lines l (c # cs) =
     (if c = 10 then (let (lines, r) = typed_lines [] cs in (l # lines, r)) else typed_lines (edit l c) cs)"

fun run_lines :: "cfg \<Rightarrow> bytes list \<Rightarrow> unit mm" where
  "run_lines cfg [] = retm ()"
| "run_lines cfg (l # lines) = thenm (case split1 l of (cmd, arg) \<Rightarrow> run_command cfg cmd arg) (thenm prompt (run_lines cfg lines))"

definition the_line :: "shell \<Rightarrow> bytes" where
  "the_line s = take (LEN s) (LINE s)"

definition line_ok :: "shell \<Rightarrow> bool" where
  "line_ok s \<longleftrightarrow> length (LINE s) = 256 \<and> LEN s \<le> 256 \<and> (\<forall>c \<in> set (the_line s). printable c)"

lemma length_the_line: "line_ok s \<Longrightarrow> length (the_line s) = LEN s"
  by (simp add: the_line_def line_ok_def)

lemma line_ok_frame [simp]:
  "line_ok (s\<lparr>mach_st := m\<rparr>) = line_ok s" "the_line (s\<lparr>mach_st := m\<rparr>) = the_line s"
  "line_ok (s\<lparr>keys := k\<rparr>) = line_ok s" "the_line (s\<lparr>keys := k\<rparr>) = the_line s"
  "line_ok (s\<lparr>key_pos := n\<rparr>) = line_ok s" "the_line (s\<lparr>key_pos := n\<rparr>) = the_line s"
  by (simp_all add: line_ok_def the_line_def)

lemma line_ok_clear: "line_ok s \<Longrightarrow> line_ok (clear_line s) \<and> the_line (clear_line s) = []"
  by (simp add: line_ok_def the_line_def clear_line_def)

lemma on_char_edits:
  assumes "line_ok s" "c \<noteq> 10"
  shows "\<exists>s'. on_char cfg c s = Inr s' \<and> line_ok s' \<and> the_line s' = edit (the_line s) c \<and>
    mach_st s' = mach_st s \<and> keys s' = keys s \<and> key_tape s' = key_tape s \<and> key_pos s' = key_pos s"
proof -
  have len: "length (LINE s) = 256" "LEN s \<le> 256" using assms(1) by (simp_all add: line_ok_def)
  have snoc: "take (Suc (LEN s)) ((LINE s)[LEN s := c]) = take (LEN s) (LINE s) @ [c]" if "LEN s < 256"
    using that len by (simp add: take_Suc_conv_app_nth)
  have drop: "take (LEN s - Suc 0) (LINE s) = butlast (take (LEN s) (LINE s))"
    using len by (simp add: butlast_take)
  have sub: "set (take (LEN s - Suc 0) (LINE s)) \<subseteq> set (take (LEN s) (LINE s))"
    by (rule set_take_subset_set_take) simp
  have pr: "\<forall>b \<in> set (take (LEN s) (LINE s)). printable b" using assms(1) by (simp add: line_ok_def the_line_def)
  consider "c = 8" | "c \<noteq> 8" "printable c" "LEN s < 256" | "c \<noteq> 8" "\<not> (printable c \<and> LEN s < 256)" by blast
  then show ?thesis
  proof cases
    case 1
    then show ?thesis
      using drop sub pr len by (cases "LEN s") (auto simp: on_char_def edit_def line_ok_def the_line_def)
  next
    case 2
    then have "on_char cfg c s = Inr (s\<lparr>LINE := (LINE s)[LEN s := c], LEN := LEN s + 1\<rparr>)"
      using assms(2) len by (simp add: on_char_def printable_def)
    with 2 show ?thesis using snoc pr len by (simp add: edit_def line_ok_def the_line_def)
  next
    case 3
    then have "on_char cfg c s = Inr s" using assms(2) len by (auto simp: on_char_def printable_def)
    with 3 show ?thesis using assms(1) length_the_line [OF assms(1)] by (simp add: edit_def)
  qed
qed

text \<open>One poll without new interrupts.\<close>

lemma poll_key_quiet:
  assumes "key_tape s (key_pos s) = []" "kbd_ok (keys s)"
  shows "case contents (keys s) of
      [] \<Rightarrow> poll_key s = Inr (None, s\<lparr>key_pos := Suc (key_pos s)\<rparr>)
    | c # cs \<Rightarrow> \<exists>k. poll_key s = Inr (Some c, s\<lparr>key_pos := Suc (key_pos s), keys := k\<rparr>) \<and> contents k = cs \<and> kbd_ok k"
  using kbuf.pop_items [OF assms(2)] assms(1)
  by (auto simp: poll_key_def split: list.split prod.split option.splits)

lemma shell_loop_unfold:
  "shell_loop cfg s =
     (case poll_key s of
        Inl e \<Rightarrow> Some (Inl e)
      | Inr (None, s) \<Rightarrow> Some (Inr s)
      | Inr (Some c, s) \<Rightarrow> (case on_char cfg c s of Inl e \<Rightarrow> Some (Inl e) | Inr s \<Rightarrow> shell_loop cfg s))"
  by (rule shell_loop.simps)

definition after_lines :: "bytes \<Rightarrow> fin + unit \<times> mach \<Rightarrow> (fin + shell) option \<Rightarrow> bool" where
  "after_lines rest outcome r \<longleftrightarrow>
     (case outcome of
        Inl e \<Rightarrow> r = Some (Inl e)
      | Inr (_, m) \<Rightarrow> \<exists>s'. r = Some (Inr s') \<and> mach_st s' = m \<and> the_line s' = rest \<and> line_ok s' \<and>
          kbd_ok (keys s') \<and> contents (keys s') = [])"

text \<open>A return key runs the command of the line and clears the line, as the editor's first line does.\<close>

lemma on_enter:
  "on_char cfg 10 s =
     (case run_lines cfg [the_line s] (mach_st s) of Inl e \<Rightarrow> Inl e | Inr (_, m) \<Rightarrow> Inr (clear_line (s\<lparr>mach_st := m\<rparr>)))"
  by (auto simp: on_char_def execute_line_def on_mach_def the_line_def thenm_def bindm_def retm_def clear_line_def
    split: sum.splits prod.splits)

lemma run_lines_Cons:
  "run_lines cfg (l # rest) m = (case run_lines cfg [l] m of Inl e \<Rightarrow> Inl e | Inr (_, m) \<Rightarrow> run_lines cfg rest m)"
  by (auto simp: thenm_def bindm_def retm_def split: sum.splits prod.splits)

lemma shell_loop_edits:
  assumes "line_ok s" "kbd_ok (keys s)" "\<And>n. key_tape s n = []" "contents (keys s) = cs"
  shows "after_lines (snd (typed_lines (the_line s) cs)) (run_lines cfg (fst (typed_lines (the_line s) cs)) (mach_st s)) (shell_loop cfg s)"
  using assms
proof (induction cs arbitrary: s)
  case Nil
  have "poll_key s = Inr (None, s\<lparr>key_pos := Suc (key_pos s)\<rparr>)"
    using poll_key_quiet [of s] Nil by simp
  then show ?case using Nil by (subst shell_loop_unfold) (simp add: after_lines_def retm_def)
next
  case (Cons c cs)
  obtain k where k: "poll_key s = Inr (Some c, s\<lparr>key_pos := Suc (key_pos s), keys := k\<rparr>)" "contents k = cs" "kbd_ok k"
    using poll_key_quiet [of s] Cons.prems by auto
  let ?s = "s\<lparr>key_pos := Suc (key_pos s), keys := k\<rparr>"
  have ok: "line_ok ?s" "the_line ?s = the_line s" using Cons.prems(1) by simp_all
  have loop: "shell_loop cfg s = (case on_char cfg c ?s of Inl e \<Rightarrow> Some (Inl e) | Inr s \<Rightarrow> shell_loop cfg s)"
    by (subst shell_loop_unfold) (simp add: k(1))
  show ?case
  proof (cases "c = 10")
    case False
    obtain s' where s': "on_char cfg c ?s = Inr s'" "line_ok s'" "the_line s' = edit (the_line s) c" "mach_st s' = mach_st s"
      "keys s' = k" "key_tape s' = key_tape s"
      using on_char_edits [OF ok(1) False] ok(2) by auto
    have "after_lines (snd (typed_lines (the_line s') cs)) (run_lines cfg (fst (typed_lines (the_line s') cs)) (mach_st s')) (shell_loop cfg s')"
      by (rule Cons.IH) (use s' k Cons.prems(3) in simp_all)
    then show ?thesis using False s' loop by simp
  next
    case True
    obtain ls r where tl: "typed_lines [] cs = (ls, r)" by (cases "typed_lines [] cs")
    show ?thesis
    proof (cases "run_lines cfg [the_line s] (mach_st s)")
      case (Inl e)
      then show ?thesis using True tl loop ok(2) run_lines_Cons [of cfg "the_line s" ls] by (simp add: on_enter after_lines_def del: run_lines.simps)
    next
      case (Inr p)
      let ?t = "clear_line (?s\<lparr>mach_st := snd p\<rparr>)"
      have t: "the_line ?t = []" "mach_st ?t = snd p" "line_ok ?t"
        using line_ok_clear [of "?s\<lparr>mach_st := snd p\<rparr>"] ok(1) by (simp_all add: clear_line_def)
      have "after_lines (snd (typed_lines (the_line ?t) cs)) (run_lines cfg (fst (typed_lines (the_line ?t) cs)) (mach_st ?t)) (shell_loop cfg ?t)"
        by (rule Cons.IH) (use k Cons.prems(3) t in \<open>simp_all add: clear_line_def\<close>)
      then show ?thesis using True tl loop ok(2) Inr t run_lines_Cons [of cfg "the_line s" ls]
        by (simp add: on_enter case_prod_beta del: run_lines.simps)
    qed
  qed
qed

section \<open>The shell under interrupts\<close>

definition shell_ok :: "shell \<Rightarrow> bool" where
  "shell_ok s \<longleftrightarrow> line_ok s \<and> kbd_ok (keys s)"

lemma kbd_ok_handle: "kbd_ok k \<Longrightarrow> kbd_ok (fst (snd (handle_scancode sc (k, c))))"
  by (auto simp: handle_scancode_def Let_def echo_def kbd_ok_push numeral_eq_Suc split: option.split)

lemma arrive_ok: "arrive codes s = Inr s' \<Longrightarrow> shell_ok s \<Longrightarrow> shell_ok s'"
proof (induction codes s rule: arrive.induct)
  case (2 sc codes s)
  obtain tr k c where h: "handle_scancode sc (keys s, con (dev (mach_st s))) = (tr, k, c)"
    by (cases "handle_scancode sc (keys s, con (dev (mach_st s)))")
  let ?s = "s\<lparr>keys := k, mach_st := (mach_st s)\<lparr>dev := (dev (mach_st s))\<lparr>con := c\<rparr>\<rparr>\<rparr>"
  have ok: "shell_ok ?s"
    using "2.prems"(2) kbd_ok_handle [of "keys s" sc "con (dev (mach_st s))"] h by (simp add: shell_ok_def)
  show ?case
  proof (cases tr)
    case None
    have "arrive codes ?s = Inr s'" using "2.prems"(1) None by (simp add: h)
    then show ?thesis by (rule "2.IH" [OF h [symmetric] refl refl refl None _ ok])
  next
    case (Some combo)
    have "on_mach (thenm (out_fmt (str_bytes ''[KEYBOARD] '' @ str_bytes combo @ CRLF)) (exit_machine 0)) ?s = Inr s'"
      using "2.prems"(1) Some by (simp add: h)
    then show ?thesis
      by (simp add: on_mach_def thenm_def bindm_def exit_machine_def out_fmt_def lift_x_def log_fmt_def upd_def)
  qed
qed simp

lemma on_mach_ok: "on_mach f s = Inr s' \<Longrightarrow> shell_ok s \<Longrightarrow> shell_ok s'"
  by (auto simp: on_mach_def shell_ok_def split: sum.splits)

lemma on_char_ok:
  assumes "on_char cfg c s = Inr s'" "shell_ok s"
  shows "shell_ok s'"
proof (cases "c = 10")
  case False
  then show ?thesis using on_char_edits [of s c cfg] assms by (auto simp: shell_ok_def)
next
  case True
  then obtain t where t: "execute_line cfg s = Inr t" "on_mach prompt (clear_line t) = Inr s'"
    using assms(1) by (auto simp: on_char_def split: sum.splits)
  have "shell_ok t" using t(1) on_mach_ok [OF _ assms(2)] by (auto simp: execute_line_def split: prod.splits)
  then have "shell_ok (clear_line t)" using line_ok_clear [of t] by (simp add: shell_ok_def clear_line_def)
  then show ?thesis by (rule on_mach_ok [OF t(2)])
qed

lemma poll_key_ok:
  assumes "poll_key s = Inr (b, s')" "shell_ok s"
  shows "shell_ok s' \<and> (b = None \<longrightarrow> contents (keys s') = [])"
proof -
  obtain t where t: "arrive (key_tape s (key_pos s)) (s\<lparr>key_pos := Suc (key_pos s)\<rparr>) = Inr t"
    "(case poll_char (keys t) of (b, k) \<Rightarrow> (b, t\<lparr>keys := k\<rparr>)) = (b, s')"
    using assms(1) by (auto simp: poll_key_def split: sum.splits prod.splits)
  have "shell_ok t" by (rule arrive_ok [OF t(1)]) (use assms(2) in \<open>simp add: shell_ok_def\<close>)
  then show ?thesis using t(2) kbuf.pop_items [of "keys t"] by (auto simp: shell_ok_def split: prod.splits option.splits)
qed

lemma shell_loop_ok:
  "shell_loop cfg s = Some r \<Longrightarrow> shell_ok s \<longrightarrow> (\<forall>s'. r = Inr s' \<longrightarrow> shell_ok s' \<and> contents (keys s') = [])"
proof (induction rule: shell_loop.raw_induct [rotated, consumes 1, case_names step])
  case (step loop cfg s r)
  show ?case
  proof (intro impI allI)
    fix s' assume ok: "shell_ok s" and r: "r = Inr s'"
    obtain b t where t: "poll_key s = Inr (b, t)" using step(2) r by (cases "poll_key s") auto
    note p = poll_key_ok [OF t ok]
    show "shell_ok s' \<and> contents (keys s') = []"
    proof (cases b)
      case None
      then show ?thesis using step(2) r t p by simp
    next
      case (Some c)
      then obtain u where u: "on_char cfg c t = Inr u" "loop cfg u = Some (Inr s')"
        using step(2) r t by (auto split: sum.splits)
      show ?thesis using step(1) [OF u(2)] on_char_ok [OF u(1)] p by blast
    qed
  qed
qed

text \<open>The letters that never reach the ring never reach a command.\<close>

lemma set_trim: "set (trim s) \<subseteq> set s"
  by (auto simp: trim_def dest!: set_dropWhileD)

lemma set_split1: "set (fst (split1 s)) \<subseteq> set s"
  using set_trim [of s] by (auto simp: split1_def Let_def dest!: set_takeWhileD)

lemma set_edit: "set (edit l c) \<subseteq> insert c (set l)"
  by (auto simp: edit_def dest: in_set_butlastD)

section \<open>Properties\<close>

definition example_mach :: mach where
  "example_mach = \<lparr>dev = (example_sys None)\<lparr>xio := (xio (example_sys None))\<lparr>INITIALIZED := True\<rparr>\<rparr>,
     act = kern_static (xio (example_sys None)) \<lparr>tick_tape = (\<lambda>n. of_nat n), tick_pos = 0, fault_tape = (\<lambda>_. 0), fault_pos = 0\<rparr>,
     agt = agent_static ai_link_static, tasks = sched_static\<rparr>"

definition example_cfg :: cfg where
  "example_cfg = (\<lambda>_. - 1)"

definition example_shell :: "bytes \<Rightarrow> shell" where
  "example_shell typed = \<lparr>mach_st = example_mach, keys = fold kbuf_push typed kbd_static, LINE = replicate 256 0, LEN = 0,
     key_tape = (\<lambda>_. []), key_pos = 0\<rparr>"

lemma example_keys: "length typed \<le> 255 \<Longrightarrow> kbd_ok (fold kbuf_push typed kbd_static) \<and> contents (fold kbuf_push typed kbd_static) = typed"
proof (induction typed rule: rev_induct)
  case Nil
  then show ?case by (simp add: kbd_ok_static)
next
  case (snoc b typed)
  let ?k = "fold kbuf_push typed kbd_static"
  have ok: "kbd_ok ?k" "contents ?k = typed" using snoc by simp_all
  then have "\<not> kbuf_full ?k" using kbuf.full_iff [OF ok(1)] snoc.prems by simp
  then show ?case using ok kbuf.push_good [OF ok(1)] kbuf.push_items [OF ok(1), of b] by simp
qed

lemma example_shell_ok: "length typed \<le> 255 \<Longrightarrow> shell_ok (example_shell typed) \<and> the_line (example_shell typed) = []"
  using example_keys [of typed] by (simp add: shell_ok_def line_ok_def the_line_def example_shell_def)

text \<open>C6: the shell implements the line editor. With the typed characters in the ring and no further
  interrupt, one call of \<^verbatim>\<open>shell::step\<close> runs exactly the commands of the lines the abstract editor
  hands over, each on the words of its line, in order and with a prompt after each, and leaves the
  ring empty and the unfinished line in the buffer; if one of the commands ends or stops the machine,
  so does the step, at that point.\<close>

theorem shell_step_refines_editor:
  assumes "shell_ok s" and "\<And>n. key_tape s n = []" and "typed_lines (the_line s) (contents (keys s)) = (lines, rest)"
  shows "case run_lines cfg lines (mach_st s) of
      Inl e \<Rightarrow> shell_step cfg s = Inl e
    | Inr (_, m) \<Rightarrow> \<exists>s'. shell_step cfg s = Inr s' \<and> mach_st s' = m \<and> the_line s' = rest \<and> shell_ok s' \<and> contents (keys s') = []"
proof -
  have "after_lines rest (run_lines cfg lines (mach_st s)) (shell_loop cfg s)"
    using shell_loop_edits [of s "contents (keys s)" cfg] assms by (simp add: shell_ok_def)
  then show ?thesis by (auto simp: after_lines_def shell_step_def shell_ok_def split: sum.splits)
qed

theorem shell_step_refines_editor_witness:
  "\<exists>s'. shell_step example_cfg (example_shell [97, 98, 8, 10, 99]) = Inr s' \<and> the_line s' = [99] \<and> contents (keys s') = []"
proof -
  let ?s = "example_shell [97, 98, 8, 10, 99]"
  have c: "contents (keys ?s) = [97, 98, 8, 10, 99]" using example_keys [of "[97, 98, 8, 10, 99]"] by (simp add: example_shell_def)
  have ok: "shell_ok ?s" "the_line ?s = []" using example_shell_ok [of "[97, 98, 8, 10, 99]"] by simp_all
  have tl: "typed_lines (the_line ?s) (contents (keys ?s)) = ([[97]], [99])"
    unfolding c ok by (simp add: edit_def printable_def)
  have quiet: "key_tape ?s n = []" for n by (simp add: example_shell_def)
  have sp: "split1 [97] = ([97], [])" by (simp add: split1_def trim_def ascii_space_def)
  have un: "run_command example_cfg [97] [] = writeln (str_bytes ''unknown command'')" by (simp add: run_command_def str_bytes_def)
  have pr: "talks prompt [36, 32]" unfolding prompt_def by (rule talks_text, (rule talk_intros)+) (simp add: str_bytes_def)
  have "talks (run_lines example_cfg [[97]]) ((str_bytes ''unknown command'' @ CRLF) @ [36, 32] @ [])"
    using talks_then [OF talks_write(2) talks_then [OF pr talks_ret]] by (simp add: sp un)
  from talks_at [OF this, of "mach_st ?s"] shell_step_refines_editor [OF ok(1) quiet tl, of example_cfg] show ?thesis by auto
qed

text \<open>C29: whatever keyboard interrupts arrive between the polls, the line buffer keeps its 256 bytes and
  its length stays within them, every character of the line is printable ASCII (so the unchecked
  conversion to a string in \<^verbatim>\<open>execute_line\<close> is sound), and the ring's indices stay in range; when a
  step returns the ring has been emptied.\<close>

theorem shell_buffer_stays_sound:
  assumes "shell_ok s" and "shell_step cfg s = Inr s'"
  shows "shell_ok s' \<and> contents (keys s') = [] \<and> list_all (\<lambda>c. 32 \<le> c \<and> c < 127) (take (LEN s') (LINE s')) \<and> LEN s' \<le> length (LINE s')"
proof -
  have "shell_loop cfg s = Some (Inr s')" using assms(2) by (auto simp: shell_step_def split: option.splits)
  from shell_loop_ok [OF this] assms(1) have "shell_ok s' \<and> contents (keys s') = []" by blast
  then show ?thesis by (auto simp: shell_ok_def line_ok_def the_line_def printable_def list_all_iff)
qed

theorem shell_buffer_stays_sound_witness:
  "\<exists>s'. shell_step example_cfg ((example_shell [])\<lparr>key_tape := \<lambda>n. if n = 0 then [0x1E] else []\<rparr>) = Inr s' \<and> shell_ok s' \<and> LEN s' \<le> length (LINE s')"
proof -
  let ?s = "(example_shell [])\<lparr>key_tape := \<lambda>n. if n = 0 then [0x1E] else []\<rparr>"
  have ok: "shell_ok ?s" using example_shell_ok [of "[]"] by (simp add: shell_ok_def line_ok_def the_line_def)
  have a: "table_get MAP_NORMAL 0x1E = Some (CHR ''a'')" by code_simp
  have h: "handle_scancode 0x1E (kbd_static, c) = (None, kbuf_push 97 kbd_static, vga_put_char 97 c)" for c
    by (simp add: handle_scancode_def Let_def kbd_static_def echo_def a)
  have p: "poll_char (kbuf_push 97 kbd_static) = (Some 97, (kbuf_push 97 kbd_static)\<lparr>KTAIL := Suc 0\<rparr>)"
    "poll_char ((kbuf_push 97 kbd_static)\<lparr>KTAIL := Suc 0\<rparr>) = (None, (kbuf_push 97 kbd_static)\<lparr>KTAIL := Suc 0\<rparr>)"
    by (simp_all add: poll_char_def kbuf_push_def kbd_static_def KBUF_CAP_def Let_def)
  have "\<exists>s'. shell_loop example_cfg ?s = Some (Inr s')"
    by (subst shell_loop_unfold, simp add: poll_key_def example_shell_def on_char_def h p,
      subst shell_loop_unfold, simp add: poll_key_def h p)
  then obtain s' where "shell_step example_cfg ?s = Inr s'" by (auto simp: shell_step_def)
  with shell_buffer_stays_sound [OF ok this] show ?thesis by blast
qed

text \<open>C16: what each command does. For an image below 2 to the 63 bytes, every command but \<^verbatim>\<open>pci\<close>,
  \<^verbatim>\<open>reboot\<close> and \<^verbatim>\<open>sleep\<close> returns; COM1 receives exactly its answer (the archive's names and sizes for
  \<^verbatim>\<open>ls\<close>, the first 1024 bytes or the hex dump of the file looked up, the free memory, the ticks, the
  agent's state, a usage line, or \<^verbatim>\<open>unknown command\<close>), each line feed preceded by a carriage return;
  the screen stays well formed and is written nowhere outside its frame; and nothing else of the
  machine changes, except that \<^verbatim>\<open>uptime\<close> reads the tick counter once.\<close>

theorem command_answers_exactly:
  assumes "unat (INITRD_LEN (initrd_now s)) < 2 ^ 63"
    and "cmd \<noteq> str_bytes ''pci''" and "cmd \<noteq> str_bytes ''reboot''" and "cmd \<noteq> str_bytes ''sleep''"
  shows "\<exists>i c. run_command cfg cmd arg s =
      Inr ((), s\<lparr>dev := (dev s)\<lparr>xio := i, con := c\<rparr>, act := (act s)\<lparr>sens :=
        (if cmd = str_bytes ''uptime'' then snd (timer_ticks (sens (act s))) else sens (act s))\<rparr>\<rparr>) \<and>
    com1_sent i = com1_sent (xio (dev s)) @ (if INITIALIZED (xio (dev s)) then with_cr (answer s cmd arg) else []) \<and>
    (console_ok (con (dev s)) \<longrightarrow> console_ok c \<and> same_outside (con (dev s)) c)"
proof -
  obtain i c where "run_command cfg cmd arg s =
      Inr ((), s\<lparr>dev := (dev s)\<lparr>xio := i, con := c\<rparr>, act := (act s)\<lparr>sens :=
        (if cmd = str_bytes ''uptime'' then snd (timer_ticks (sens (act s))) else sens (act s))\<rparr>\<rparr>)"
    "com1_sent i = com1_sent (xio (dev s)) @ (if INITIALIZED (xio (dev s)) then with_cr (answer s cmd arg) else [])"
    "console_ok (con (dev s)) \<longrightarrow> console_ok c \<and> same_outside (con (dev s)) c"
    using command_answer [OF assms, of cfg arg] unfolding talked_def by blast
  then show ?thesis by blast
qed

theorem command_answers_exactly_witness:
  "\<exists>m. run_command example_cfg (str_bytes ''mem'') [] example_mach = Inr ((), m) \<and>
     com1_sent (xio (dev m)) = str_bytes ''free_kib=1024'' @ [13, 13, 10]"
proof -
  let ?s = example_mach
  have d: "dec_digits 1024 = [49, 48, 50, 52]" by (simp add: dec_digits.simps)
  have "answer ?s (str_bytes ''mem'') [] = str_bytes ''free_kib='' @ dec_digits 1024 @ CRLF"
    unfolding command_cases by (simp add: example_mach_def example_sys_def free_kib_def fmt_dec_def)
  then have a: "with_cr (answer ?s (str_bytes ''mem'') []) = str_bytes ''free_kib=1024'' @ [13, 13, 10]"
    by (simp add: d CRLF_def with_cr_def str_bytes_def)
  have "unat (INITRD_LEN (initrd_now ?s)) < 2 ^ 63"
    by (simp add: initrd_now_def example_mach_def agent_static_def ai_link_static_def)
  moreover have "str_bytes ''mem'' \<noteq> str_bytes ''pci''" "str_bytes ''mem'' \<noteq> str_bytes ''reboot''" "str_bytes ''mem'' \<noteq> str_bytes ''sleep''"
    by (simp_all add: str_bytes_def)
  moreover have "INITIALIZED (xio (dev ?s))" "com1_sent (xio (dev ?s)) = []"
    by (simp_all add: example_mach_def example_sys_def com1_sent_def port_bytes_def)
  ultimately show ?thesis
    using command_answers_exactly [of ?s "str_bytes ''mem''" example_cfg "[]"] a by auto
qed

text \<open>C38: the number parser accepts exactly the strings of decimal digits (the empty one counts as 0) and
  returns their value, capped at the largest 64-bit number; so it reads back every number that is
  printed.\<close>

theorem parse_u64_exact:
  "parse_u64 s = (if list_all is_dec_digit s then Some (of_nat (min (2 ^ 64 - 1) (dec_value s))) else None) \<and>
   parse_u64 (fmt_dec n) = Some n"
  using parse_u64_value [of s] parse_u64_fmt_dec [of n] by (simp add: list_all_iff)

text \<open>the line splitter recovers a command and its argument from any line that spells them: blanks
  before, between and after them are dropped, and blanks inside the argument are kept.\<close>

theorem split1_recovers_words:
  assumes "blank a" "word w" "blank z" "arg \<noteq> []" "\<not> ascii_space (hd arg)" "\<not> ascii_space (last arg)" "blank b"
  shows "split1 (a @ w @ 32 # b @ arg @ z) = (w, arg) \<and> split1 (a @ w @ z) = (w, []) \<and> split1 (a @ z) = ([], [])"
  using split1_words [OF assms] split1_word [OF assms(1,2,3)] split1_blank [of "a @ z"] assms(1,3) by (auto simp: blank_def)

theorem split1_recovers_words_witness:
  "split1 (str_bytes '' hexdump  a b 16 '') = (str_bytes ''hexdump'', str_bytes ''a b 16'')"
  using split1_recovers_words [of "[32]" "str_bytes ''hexdump''" "[32]" "str_bytes ''a b 16''" "[32]"]
  by (simp add: str_bytes_def blank_def word_def ascii_space_def)

text \<open>\<^verbatim>\<open>sleep\<close> returns exactly when some later read of the tick counter has reached the deadline, start
  plus duration capped at the largest 64-bit number, and it returns at the first such read.\<close>

theorem sleep_ends_at_deadline:
  fixes c :: counters and ms :: u64
  defines "deadline \<equiv> saturating_add (tick_tape c (tick_pos c)) ms"
  shows "((\<exists>c'. sleep_ms ms c = Some c') \<longleftrightarrow> (\<exists>n. tick_pos c < n \<and> deadline \<le> tick_tape c n)) \<and>
    (\<forall>n. tick_pos c < n \<and> deadline \<le> tick_tape c n \<and> (\<forall>k. tick_pos c < k \<and> k < n \<longrightarrow> tick_tape c k < deadline) \<longrightarrow>
      sleep_ms ms c = Some (c\<lparr>tick_pos := Suc n\<rparr>))"
  using sleep_ms_ends [where ms = ms and c = c] unfolding deadline_def by simp

theorem sleep_ends_at_deadline_witness:
  "sleep_ms 3 \<lparr>tick_tape = (\<lambda>n. of_nat (n div 2)), tick_pos = 4, fault_tape = (\<lambda>_. 0), fault_pos = 0\<rparr> =
     Some \<lparr>tick_tape = (\<lambda>n. of_nat (n div 2)), tick_pos = 11, fault_tape = (\<lambda>_. 0), fault_pos = 0\<rparr>"
proof -
  let ?c = "\<lparr>tick_tape = (\<lambda>n. of_nat (n div 2)), tick_pos = 4, fault_tape = (\<lambda>_. 0), fault_pos = 0\<rparr> :: counters"
  have d: "saturating_add (tick_tape ?c (tick_pos ?c)) 3 = (5 :: u64)" by (simp add: saturating_add_def)
  have "tick_tape ?c k < 5" if "4 < k" "k < 10" for k
  proof -
    have "k \<in> {5, 6, 7, 8, 9}" using that by auto
    then show ?thesis by auto
  qed
  moreover have "5 \<le> tick_tape ?c 10" by simp
  ultimately show ?thesis
    using sleep_ends_at_deadline [where c = ?c and ms = 3, unfolded d, THEN conjunct2, rule_format, of 10] by simp
qed

end
