(* ===== verification/Idt.thy ===== *)
theory Idt
  imports Keyboard Serial Counters
begin

text \<open>
  Interrupts (\<^verbatim>\<open>kernel/src/idt.rs\<close>, \<^verbatim>\<open>pic.rs\<close>, \<^verbatim>\<open>syscall.rs\<close>): the descriptor table as a map from
  its slots to gates, the handlers as functions on the state they share with the interrupted
  code, and the counters they advance. The tables of the processor and the interrupt controllers
  belong to the crates \<^verbatim>\<open>x86_64\<close> and \<^verbatim>\<open>pic8259\<close>: the calls of the latter form a trace, and the
  \<^verbatim>\<open>Debug\<close> text of a stack frame is an argument. A handler returns, halts the processor for ever,
  or spins on the console lock that the interrupted code holds.
\<close>

section \<open>Vectors\<close>

definition PIC_1_OFFSET :: u8 where "PIC_1_OFFSET = 32"
definition PIC_2_OFFSET :: u8 where "PIC_2_OFFSET = PIC_1_OFFSET + 8"

datatype InterruptIndex = Timer | Keyboard | Cascade | Serial2 | Serial1 | Lpt2 | Floppy | Lpt1
  | Rtc | Acpi | Available1 | Available2 | Mouse | Coprocessor | PrimaryAta | SecondaryAta

fun as_u8 :: "InterruptIndex \<Rightarrow> u8" where
  "as_u8 Timer = PIC_1_OFFSET"
| "as_u8 Keyboard = PIC_1_OFFSET + 1"
| "as_u8 Cascade = PIC_1_OFFSET + 2"
| "as_u8 Serial2 = PIC_1_OFFSET + 3"
| "as_u8 Serial1 = PIC_1_OFFSET + 4"
| "as_u8 Lpt2 = PIC_1_OFFSET + 5"
| "as_u8 Floppy = PIC_1_OFFSET + 6"
| "as_u8 Lpt1 = PIC_1_OFFSET + 7"
| "as_u8 Rtc = PIC_2_OFFSET"
| "as_u8 Acpi = PIC_2_OFFSET + 1"
| "as_u8 Available1 = PIC_2_OFFSET + 2"
| "as_u8 Available2 = PIC_2_OFFSET + 3"
| "as_u8 Mouse = PIC_2_OFFSET + 4"
| "as_u8 Coprocessor = PIC_2_OFFSET + 5"
| "as_u8 PrimaryAta = PIC_2_OFFSET + 6"
| "as_u8 SecondaryAta = PIC_2_OFFSET + 7"

definition as_usize :: "InterruptIndex \<Rightarrow> nat" where
  "as_usize i = unat (as_u8 i)"

definition SYSCALL_VECTOR :: nat where "SYSCALL_VECTOR = 0x80"

section \<open>State\<close>

datatype pic_call = PicInitialize | PicWriteMasks u8 u8 | PicEoi u8

text \<open>\<open>con_locked\<close> and \<open>ser_locked\<close> say whether the interrupted code holds the lock of the text console
  and of the serial port.\<close>

record cpu =
  IRQ_COUNT :: u64
  PAGE_FAULTS :: u64
  TIMER_TICKS :: u64
  cpu_io :: io
  cpu_kbd :: kbd
  cpu_con :: Console
  con_locked :: bool
  ser_locked :: bool
  pic_calls :: "pic_call list"

datatype handled = Returns cpu | Halts cpu | Spins | NoGate

definition pic_init :: "pic_call list \<Rightarrow> pic_call list" where
  "pic_init calls = calls @ [PicInitialize, PicWriteMasks 0xFC 0xFF]"

definition notify_end_of_interrupt :: "u8 \<Rightarrow> cpu \<Rightarrow> cpu" where
  "notify_end_of_interrupt irq s = s\<lparr>pic_calls := pic_calls s @ [PicEoi irq]\<rparr>"

section \<open>Handlers\<close>

text \<open>A call of the serial module from a handler, followed by the rest of the handler: once the port
  is initialised the call takes the lock, and waits for ever when the interrupted code holds it.\<close>

definition blocked :: "cpu \<Rightarrow> bool" where
  "blocked s \<longleftrightarrow> INITIALIZED (cpu_io s) \<and> ser_locked s"

definition cpu_fmt :: "bytes \<Rightarrow> (cpu \<Rightarrow> handled) \<Rightarrow> cpu \<Rightarrow> handled" where
  "cpu_fmt bs rest s = (if blocked s then Spins else rest (s\<lparr>cpu_io := serial_write_fmt bs (cpu_io s)\<rparr>))"

definition cpu_str :: "bytes \<Rightarrow> (cpu \<Rightarrow> handled) \<Rightarrow> cpu \<Rightarrow> handled" where
  "cpu_str bs rest s = (if blocked s then Spins else rest (s\<lparr>cpu_io := serial_write_str bs (cpu_io s)\<rparr>))"

definition exit_qemu :: "u32 \<Rightarrow> cpu \<Rightarrow> handled" where
  "exit_qemu code s = Halts (s\<lparr>cpu_io := outl 0xF4 (push_bit 1 code OR 1) (cpu_io s)\<rparr>)"

definition shutdown_via_keyboard :: "string \<Rightarrow> cpu \<Rightarrow> handled" where
  "shutdown_via_keyboard combo s = cpu_fmt (str_bytes ''[KEYBOARD] '' @ str_bytes combo @ CRLF) (exit_qemu 0) s"

definition debug_line :: "bytes \<Rightarrow> cpu \<Rightarrow> cpu" where
  "debug_line message s = s\<lparr>cpu_io := outb_all 0xE9 message (cpu_io s)\<rparr>"

definition report :: "string \<Rightarrow> bytes \<Rightarrow> u64 option \<Rightarrow> cpu \<Rightarrow> handled" where
  "report label stack error s =
     cpu_fmt (str_bytes ''[EXCEPTION] '' @ str_bytes label @ CRLF)
       (case error of
          None \<Rightarrow> cpu_fmt (stack @ CRLF) Halts
        | Some code \<Rightarrow> cpu_fmt (str_bytes ''  code: 0x'' @ fmt_hex 16 code @ CRLF) (cpu_fmt (stack @ CRLF) Halts)) s"

text \<open>\<open>text\<close> is the formatted message of the page fault: address, error code and bits.\<close>

definition page_fault :: "bytes \<Rightarrow> bytes \<Rightarrow> cpu \<Rightarrow> handled" where
  "page_fault text stack s = cpu_fmt text (cpu_fmt (stack @ CRLF) Halts) (s\<lparr>PAGE_FAULTS := PAGE_FAULTS s + 1\<rparr>)"

definition irq_handler :: "InterruptIndex \<Rightarrow> cpu \<Rightarrow> handled" where
  "irq_handler index s = Returns (notify_end_of_interrupt (as_u8 index) (s\<lparr>IRQ_COUNT := IRQ_COUNT s + 1\<rparr>))"

definition timer :: "cpu \<Rightarrow> handled" where
  "timer s =
     (let ticks = TIMER_TICKS s + 1;
          s = s\<lparr>TIMER_TICKS := TIMER_TICKS s + 1\<rparr>;
          s = s\<lparr>IRQ_COUNT := IRQ_COUNT s + 1\<rparr>;
          s = (if ticks mod 1000 = 0 then debug_line (str_bytes ''[irq] timer'' @ [10]) s else s)
      in Returns (notify_end_of_interrupt (as_u8 Timer) s))"

text \<open>The scancodes whose handling locks the console.\<close>

definition locks_console :: "u8 \<Rightarrow> kbd \<Rightarrow> bool" where
  "locks_console scancode k =
     (let code = scancode AND 0x7F
      in scancode \<noteq> 0xE0 \<and> scancode AND 0x80 = 0 \<and>
         (if code \<in> {0x2A, 0x36, 0x1D, 0x2D, 0x2E} then False
          else if code \<in> {0x0E, 0x0F, 0x1C} then True
          else (if SHIFT_HELD k then table_get MAP_SHIFT code else table_get MAP_NORMAL code) \<noteq> None))"

definition keyboard :: "u8 \<Rightarrow> cpu \<Rightarrow> handled" where
  "keyboard scancode s =
     (if con_locked s \<and> locks_console scancode (cpu_kbd s) then Spins
      else
        (let (trigger, k, c) = handle_scancode scancode (cpu_kbd s, cpu_con s);
             s = notify_end_of_interrupt (as_u8 Keyboard) (s\<lparr>cpu_kbd := k, cpu_con := c\<rparr>)
         in case trigger of None \<Rightarrow> Returns s | Some combo \<Rightarrow> shutdown_via_keyboard combo s))"

definition syscall_entry :: "u64 \<Rightarrow> cpu \<Rightarrow> handled" where
  "syscall_entry stack_pointer s =
     cpu_str (str_bytes ''[syscall] entry'' @ CRLF)
       (cpu_fmt (str_bytes ''  user_stack: '' @ fmt_alt_hex 18 stack_pointer @ CRLF) Returns) s"

definition syscall_init :: "io \<Rightarrow> io" where
  "syscall_init s = serial_write_str (str_bytes ''syscall: ready'' @ CRLF) s"

section \<open>The descriptor table\<close>

datatype exception = divide_error | debug | non_maskable_interrupt | breakpoint | overflow | bound_range_exceeded
  | invalid_opcode | device_not_available | double_fault | invalid_tss | segment_not_present | stack_segment_fault
  | general_protection_fault | page_fault_exception | x87_floating_point | alignment_check | machine_check
  | simd_floating_point | virtualization | cp_protection_exception | hv_injection_exception
  | vmm_communication_exception | security_exception

datatype slot = Field exception | Vector nat

datatype gate = Simple string | WithCode string | PageFaultGate | IrqGate InterruptIndex | TimerGate | KeyboardGate | SyscallGate

record entry =
  handler :: gate
  stack_index :: "u16 option"
  privilege_level :: nat

type_synonym idt = "slot \<rightharpoonup> entry"

definition set_handler_fn :: "slot \<Rightarrow> gate \<Rightarrow> idt \<Rightarrow> idt" where
  "set_handler_fn v g t = t(v \<mapsto> \<lparr>handler = g, stack_index = None, privilege_level = 0\<rparr>)"

definition DOUBLE_FAULT_IST_INDEX :: u16 where "DOUBLE_FAULT_IST_INDEX = 0"

definition exception_gates :: "(exception \<times> gate) list" where
  "exception_gates =
     [(divide_error, Simple ''Divide Error''), (debug, Simple ''Debug''), (non_maskable_interrupt, Simple ''Non Maskable Interrupt''),
      (breakpoint, Simple ''Breakpoint''), (overflow, Simple ''Overflow''), (bound_range_exceeded, Simple ''Bound Range Exceeded''),
      (invalid_opcode, Simple ''Invalid Opcode''), (device_not_available, Simple ''Device Not Available''),
      (double_fault, WithCode ''Double Fault''), (invalid_tss, WithCode ''Invalid TSS''), (segment_not_present, WithCode ''Segment Not Present''),
      (stack_segment_fault, WithCode ''Stack Segment Fault''), (general_protection_fault, WithCode ''General Protection Fault''),
      (page_fault_exception, PageFaultGate), (x87_floating_point, Simple ''x87 Floating Point''), (alignment_check, WithCode ''Alignment Check''),
      (machine_check, Simple ''Machine Check''), (simd_floating_point, Simple ''SIMD Floating Point''), (virtualization, Simple ''Virtualization''),
      (cp_protection_exception, WithCode ''Control Protection''), (hv_injection_exception, Simple ''Hypervisor Injection''),
      (vmm_communication_exception, WithCode ''VMM Communication''), (security_exception, WithCode ''Security'')]"

definition irq_gates :: "(InterruptIndex \<times> gate) list" where
  "irq_gates =
     [(Timer, TimerGate), (Keyboard, KeyboardGate), (Cascade, IrqGate Cascade), (Serial2, IrqGate Serial2), (Serial1, IrqGate Serial1),
      (Lpt2, IrqGate Lpt2), (Floppy, IrqGate Floppy), (Lpt1, IrqGate Lpt1), (Rtc, IrqGate Rtc), (Acpi, IrqGate Acpi),
      (Available1, IrqGate Available1), (Available2, IrqGate Available2), (Mouse, IrqGate Mouse), (Coprocessor, IrqGate Coprocessor),
      (PrimaryAta, IrqGate PrimaryAta), (SecondaryAta, IrqGate SecondaryAta)]"

definition configure_idt :: "nat \<Rightarrow> idt \<Rightarrow> idt" where
  "configure_idt user_level t =
     t(Vector SYSCALL_VECTOR \<mapsto> \<lparr>handler = SyscallGate, stack_index = None, privilege_level = user_level\<rparr>)"

definition idt_init :: idt where
  "idt_init =
     (let t = fold (\<lambda>(e, g). set_handler_fn (Field e) g) exception_gates Map.empty;
          t = t(Field double_fault \<mapsto> \<lparr>handler = WithCode ''Double Fault'', stack_index = Some DOUBLE_FAULT_IST_INDEX, privilege_level = 0\<rparr>);
          t = fold (\<lambda>(i, g). set_handler_fn (Vector (as_usize i)) g) irq_gates t
      in configure_idt 3 t)"

text \<open>What the processor passes to a handler.\<close>

record frame =
  frame_text :: bytes
  frame_sp :: u64
  error_code :: u64
  fault_text :: bytes
  port_0x60 :: u8

fun run_gate :: "gate \<Rightarrow> frame \<Rightarrow> cpu \<Rightarrow> handled" where
  "run_gate (Simple label) f s = report label (frame_text f) None s"
| "run_gate (WithCode label) f s = report label (frame_text f) (Some (error_code f)) s"
| "run_gate PageFaultGate f s = page_fault (fault_text f) (frame_text f) s"
| "run_gate (IrqGate i) f s = irq_handler i s"
| "run_gate TimerGate f s = timer s"
| "run_gate KeyboardGate f s = keyboard (port_0x60 f) s"
| "run_gate SyscallGate f s = syscall_entry (frame_sp f) s"

definition deliver :: "slot \<Rightarrow> frame \<Rightarrow> cpu \<Rightarrow> handled" where
  "deliver v f s = (case idt_init v of None \<Rightarrow> NoGate | Some e \<Rightarrow> run_gate (handler e) f s)"

definition irq_count :: "cpu \<Rightarrow> u64" where "irq_count s = IRQ_COUNT s"

text \<open>A sequence of interrupt requests, each delivered after the handler of the one before has returned.\<close>

fun run_irqs :: "(InterruptIndex \<times> frame) list \<Rightarrow> cpu \<Rightarrow> handled" where
  "run_irqs [] s = Returns s"
| "run_irqs ((i, f) # irqs) s = (case deliver (Vector (as_usize i)) f s of Returns s' \<Rightarrow> run_irqs irqs s' | r \<Rightarrow> r)"

section \<open>The table\<close>

lemma as_usize_inj: "as_usize i = as_usize j \<longleftrightarrow> i = j"
  by (cases i; cases j; simp add: as_usize_def PIC_2_OFFSET_def PIC_1_OFFSET_def)

lemma as_usize_range: "as_usize i \<in> {32..47}" "as_usize i \<noteq> SYSCALL_VECTOR"
  by (cases i; simp add: as_usize_def PIC_2_OFFSET_def PIC_1_OFFSET_def SYSCALL_VECTOR_def)+

fun irq_gate :: "InterruptIndex \<Rightarrow> gate" where
  "irq_gate Timer = TimerGate"
| "irq_gate Keyboard = KeyboardGate"
| "irq_gate i = IrqGate i"

lemma set_handlers_other: "v \<notin> set (map (g \<circ> fst) xs) \<Longrightarrow> fold (\<lambda>(i, h). set_handler_fn (g i) h) xs t v = t v"
  by (induction xs arbitrary: t) (auto simp: set_handler_fn_def)

lemma set_handlers:
  assumes "inj g" "distinct (map fst xs)" "(i, h) \<in> set xs"
  shows "fold (\<lambda>(i, h). set_handler_fn (g i) h) xs t (g i) = Some \<lparr>handler = h, stack_index = None, privilege_level = 0\<rparr>"
  using assms(2,3)
proof (induction xs arbitrary: t)
  case (Cons x xs)
  obtain j k where x: "x = (j, k)" by (cases x)
  show ?case
  proof (cases "(i, h) \<in> set xs")
    case True
    then show ?thesis using Cons x by simp
  next
    case False
    then have ik: "i = j" "h = k" using Cons.prems(2) x by auto
    then have "g i \<notin> set (map (g \<circ> fst) xs)" using Cons.prems(1) x assms(1) by (auto simp: inj_eq image_iff)
    then show ?thesis using x ik by (simp add: set_handlers_other) (simp add: set_handler_fn_def)
  qed
qed simp

lemma idt_irq: "idt_init (Vector (as_usize i)) = Some \<lparr>handler = irq_gate i, stack_index = None, privilege_level = 0\<rparr>"
proof -
  have inj: "inj (\<lambda>i. Vector (as_usize i))" by (simp add: inj_def as_usize_inj)
  have "distinct (map fst irq_gates)" by (simp add: irq_gates_def)
  moreover have "(i, irq_gate i) \<in> set irq_gates" by (cases i) (simp_all add: irq_gates_def)
  ultimately show ?thesis
    using set_handlers [OF inj] as_usize_range(2) [of i] by (simp add: idt_init_def configure_idt_def)
qed

lemma deliver_irq: "deliver (Vector (as_usize i)) f s = run_gate (irq_gate i) f s"
  by (simp add: deliver_def idt_irq)

section \<open>Interrupt requests\<close>

lemma non_keyboard_irq:
  "i \<noteq> Keyboard \<Longrightarrow> \<exists>s'. run_gate (irq_gate i) f s = Returns s' \<and> pic_calls s' = pic_calls s @ [PicEoi (as_u8 i)] \<and>
     IRQ_COUNT s' = IRQ_COUNT s + 1 \<and> TIMER_TICKS s' = TIMER_TICKS s + (if i = Timer then 1 else 0) \<and>
     PAGE_FAULTS s' = PAGE_FAULTS s \<and> cpu_kbd s' = cpu_kbd s \<and> cpu_con s' = cpu_con s \<and> com1_sent (cpu_io s') = com1_sent (cpu_io s)"
  by (cases i) (simp_all add: timer_def irq_handler_def notify_end_of_interrupt_def debug_line_def Let_def com1_sent_def
    COM1_BASE_def io_simps)

lemma keyboard_irq:
  assumes "keyboard sc s = Returns s' \<or> keyboard sc s = Halts s'"
  shows "pic_calls s' = pic_calls s @ [PicEoi (as_u8 Keyboard)] \<and> IRQ_COUNT s' = IRQ_COUNT s \<and> TIMER_TICKS s' = TIMER_TICKS s \<and>
     PAGE_FAULTS s' = PAGE_FAULTS s \<and> (cpu_kbd s', cpu_con s') = snd (handle_scancode sc (cpu_kbd s, cpu_con s))"
proof -
  obtain tr k c where h: "handle_scancode sc (cpu_kbd s, cpu_con s) = (tr, k, c)"
    by (cases "handle_scancode sc (cpu_kbd s, cpu_con s)")
  show ?thesis
    using assms by (auto simp: keyboard_def h Let_def notify_end_of_interrupt_def shutdown_via_keyboard_def cpu_fmt_def
      exit_qemu_def split: option.splits if_splits)
qed

definition vectors :: "(InterruptIndex \<times> frame) list \<Rightarrow> u8 list" where
  "vectors irqs = map (\<lambda>p. as_u8 (fst p)) irqs"

definition irqs_of :: "InterruptIndex \<Rightarrow> (InterruptIndex \<times> frame) list \<Rightarrow> nat" where
  "irqs_of i irqs = length (filter (\<lambda>p. fst p = i) irqs)"

lemma run_irqs_counts:
  assumes "run_irqs irqs s = Returns s'"
  shows "pic_calls s' = pic_calls s @ map PicEoi (vectors irqs) \<and>
    TIMER_TICKS s' = TIMER_TICKS s + of_nat (irqs_of Timer irqs) \<and>
    IRQ_COUNT s' = IRQ_COUNT s + of_nat (length irqs - irqs_of Keyboard irqs) \<and> PAGE_FAULTS s' = PAGE_FAULTS s"
  using assms
proof (induction irqs s rule: run_irqs.induct)
  case (1 s)
  then show ?case by (simp add: vectors_def irqs_of_def)
next
  case (2 i f irqs s)
  from "2.prems" obtain t where t: "run_gate (irq_gate i) f s = Returns t" "run_irqs irqs t = Returns s'"
    by (cases "run_gate (irq_gate i) f s") (simp_all add: deliver_irq)
  note rest = "2.IH" [unfolded deliver_irq, OF t]
  have le: "irqs_of Keyboard irqs \<le> length irqs" by (simp add: irqs_of_def)
  show ?case
  proof (cases "i = Keyboard")
    case True
    then have "keyboard (port_0x60 f) s = Returns t" using t(1) by simp
    note keyboard_irq [OF disjI1, OF this]
    then show ?thesis using True rest by (simp add: vectors_def irqs_of_def)
  next
    case False
    then obtain u where "run_gate (irq_gate i) f s = Returns u" "pic_calls u = pic_calls s @ [PicEoi (as_u8 i)]"
      "IRQ_COUNT u = IRQ_COUNT s + 1" "TIMER_TICKS u = TIMER_TICKS s + (if i = Timer then 1 else 0)" "PAGE_FAULTS u = PAGE_FAULTS s"
      using non_keyboard_irq [of i f s] by blast
    moreover from this(1) have "u = t" using t(1) by simp
    moreover have "length ((i, f) # irqs) - irqs_of Keyboard ((i, f) # irqs) = Suc (length irqs - irqs_of Keyboard irqs)"
      using False le by (simp add: irqs_of_def Suc_diff_le)
    ultimately show ?thesis using rest by (simp add: vectors_def irqs_of_def)
  qed
qed

lemma run_irqs_returns:
  assumes "\<And>f. (Keyboard, f) \<notin> set irqs"
  shows "\<exists>s'. run_irqs irqs s = Returns s'"
  using assms
proof (induction irqs arbitrary: s)
  case (Cons p irqs)
  obtain i f where p: "p = (i, f)" by (cases p)
  with Cons.prems have "i \<noteq> Keyboard" by auto
  then obtain u where "run_gate (irq_gate i) f s = Returns u" using non_keyboard_irq [of i f s] by blast
  then show ?case using Cons p by (simp add: deliver_irq)
qed simp

lemma handle_scancode_trigger:
  "fst (handle_scancode sc (k, c)) =
     (if CTRL_HELD k \<and> sc = 0x2D then Some ''Ctrl+X'' else if CTRL_HELD k \<and> sc = 0x2E then Some ''Ctrl+C'' else None)"
proof -
  have x: "sc AND 0x7F = 0x2D \<and> sc AND 0x80 = 0 \<longleftrightarrow> sc = 0x2D"
    and y: "sc AND 0x7F = 0x2E \<and> sc AND 0x80 = 0 \<longleftrightarrow> sc = 0x2E" for sc :: u8
    by (rule u8_exhaust [where x = sc], code_simp)+
  have "(0xE0 :: u8) AND 0x7F = 0x60" by simp
  then show ?thesis using x [of sc] y [of sc] by (auto simp: handle_scancode_def Let_def)
qed

lemma console_untouched: "\<not> locks_console sc k \<Longrightarrow> snd (snd (handle_scancode sc (k, c))) = c"
  by (auto simp: locks_console_def handle_scancode_def Let_def split: option.splits if_splits)

lemma trigger_takes_no_lock: "fst (handle_scancode sc (k, c)) = Some m \<Longrightarrow> \<not> locks_console sc k"
  by (auto simp: handle_scancode_trigger locks_console_def split: if_splits)

section \<open>Exceptions\<close>

lemma idt_exception:
  "\<exists>h i. (e, h) \<in> set exception_gates \<and> idt_init (Field e) = Some \<lparr>handler = h, stack_index = i, privilege_level = 0\<rparr> \<and>
     i = (if e = double_fault then Some DOUBLE_FAULT_IST_INDEX else None)"
proof -
  have inj: "inj Field" by (simp add: inj_def)
  have d: "distinct (map fst exception_gates)" by (simp add: exception_gates_def)
  have "\<exists>h. (e, h) \<in> set exception_gates" by (cases e) (simp_all add: exception_gates_def)
  then obtain h where h: "(e, h) \<in> set exception_gates" by blast
  have df: "h = WithCode ''Double Fault''" if "e = double_fault" using h that by (auto simp: exception_gates_def)
  have "Field e \<notin> set (map ((\<lambda>i. Vector (as_usize i)) \<circ> fst) irq_gates)" by auto
  then have "idt_init (Field e) = Some \<lparr>handler = h, stack_index = (if e = double_fault then Some DOUBLE_FAULT_IST_INDEX else None), privilege_level = 0\<rparr>"
    using set_handlers [OF inj d h] df by (simp add: idt_init_def configure_idt_def set_handlers_other)
  with h show ?thesis by blast
qed

text \<open>The text an exception leaves on the serial line.\<close>

fun gate_message :: "gate \<Rightarrow> frame \<Rightarrow> bytes" where
  "gate_message (Simple label) f = str_bytes ''[EXCEPTION] '' @ str_bytes label @ CRLF @ frame_text f @ CRLF"
| "gate_message (WithCode label) f =
     str_bytes ''[EXCEPTION] '' @ str_bytes label @ CRLF @ str_bytes ''  code: 0x'' @ fmt_hex 16 (error_code f) @ CRLF @ frame_text f @ CRLF"
| "gate_message PageFaultGate f = fault_text f @ frame_text f @ CRLF"
| "gate_message g f = []"

definition exception_message :: "exception \<Rightarrow> frame \<Rightarrow> bytes" where
  "exception_message e f = (case map_of exception_gates e of Some g \<Rightarrow> gate_message g f | None \<Rightarrow> [])"

lemma exception_message_gate: "(e, h) \<in> set exception_gates \<Longrightarrow> exception_message e f = gate_message h f"
proof -
  assume "(e, h) \<in> set exception_gates"
  moreover have "distinct (map fst exception_gates)" by (simp add: exception_gates_def)
  ultimately show ?thesis by (simp add: exception_message_def map_of_is_SomeI)
qed

lemma exception_gate_kinds: "(e, h) \<in> set exception_gates \<Longrightarrow>
    (\<exists>l. h = Simple l) \<and> e \<noteq> page_fault_exception \<or> (\<exists>l. h = WithCode l) \<and> e \<noteq> page_fault_exception \<or> h = PageFaultGate \<and> e = page_fault_exception"
  unfolding exception_gates_def by simp blast

lemma run_exception_gate:
  assumes "(e, h) \<in> set exception_gates"
  shows "if blocked s then run_gate h f s = Spins
    else \<exists>s'. run_gate h f s = Halts s' \<and>
      com1_sent (cpu_io s') = com1_sent (cpu_io s) @ (if INITIALIZED (cpu_io s) then with_cr (gate_message h f) else []) \<and>
      PAGE_FAULTS s' = PAGE_FAULTS s + (if e = page_fault_exception then 1 else 0) \<and>
      TIMER_TICKS s' = TIMER_TICKS s \<and> IRQ_COUNT s' = IRQ_COUNT s \<and> pic_calls s' = pic_calls s"
  using exception_gate_kinds [OF assms]
  by (elim disjE conjE exE) (auto simp: report_def page_fault_def cpu_fmt_def blocked_def with_cr_append)

section \<open>The tick counter as the rest of the kernel reads it\<close>

lemma irqs_of_append: "irqs_of i (xs @ ys) = irqs_of i xs + irqs_of i ys"
  by (simp add: irqs_of_def)

lemma irqs_of_upt_mono: "m \<le> n \<Longrightarrow> irqs_of i (concat (map batch [0..<m])) \<le> irqs_of i (concat (map batch [0..<n]))"
proof -
  assume "m \<le> n"
  then obtain d where "n = m + d" by (auto simp: le_iff_add)
  then show ?thesis using upt_add_eq_append [of 0 m d] by (simp add: irqs_of_append)
qed

lemma ticks_tape_monotone:
  assumes "\<And>n. run_irqs (concat (map batch [0..<n])) s = Returns (st n)"
    and "\<And>n. unat (TIMER_TICKS s) + irqs_of Timer (concat (map batch [0..<n])) < 2 ^ 64"
  shows "monotone_tape (\<lambda>n. TIMER_TICKS (st n))"
proof -
  have "unat (TIMER_TICKS (st n)) = unat (TIMER_TICKS s) + irqs_of Timer (concat (map batch [0..<n]))" for n
  proof -
    have "TIMER_TICKS (st n) = TIMER_TICKS s + of_nat (irqs_of Timer (concat (map batch [0..<n])))"
      using run_irqs_counts [OF assms(1) [of n]] by blast
    then show ?thesis using assms(2) [of n] by (simp add: unat_word_ariths unat_of_nat mod_simps)
  qed
  then show ?thesis using irqs_of_upt_mono by (auto simp: monotone_tape_def word_le_nat_alt)
qed

section \<open>Properties\<close>

definition example_cpu :: cpu where
  "example_cpu = \<lparr>IRQ_COUNT = 0, PAGE_FAULTS = 0, TIMER_TICKS = 41,
     cpu_io = \<lparr>outs = [], lsr_tape = (\<lambda>_. 0x20), lsr_pos = 0, INITIALIZED = True\<rparr>,
     cpu_kbd = kbd_static\<lparr>CTRL_HELD := True\<rparr>, cpu_con = Console_new (\<lambda>_. 0), con_locked = True, ser_locked = False, pic_calls = []\<rparr>"

definition example_frame :: frame where
  "example_frame = \<lparr>frame_text = [], frame_sp = 0, error_code = 0, fault_text = [], port_0x60 = 0x2E\<rparr>"

text \<open>C14: whatever sequence of interrupt requests the controllers raise, once the handlers have
  returned each request has been acknowledged exactly once, in order and with its own vector; the
  tick counter has advanced by the number of timer interrupts and the interrupt counter by the
  number of interrupts other than those of the keyboard, both modulo 2 to the 64; and a sequence
  without keyboard interrupts always returns.\<close>

theorem interrupts_acknowledged_and_counted:
  "(run_irqs irqs s = Returns s' \<longrightarrow>
      pic_calls s' = pic_calls s @ map PicEoi (vectors irqs) \<and>
      TIMER_TICKS s' = TIMER_TICKS s + of_nat (irqs_of Timer irqs) \<and>
      IRQ_COUNT s' = IRQ_COUNT s + of_nat (length irqs - irqs_of Keyboard irqs) \<and> PAGE_FAULTS s' = PAGE_FAULTS s) \<and>
   (irqs_of Keyboard irqs = 0 \<longrightarrow> (\<exists>t. run_irqs irqs s = Returns t))"
proof -
  have "\<exists>t. run_irqs irqs s = Returns t" if "irqs_of Keyboard irqs = 0"
    using that by (intro run_irqs_returns) (auto simp: irqs_of_def filter_empty_conv)
  then show ?thesis using run_irqs_counts [of irqs s s'] by blast
qed

theorem interrupts_acknowledged_and_counted_witness:
  "\<exists>s'. run_irqs [(Timer, example_frame), (Rtc, example_frame)] example_cpu = Returns s' \<and>
     TIMER_TICKS s' = 42 \<and> IRQ_COUNT s' = 2 \<and> pic_calls s' = [PicEoi 32, PicEoi 40]"
proof -
  let ?irqs = "[(Timer, example_frame), (Rtc, example_frame)]"
  have "irqs_of Keyboard ?irqs = 0" by (simp add: irqs_of_def)
  then obtain s' where r: "run_irqs ?irqs example_cpu = Returns s'"
    using interrupts_acknowledged_and_counted [of ?irqs example_cpu] by blast
  with interrupts_acknowledged_and_counted [of ?irqs example_cpu s'] show ?thesis
    by (auto simp: example_cpu_def irqs_of_def vectors_def PIC_1_OFFSET_def PIC_2_OFFSET_def)
qed

text \<open>C37: every exception of the processor has a gate whose handler never returns to the faulting code:
  it writes its label, its error code when there is one and the stack frame to the serial line and
  halts, or waits for ever when the faulting code holds the serial lock. It counts page faults,
  acknowledges nothing, and only the double fault switches to its own stack.\<close>

theorem exceptions_stop_the_processor:
  "(if blocked s then deliver (Field e) f s = Spins
    else \<exists>s'. deliver (Field e) f s = Halts s' \<and>
      com1_sent (cpu_io s') = com1_sent (cpu_io s) @ (if INITIALIZED (cpu_io s) then with_cr (exception_message e f) else []) \<and>
      PAGE_FAULTS s' = PAGE_FAULTS s + (if e = page_fault_exception then 1 else 0) \<and>
      TIMER_TICKS s' = TIMER_TICKS s \<and> IRQ_COUNT s' = IRQ_COUNT s \<and> pic_calls s' = pic_calls s) \<and>
   map_option stack_index (idt_init (Field e)) = Some (if e = double_fault then Some DOUBLE_FAULT_IST_INDEX else None)"
proof -
  obtain h i where h: "(e, h) \<in> set exception_gates" "idt_init (Field e) = Some \<lparr>handler = h, stack_index = i, privilege_level = 0\<rparr>"
    "i = (if e = double_fault then Some DOUBLE_FAULT_IST_INDEX else None)" using idt_exception by blast
  then have "deliver (Field e) f s = run_gate h f s" by (simp add: deliver_def)
  then show ?thesis using run_exception_gate [OF h(1), where f = f and s = s] exception_message_gate [OF h(1), of f] h(2,3) by auto
qed

text \<open>C23: the keyboard interrupt. It waits for ever exactly when the interrupted code holds the lock of
  the text console and the key is one that is echoed, or holds the serial lock and the key asks for a
  shutdown; otherwise it halts exactly on X or C with control held, after acknowledging the interrupt
  and as its last act writing 1 to the exit port 0xF4; otherwise it returns. In both cases it has
  acknowledged vector 33 once and left the keyboard and console as the scancode handler does, the
  console untouched when its lock was not taken.\<close>

theorem keyboard_interrupt_outcome:
  fixes s :: cpu and f :: frame
  defines "sc \<equiv> port_0x60 f" and "r \<equiv> deliver (Vector (as_usize Keyboard)) f s"
  defines "combo \<equiv> CTRL_HELD (cpu_kbd s) \<and> (sc = 0x2D \<or> sc = 0x2E)"
  defines "st \<equiv> snd (handle_scancode sc (cpu_kbd s, cpu_con s))"
  shows "(r = Spins \<longleftrightarrow> con_locked s \<and> locks_console sc (cpu_kbd s) \<or> blocked s \<and> combo) \<and>
    ((\<exists>s'. r = Halts s') \<longleftrightarrow> combo \<and> \<not> blocked s) \<and> r \<noteq> NoGate \<and>
    (\<forall>s'. r = Returns s' \<or> r = Halts s' \<longrightarrow>
       pic_calls s' = pic_calls s @ [PicEoi 33] \<and> (cpu_kbd s', cpu_con s') = st) \<and>
    (\<forall>s'. r = Halts s' \<longrightarrow> last (outs (cpu_io s')) = Out32 0xF4 1) \<and>
    (locks_console sc (cpu_kbd s) \<or> snd st = cpu_con s)"
proof -
  obtain tr k c where h: "handle_scancode sc (cpu_kbd s, cpu_con s) = (tr, k, c)"
    by (cases "handle_scancode sc (cpu_kbd s, cpu_con s)")
  have tr: "tr = (if CTRL_HELD (cpu_kbd s) \<and> sc = 0x2D then Some ''Ctrl+X''
      else if CTRL_HELD (cpu_kbd s) \<and> sc = 0x2E then Some ''Ctrl+C'' else None)"
    using handle_scancode_trigger [of sc "cpu_kbd s" "cpu_con s"] h by simp
  then have combo: "combo \<longleftrightarrow> tr \<noteq> None" by (auto simp: combo_def)
  have free: "\<not> locks_console sc (cpu_kbd s)" if "tr \<noteq> None"
    using trigger_takes_no_lock [of sc "cpu_kbd s" "cpu_con s"] h that by auto
  have r: "r = keyboard sc s" by (simp add: r_def sc_def deliver_irq)
  have ack: "\<forall>s'. r = Returns s' \<or> r = Halts s' \<longrightarrow> pic_calls s' = pic_calls s @ [PicEoi 33] \<and> (cpu_kbd s', cpu_con s') = st"
    using keyboard_irq [of sc s] by (simp add: r st_def PIC_1_OFFSET_def)
  have untouched: "locks_console sc (cpu_kbd s) \<or> snd st = cpu_con s"
    using console_untouched [of sc "cpu_kbd s" "cpu_con s"] by (auto simp: st_def)
  have "(r = Spins \<longleftrightarrow> con_locked s \<and> locks_console sc (cpu_kbd s) \<or> blocked s \<and> combo) \<and>
    ((\<exists>s'. r = Halts s') \<longleftrightarrow> combo \<and> \<not> blocked s) \<and> r \<noteq> NoGate \<and>
    (\<forall>s'. r = Halts s' \<longrightarrow> last (outs (cpu_io s')) = Out32 0xF4 1)"
    unfolding r combo using free
    by (cases tr) (auto simp: keyboard_def h Let_def shutdown_via_keyboard_def cpu_fmt_def exit_qemu_def outl_def
      notify_end_of_interrupt_def blocked_def)
  then show ?thesis using ack untouched by blast
qed

theorem keyboard_interrupt_outcome_witness:
  "\<exists>s'. deliver (Vector 33) example_frame example_cpu = Halts s' \<and> pic_calls s' = [PicEoi 33] \<and> last (outs (cpu_io s')) = Out32 0xF4 1"
proof -
  have v: "as_usize Keyboard = 33" by (simp add: as_usize_def PIC_1_OFFSET_def)
  have "CTRL_HELD (cpu_kbd example_cpu) \<and> (port_0x60 example_frame = 0x2D \<or> port_0x60 example_frame = 0x2E) \<and> \<not> blocked example_cpu"
    by (simp add: example_cpu_def example_frame_def blocked_def)
  then obtain s' where "deliver (Vector 33) example_frame example_cpu = Halts s'"
    using keyboard_interrupt_outcome [of example_frame example_cpu] v by auto
  then show ?thesis using keyboard_interrupt_outcome [of example_frame example_cpu] v by (auto simp: example_cpu_def)
qed

text \<open>between any two reads of the tick counter any batch of interrupts may be delivered; as long as
  the 64-bit counter does not wrap, the values successive reads return never decrease. This is the
  schedule of ticks the other components are verified against.\<close>

theorem ticks_read_are_monotone:
  assumes "\<And>n. run_irqs (concat (map batch [0..<n])) s = Returns (st n)"
    and "\<And>n. unat (TIMER_TICKS s) + irqs_of Timer (concat (map batch [0..<n])) < 2 ^ 64"
  shows "monotone_tape (\<lambda>n. TIMER_TICKS (st n))"
  by (rule ticks_tape_monotone [OF assms])

theorem ticks_read_are_monotone_witness:
  "\<exists>st :: nat \<Rightarrow> cpu. monotone_tape (\<lambda>n. TIMER_TICKS (st n)) \<and> TIMER_TICKS (st 0) = 41 \<and> TIMER_TICKS (st 1) = 42"
proof -
  let ?b = "\<lambda>n::nat. if n = 0 then [(Timer, example_frame)] else []"
  let ?st = "\<lambda>n::nat. if n = 0 then example_cpu else (case timer example_cpu of Returns s \<Rightarrow> s | _ \<Rightarrow> example_cpu)"
  have cc: "concat (map ?b [0..<n]) = (if n = 0 then [] else [(Timer, example_frame)])" for n
    by (cases n) (simp_all add: upt_conv_Cons del: upt_Suc)
  have step: "\<exists>t. timer example_cpu = Returns t \<and> TIMER_TICKS t = 42"
    by (simp add: timer_def Let_def example_cpu_def notify_end_of_interrupt_def debug_line_def)
  have "monotone_tape (\<lambda>n. TIMER_TICKS (?st n))"
  proof (rule ticks_read_are_monotone [where batch = ?b and s = example_cpu])
    show "run_irqs (concat (map ?b [0..<n])) example_cpu = Returns (?st n)" for n
      using step by (auto simp: cc deliver_irq)
    show "unat (TIMER_TICKS example_cpu) + irqs_of Timer (concat (map ?b [0..<n])) < 2 ^ 64" for n
      unfolding cc by (simp add: irqs_of_def example_cpu_def)
  qed
  moreover have "TIMER_TICKS (?st 0) = 41" "TIMER_TICKS (?st 1) = 42" using step by (auto simp: example_cpu_def)
  ultimately show ?thesis by (intro exI [of _ ?st]) simp
qed

end
