(* ===== verification/Gdt.thy ===== *)
theory Gdt
  imports Idt
begin

text \<open>
  The segment tables (\<^verbatim>\<open>kernel/src/gdt.rs\<close>): the task state segment with its two stacks, the global
  descriptor table and the loads of the segment registers. Descriptors and selectors belong to the
  crate \<^verbatim>\<open>x86_64\<close>: what the code uses of it is the record \<open>x86\<close>, and the addresses of the two static
  stacks are arguments.
\<close>

section \<open>State and operations\<close>

definition DOUBLE_FAULT_STACK_SIZE :: u64 where "DOUBLE_FAULT_STACK_SIZE = 4096"
definition KERNEL_STACK_SIZE :: u64 where "KERNEL_STACK_SIZE = 4096 * 4"

datatype Descriptor = kernel_code_segment | kernel_data_segment | user_code_segment | user_data_segment | tss_segment

record ('sel, 'gdt) x86 =
  empty_gdt :: 'gdt
  add_entry :: "Descriptor \<Rightarrow> 'gdt \<Rightarrow> 'sel \<times> 'gdt"
  sel_index :: "'sel \<Rightarrow> u16"
  new_selector :: "u16 \<Rightarrow> nat \<Rightarrow> 'sel"

record 'sel Selectors =
  sel_code :: 'sel
  sel_data :: 'sel
  sel_user_code :: 'sel
  sel_user_data :: 'sel
  sel_tss :: 'sel

record TaskStateSegment =
  interrupt_stack_table :: "u64 list"
  privilege_stack_table :: "u64 list"

datatype 'sel load = LoadGdt | SetCS 'sel | SetSS 'sel | SetDS 'sel | SetES 'sel | SetFS 'sel | SetGS 'sel | LoadTss 'sel

record ('sel, 'gdt) gdt_state =
  GDT :: "('gdt \<times> 'sel Selectors) option"
  TSS :: "TaskStateSegment option"
  loads :: "'sel load list"

definition TaskStateSegment_new :: TaskStateSegment where
  "TaskStateSegment_new = \<lparr>interrupt_stack_table = replicate 7 0, privilege_stack_table = replicate 3 0\<rparr>"

definition init_tss :: "u64 \<Rightarrow> u64 \<Rightarrow> TaskStateSegment" where
  "init_tss df_stack_start kernel_stack_start =
     (let tss = TaskStateSegment_new;
          df_stack_end = df_stack_start + DOUBLE_FAULT_STACK_SIZE;
          tss = tss\<lparr>interrupt_stack_table := (interrupt_stack_table tss)[unat DOUBLE_FAULT_IST_INDEX := df_stack_end]\<rparr>;
          kernel_stack_end = kernel_stack_start + KERNEL_STACK_SIZE
      in tss\<lparr>privilege_stack_table := (privilege_stack_table tss)[0 := kernel_stack_end]\<rparr>)"

definition build_gdt :: "('sel, 'gdt) x86 \<Rightarrow> 'gdt \<times> 'sel Selectors" where
  "build_gdt X =
     (let (code, gdt) = add_entry X kernel_code_segment (empty_gdt X);
          (data, gdt) = add_entry X kernel_data_segment gdt;
          (user_code_sel, gdt) = add_entry X user_code_segment gdt;
          (user_data_sel, gdt) = add_entry X user_data_segment gdt;
          (tss, gdt) = add_entry X tss_segment gdt;
          user_code = new_selector X (sel_index X user_code_sel) 3;
          user_data = new_selector X (sel_index X user_data_sel) 3
      in (gdt, \<lparr>sel_code = code, sel_data = data, sel_user_code = user_code, sel_user_data = user_data, sel_tss = tss\<rparr>))"

definition gdt_init :: "('sel, 'gdt) x86 \<Rightarrow> u64 \<Rightarrow> u64 \<Rightarrow> ('sel, 'gdt) gdt_state \<Rightarrow> ('sel, 'gdt) gdt_state" where
  "gdt_init X df_stack kernel_stack s =
     (let tss = (case TSS s of Some t \<Rightarrow> t | None \<Rightarrow> init_tss df_stack kernel_stack);
          g = (case GDT s of Some g \<Rightarrow> g | None \<Rightarrow> build_gdt X);
          sels = snd g
      in s\<lparr>TSS := Some tss, GDT := Some g,
           loads := loads s @ [LoadGdt, SetCS (sel_code sels), SetSS (sel_data sels), SetDS (sel_data sels), SetES (sel_data sels),
             SetFS (sel_data sels), SetGS (sel_data sels), LoadTss (sel_tss sels)]\<rparr>)"

text \<open>\<open>None\<close> is the panic of a table that was never built.\<close>

definition selectors :: "('sel, 'gdt) gdt_state \<Rightarrow> 'sel Selectors option" where
  "selectors s = map_option snd (GDT s)"

definition kernel_stack_top :: "u64 \<Rightarrow> ('sel, 'gdt) gdt_state \<Rightarrow> u64 option" where
  "kernel_stack_top kernel_stack s = (case selectors s of None \<Rightarrow> None | Some _ \<Rightarrow> Some (kernel_stack + KERNEL_STACK_SIZE))"

section \<open>Properties\<close>

text \<open>the stacks of the handlers. After the tables are set up, the gate of the double fault names an
  entry of the interrupt stack table, that entry is the end of the stack reserved for it, and the
  kernel stack the processor switches to on a change of privilege is the one \<^verbatim>\<open>kernel_stack_top\<close>
  reports; when the two static stacks do not overlap, the 4096 bytes below the one end and the 16384
  below the other do not either. Setting the tables up again changes neither of them.\<close>

theorem handler_stacks_reserved:
  fixes X :: "('sel, 'gdt) x86" and df ks df' ks' :: u64
  defines "s \<equiv> gdt_init X df ks \<lparr>GDT = None, TSS = None, loads = []\<rparr>"
  assumes "region df 4096 \<inter> region ks 16384 = {}"
  shows "\<exists>e t i. idt_init (Field double_fault) = Some e \<and> TSS s = Some t \<and> stack_index e = Some i \<and>
      unat i < length (interrupt_stack_table t) \<and> interrupt_stack_table t ! unat i = df + 4096 \<and>
      kernel_stack_top ks s = Some (privilege_stack_table t ! 0) \<and>
      region (interrupt_stack_table t ! unat i - 4096) 4096 \<inter> region (privilege_stack_table t ! 0 - 16384) 16384 = {} \<and>
      TSS (gdt_init X df' ks' s) = TSS s \<and> GDT (gdt_init X df' ks' s) = GDT s"
proof -
  obtain e where e: "idt_init (Field double_fault) = Some e" "stack_index e = Some DOUBLE_FAULT_IST_INDEX"
    using idt_exception [of double_fault] by auto
  show ?thesis
    by (intro exI [of _ e] exI [of _ "init_tss df ks"] exI [of _ DOUBLE_FAULT_IST_INDEX])
      (use e assms(2) in \<open>simp add: s_def gdt_init_def init_tss_def TaskStateSegment_new_def DOUBLE_FAULT_IST_INDEX_def
        DOUBLE_FAULT_STACK_SIZE_def KERNEL_STACK_SIZE_def kernel_stack_top_def selectors_def Let_def\<close>)
qed

definition example_x86 :: "(u16, Descriptor list) x86" where
  "example_x86 = \<lparr>empty_gdt = [], add_entry = (\<lambda>d g. (of_nat (8 * (length g + 1)), g @ [d])), sel_index = (\<lambda>s. drop_bit 3 s),
     new_selector = (\<lambda>i r. push_bit 3 i OR of_nat r)\<rparr>"

theorem handler_stacks_reserved_witness:
  "\<exists>t i. TSS (gdt_init example_x86 0x10000 0x20000 \<lparr>GDT = None, TSS = None, loads = []\<rparr>) = Some t \<and>
     interrupt_stack_table t ! unat (i :: u16) = 0x11000"
proof -
  have "region 0x10000 4096 \<inter> region 0x20000 16384 = {}"
  proof (rule ccontr)
    assume "region 0x10000 4096 \<inter> region 0x20000 16384 \<noteq> {}"
    then obtain x :: u64 where x: "unat (x - 0x10000) < 4096" "unat (x - 0x20000) < 16384" by (auto simp: region_def)
    then have "x - 0x10000 = (x - 0x20000) + 0x10000" by simp
    moreover have "unat ((x - 0x20000) + 0x10000) = unat (x - 0x20000) + 0x10000"
      using x(2) by (subst unat_add_no_wrap) simp_all
    ultimately show False using x(1) by simp
  qed
  from handler_stacks_reserved [OF this, where X = example_x86 and df' = 0 and ks' = 0] show ?thesis by auto
qed

end
