(* ===== verification/Processor.thy ===== *)
theory Processor
  imports Gdt
begin

text \<open>
  The processor's tables as the boot sequence sets them (\<^verbatim>\<open>gdt::init\<close>, \<^verbatim>\<open>idt::init\<close>, \<^verbatim>\<open>pic::init\<close> and
  \<^verbatim>\<open>interrupts::enable\<close> of \<^verbatim>\<open>kernel/src/main.rs\<close>) and what an exception and an interrupt request find there.
  A gate is entered through the table the interrupt table register holds; its code selector is the one
  that was active when the table was built (the crate \<^verbatim>\<open>x86_64\<close> stores the current code segment with each
  handler) and has to be the code segment of the loaded descriptor table. Which requests the two interrupt
  controllers pass on, and under which vector, is a parameter: the chips, driven by the crate \<^verbatim>\<open>pic8259\<close>.
\<close>

section \<open>State and operations\<close>

record processor =
  crate :: "(u16, Descriptor list) x86"
  df_stack :: u64
  kernel_stack :: u64
  segs :: "(u16, Descriptor list) gdt_state"
  IDT :: "(idt \<times> u16 option) option"
  idtr :: "(idt \<times> u16 option) option"
  pics :: "pic_call list"
  interrupts_on :: bool

definition current_cs :: "'sel load list \<Rightarrow> 'sel option" where
  "current_cs ls = fold (\<lambda>l c. case l of SetCS s \<Rightarrow> Some s | _ \<Rightarrow> c) ls None"

definition gdt_start :: "processor \<Rightarrow> processor" where
  "gdt_start p = p\<lparr>segs := gdt_init (crate p) (df_stack p) (kernel_stack p) (segs p)\<rparr>"

definition idt_load :: "processor \<Rightarrow> processor" where
  "idt_load p =
     (let t = (case IDT p of Some t \<Rightarrow> t | None \<Rightarrow> (idt_init, current_cs (loads (segs p))))
      in p\<lparr>IDT := Some t, idtr := Some t\<rparr>)"

definition pic_start :: "processor \<Rightarrow> processor" where
  "pic_start p = p\<lparr>pics := pic_init (pics p)\<rparr>"

definition interrupts_enable :: "processor \<Rightarrow> processor" where
  "interrupts_enable p = p\<lparr>interrupts_on := True\<rparr>"

section \<open>Exceptions and interrupt requests\<close>

text \<open>\<open>NoGate\<close>: no table is loaded, the table has no such gate, or the gate's code selector is not the one of
  the loaded descriptor table.\<close>

definition enter_gate :: "slot \<Rightarrow> frame \<Rightarrow> processor \<Rightarrow> cpu \<Rightarrow> handled" where
  "enter_gate v f p s =
     (case idtr p of
        None \<Rightarrow> NoGate
      | Some (t, cs) \<Rightarrow>
          if cs = None \<or> cs \<noteq> map_option sel_code (selectors (segs p)) then NoGate
          else (case t v of None \<Rightarrow> NoGate | Some e \<Rightarrow> run_gate (handler e) f s))"

record pic_chips =
  line_masked :: "pic_call list \<Rightarrow> nat \<Rightarrow> bool"
  line_vector :: "pic_call list \<Rightarrow> nat \<Rightarrow> nat"

text \<open>The documented behaviour of the chips: the last written masks decide which of the 16 lines are passed on,
  and after an initialisation line \<open>n\<close> comes with the \<open>n\<close>th vector from the offsets of \<^verbatim>\<open>pic.rs\<close>.\<close>

definition pic8259 :: "pic_chips \<Rightarrow> bool" where
  "pic8259 P \<longleftrightarrow>
     (\<forall>cs a b line. line < 16 \<longrightarrow>
        line_masked P (cs @ [PicWriteMasks a b]) line = (if line < 8 then bit a line else bit b (line - 8))) \<and>
     (\<forall>cs line. line < 16 \<longrightarrow> PicInitialize \<in> set cs \<longrightarrow>
        line_vector P cs line = (if line < 8 then unat PIC_1_OFFSET + line else unat PIC_2_OFFSET + (line - 8)))"

text \<open>A request on a line; \<open>None\<close> when it stays pending.\<close>

definition take_interrupt :: "pic_chips \<Rightarrow> nat \<Rightarrow> frame \<Rightarrow> processor \<Rightarrow> cpu \<Rightarrow> handled option" where
  "take_interrupt P line f p s =
     (if \<not> interrupts_on p \<or> line_masked P (pics p) line then None
      else Some (enter_gate (Vector (line_vector P (pics p) line)) f p s))"

section \<open>The tables after start-up\<close>

definition at_power_on :: "processor \<Rightarrow> bool" where
  "at_power_on p \<longleftrightarrow> \<not> interrupts_on p \<and> IDT p = None \<and> GDT (segs p) = None \<and> TSS (segs p) = None"

definition tables_loaded :: "processor \<Rightarrow> bool" where
  "tables_loaded p \<longleftrightarrow>
     (\<exists>sels. selectors (segs p) = Some sels \<and> idtr p = Some (idt_init, Some (sel_code sels))) \<and>
     TSS (segs p) = Some (init_tss (df_stack p) (kernel_stack p))"

lemma tables_load: "at_power_on p \<Longrightarrow> tables_loaded (idt_load (gdt_start p))"
  by (simp add: at_power_on_def tables_loaded_def idt_load_def gdt_start_def gdt_init_def selectors_def current_cs_def Let_def)

lemma tables_kept: "tables_loaded p \<Longrightarrow> tables_loaded (pic_start p)" "tables_loaded p \<Longrightarrow> tables_loaded (interrupts_enable p)"
  by (simp_all add: tables_loaded_def pic_start_def interrupts_enable_def)

lemma loaded_gate: "tables_loaded p \<Longrightarrow> enter_gate v f p s = deliver v f s"
  by (auto simp: tables_loaded_def enter_gate_def deliver_def split: option.split)

lemma exception_has_gate: "deliver (Field e) f s \<noteq> NoGate"
proof -
  obtain h i where h: "(e, h) \<in> set exception_gates" "idt_init (Field e) = Some \<lparr>handler = h, stack_index = i, privilege_level = 0\<rparr>"
    using idt_exception by blast
  then show ?thesis using run_exception_gate [OF h(1), where f = f and s = s] by (auto simp: deliver_def split: if_splits)
qed

text \<open>With the tables loaded, the controllers set up and interrupts enabled.\<close>

lemma take_requests:
  assumes "pic8259 P" "tables_loaded p" "pics p = pic_init cs" "interrupts_on p" "line < 16"
  shows "take_interrupt P line f p s =
    (if line = 0 then Some (run_gate TimerGate f s) else if line = 1 then Some (run_gate KeyboardGate f s) else None)"
proof -
  have l: "line \<in> {0, 1, 2, 3, 4, 5, 6, 7, 8, 9, 10, 11, 12, 13, 14, 15}" using assms(5) by (simp, arith)
  have "pic_init cs = (cs @ [PicInitialize]) @ [PicWriteMasks 0xFC 0xFF]" by (simp add: pic_init_def)
  then have m: "line_masked P (pics p) line \<longleftrightarrow> (if line < 8 then bit (0xFC :: u8) line else bit (0xFF :: u8) (line - 8))"
    using assms(1,3,5) by (simp only: pic8259_def)
  have v: "line_vector P (pics p) line = (if line < 8 then 32 + line else 40 + (line - 8))"
    using assms(1,3,5) by (simp add: pic8259_def pic_init_def PIC_1_OFFSET_def PIC_2_OFFSET_def)
  have g: "enter_gate (Vector 32) f p s = run_gate TimerGate f s" "enter_gate (Vector 33) f p s = run_gate KeyboardGate f s"
    unfolding loaded_gate [OF assms(2)]
    using idt_irq [of Timer] idt_irq [of Keyboard]
    by (simp_all add: deliver_def as_usize_def PIC_1_OFFSET_def)
  have "line_masked P (pics p) line \<longleftrightarrow> 2 \<le> line" unfolding m using l by (auto simp: bit_iff_odd)
  then show ?thesis using assms(4) g l v by (auto simp: take_interrupt_def)
qed

end
