(* ===== verification/Kernel_Main.thy ===== *)
theory Kernel_Main
  imports Shell_Spec Processor Bootinfo
begin

text \<open>
  The kernel's entry (\<^verbatim>\<open>kernel/src/main.rs\<close>): the boot sequence, the report of the memory map and the
  main loop, over the machine of the shell and the processor's tables: the sequence loads the segment and
  interrupt tables, sets up the interrupt controllers and enables interrupts. The cargo features
  that change the sequence are parameters; the ones of the default build are \<open>default_features\<close>.
\<close>

section \<open>State\<close>

record features =
  ai_agent :: bool
  trigger_breakpoint :: "frame option"
  qemu_exit :: bool

definition default_features :: features where
  "default_features = \<lparr>ai_agent = False, trigger_breakpoint = None, qemu_exit = False\<rparr>"

record kernel =
  km :: mach
  proc :: processor

type_synonym kop = "kernel \<Rightarrow> fin + kernel"

definition on_k :: "unit mm \<Rightarrow> kop" where
  "on_k f k = (case f (km k) of Inl e \<Rightarrow> Inl e | Inr (_, m) \<Rightarrow> Inr (k\<lparr>km := m\<rparr>))"

definition on_cpu :: "(processor \<Rightarrow> processor) \<Rightarrow> kop" where
  "on_cpu f k = Inr (k\<lparr>proc := f (proc k)\<rparr>)"

definition when_k :: "bool \<Rightarrow> kop \<Rightarrow> kop" where
  "when_k b f = (if b then f else Inr)"

fun seqk :: "kop list \<Rightarrow> kop" where
  "seqk [] k = Inr k"
| "seqk (f # fs) k = (case f k of Inl e \<Rightarrow> Inl e | Inr k' \<Rightarrow> seqk fs k')"

section \<open>The memory map report\<close>

definition kmsg :: "string \<Rightarrow> unit mm" where
  "kmsg m = lift_x (debug_out (str_bytes m @ [10]))"

definition region_line :: "MemoryMapEntry \<Rightarrow> bytes" where
  "region_line r =
     str_bytes ''[mem] '' @ fmt_alt_hex 16 (base_addr r) @ str_bytes ''-'' @
     fmt_alt_hex 16 (saturating_add (base_addr r) (region_length r)) @ str_bytes '' '' @ str_bytes (kind_as_str (entry_kind r)) @
     str_bytes '' (type '' @ fmt_alt_hex 0 (region_type r) @ str_bytes '', attr '' @ fmt_alt_hex 0 (attributes r) @ str_bytes '')'' @ CRLF"

fun log_regions :: "MemoryMapEntry list \<Rightarrow> u64 \<Rightarrow> u64 \<Rightarrow> (u64 \<times> u64) mm" where
  "log_regions [] regions usable_bytes = retm (regions, usable_bytes)"
| "log_regions (r # rs) regions usable_bytes =
     (let regions = regions + 1;
          usable_bytes = (if is_usable r then saturating_add usable_bytes (region_length r) else usable_bytes)
      in thenm (out_fmt (region_line r)) (log_regions rs regions usable_bytes))"

definition log_memory_map :: "BootInfo \<Rightarrow> unit mm" where
  "log_memory_map boot_info =
     thenm (kmsg ''kmain: memmap'')
    (bindm (getm (\<lambda>s. iter_entries (ram (dev s)) (memory_map boot_info))) (\<lambda>entries.
     bindm (log_regions entries 0 0) (\<lambda>(regions, usable_bytes).
     (let usable_kib = usable_bytes div 1024
      in thenm (out_fmt (str_bytes ''[mem] usable: '' @ fmt_dec usable_kib @ str_bytes '' KiB across '' @ fmt_dec regions @
             str_bytes '' entries'' @ CRLF))
           (kmsg ''kmain: memmap done'')))))"

section \<open>The boot sequence\<close>

text \<open>\<^verbatim>\<open>task::run_once\<close> with its tasks: the only one the kernel registers is a step of the agent, which
  shares the serial port and the debug port with the rest of the kernel.\<close>

definition task_run_once :: "ai_cfg \<Rightarrow> unit mm" where
  "task_run_once acfg s =
     (case run_once (tasks s) of
        (None, q) \<Rightarrow> Inr ((), s\<lparr>tasks := q\<rparr>)
      | (Some AgentStep, q) \<Rightarrow>
          (case agent_step acfg (ram (dev s)) (xpmm (dev s)) q (agt s) ((act s)\<lparr>kio := xio (dev s)\<rparr>) of
             None \<Rightarrow> Inl (Failed Panicked)
           | Some (a, k) \<Rightarrow> Inr ((), s\<lparr>tasks := q, agt := a, act := k, dev := (dev s)\<lparr>xio := kio k\<rparr>\<rparr>)))"

definition set_link :: "ai_link \<Rightarrow> unit mm" where
  "set_link l = updm (\<lambda>s. s\<lparr>agt := (agt s)\<lparr>link := l\<rparr>\<rparr>)"

definition early_agent :: "ai_cfg \<Rightarrow> BootInfo \<Rightarrow> unit mm" where
  "early_agent acfg boot_info =
     bindm (getm (\<lambda>s. (link (agt s))\<lparr>INITRD_BASE := initrd_base boot_info, INITRD_LEN := initrd_len boot_info\<rparr>)) (\<lambda>l.
     thenm (set_link l)
    (thenm (if INITRD_BASE l \<noteq> 0 \<and> INITRD_LEN l > 0
            then bindm (\<lambda>s. or_stop Diverged (try_set_model_from_initrd (ram (dev s)) l) s) set_link
            else retm ())
    (bindm (getm (\<lambda>s. AI_MODEL_ADDR (link (agt s)))) (\<lambda>addr.
     if addr \<noteq> 0
     then thenm (out_str (str_bytes ''[ai] early scheduling agent task'' @ CRLF))
         (thenm (updm (\<lambda>s. s\<lparr>tasks := snd (register AgentStep (tasks s))\<rparr>)) (task_run_once acfg))
     else out_str (str_bytes ''[ai] model addr not set; agent inactive'' @ CRLF)))))"

definition pmm_start :: "BootInfo \<Rightarrow> unit mm" where
  "pmm_start boot_info =
     updm (\<lambda>s. let (p, i) = pmm_init (ram (dev s)) boot_info (xpmm (dev s), xio (dev s))
               in s\<lparr>dev := (dev s)\<lparr>xpmm := p, xio := i\<rparr>\<rparr>)"

definition serial_start :: "unit mm" where
  "serial_start = lift_x (upd (\<lambda>d. d\<lparr>xio := serial_init (xio d)\<rparr>))"

definition syscall_start :: "unit mm" where
  "syscall_start = lift_x (upd (\<lambda>d. d\<lparr>xio := syscall_init (xio d)\<rparr>))"

text \<open>What a handler finds on the machine as it is during the boot, before any interrupt was taken: the
  counters at zero, the keyboard's statics and the locks free.\<close>

definition cpu_view :: "mach \<Rightarrow> cpu" where
  "cpu_view s = \<lparr>IRQ_COUNT = 0, PAGE_FAULTS = 0, TIMER_TICKS = 0, cpu_io = xio (dev s), cpu_kbd = kbd_static, cpu_con = con (dev s),
     con_locked = False, ser_locked = False, pic_calls = []\<rparr>"

text \<open>The instruction \<^verbatim>\<open>int3\<close> enters the gate of the breakpoint exception in the loaded table; the feature
  carries what the processor passes to the handler.\<close>

definition int3 :: "frame \<Rightarrow> kop" where
  "int3 f k =
     (let s = km k
      in case enter_gate (Field breakpoint) f (proc k) (cpu_view s) of
           Returns c \<Rightarrow> Inr (k\<lparr>km := s\<lparr>dev := (dev s)\<lparr>xio := cpu_io c\<rparr>\<rparr>\<rparr>)
         | Halts c \<Rightarrow> Inl (Halted (s\<lparr>dev := (dev s)\<lparr>xio := cpu_io c\<rparr>\<rparr>))
         | Spins \<Rightarrow> Inl (Failed Deadlocked)
         | NoGate \<Rightarrow> Inl (Failed Panicked))"

definition breakpoint_feature :: "features \<Rightarrow> kop" where
  "breakpoint_feature ft = (case trigger_breakpoint ft of None \<Rightarrow> Inr | Some f \<Rightarrow> int3 f)"

text \<open>The sequence up to the interrupt controllers, and from the end of the USB probe to the main loop.\<close>

definition boot_head :: "features \<Rightarrow> ai_cfg \<Rightarrow> BootInfo \<Rightarrow> kop list" where
  "boot_head ft acfg boot_info =
     [on_k (kmsg ''kmain: entry''),
      on_cpu gdt_start,
      on_k (kmsg ''kmain: gdt''),
      on_k serial_start,
      on_k (kmsg ''kmain: serial''),
      when_k (ai_agent ft) (on_k (early_agent acfg boot_info)),
      on_cpu idt_load,
      on_k (kmsg ''kmain: idt''),
      when_k (ai_agent ft) (on_k (task_run_once acfg)),
      on_k syscall_start,
      on_k (kmsg ''kmain: syscall''),
      when_k (ai_agent ft) (on_k (task_run_once acfg)),
      on_k (out_str (str_bytes ''Hello Kernel'' @ CRLF)),
      on_k (kmsg ''kmain: wrote serial''),
      on_k (on_screen vga_init),
      on_k (on_screen (vga_set_style 0x1f)),
      on_k (on_screen (vga_write_line (str_bytes ''Hello Kernel''))),
      on_k (on_screen (vga_set_style 0x0f)),
      on_k (kmsg ''kmain: wrote vga''),
      on_cpu pic_start,
      on_k (kmsg ''kmain: pic''),
      when_k (ai_agent ft) (on_k (task_run_once acfg))]"

definition boot_tail :: "features \<Rightarrow> ai_cfg \<Rightarrow> kop list" where
  "boot_tail ft acfg =
     [when_k (ai_agent ft) (on_k (task_run_once acfg)),
      on_cpu interrupts_enable,
      on_k (kmsg ''kmain: interrupts on''),
      when_k (ai_agent ft) (on_k (updm (\<lambda>s. s\<lparr>act := set_system_ready (act s)\<rparr>))),
      on_k shell_start,
      breakpoint_feature ft,
      when_k (qemu_exit ft) (on_k (exit_machine 0))]"

definition boot_sequence :: "features \<Rightarrow> ai_cfg \<Rightarrow> cfg \<Rightarrow> BootInfo \<Rightarrow> kop list" where
  "boot_sequence ft acfg cfg boot_info =
     boot_head ft acfg boot_info @
     [on_k (pmm_start boot_info), on_k (log_memory_map boot_info), on_k (lift_x (log_usb_controllers cfg))] @
     boot_tail ft acfg"

definition kernel_boot :: "features \<Rightarrow> ai_cfg \<Rightarrow> cfg \<Rightarrow> BootInfo \<Rightarrow> kop" where
  "kernel_boot ft acfg cfg boot_info = seqk (boot_sequence ft acfg cfg boot_info)"

text \<open>The entry point refuses a null pointer; a panic reports on both consoles and halts.\<close>

definition start :: "features \<Rightarrow> ai_cfg \<Rightarrow> cfg \<Rightarrow> BootInfo option \<Rightarrow> kop" where
  "start ft acfg cfg boot_info_ptr k =
     (case boot_info_ptr of None \<Rightarrow> Inl (Failed Panicked) | Some boot_info \<Rightarrow> kernel_boot ft acfg cfg boot_info k)"

definition panic :: "bytes \<Rightarrow> mach \<Rightarrow> mach" where
  "panic panic_info s = s\<lparr>dev := (dev s)\<lparr>xio := serial_panic panic_info (xio (dev s)), con := vga_panic panic_info (con (dev s))\<rparr>\<rparr>"

section \<open>The main loop\<close>

definition shell_boot :: "(nat \<Rightarrow> u8 list) \<Rightarrow> mach \<Rightarrow> shell" where
  "shell_boot tape m = \<lparr>mach_st = m, keys = kbd_static, LINE = replicate 256 0, LEN = 0, key_tape = tape, key_pos = 0\<rparr>"

definition main_iteration :: "features \<Rightarrow> ai_cfg \<Rightarrow> cfg \<Rightarrow> shell \<Rightarrow> fin + shell" where
  "main_iteration ft acfg cfg s =
     (case on_mach (thenm (lift_x poll_events) (if ai_agent ft then task_run_once acfg else retm ())) s of
        Inl e \<Rightarrow> Inl e
      | Inr s' \<Rightarrow> shell_step cfg s')"

fun main_loop :: "features \<Rightarrow> ai_cfg \<Rightarrow> cfg \<Rightarrow> nat \<Rightarrow> shell \<Rightarrow> fin + shell" where
  "main_loop ft acfg cfg 0 s = Inr s"
| "main_loop ft acfg cfg (Suc n) s =
     (case main_iteration ft acfg cfg s of Inl e \<Rightarrow> Inl e | Inr s' \<Rightarrow> main_loop ft acfg cfg n s')"

section \<open>Operations that change devices only\<close>

text \<open>\<open>smooth f\<close>: \<open>f\<close> always returns and changes nothing but the devices.\<close>

definition smooth :: "unit mm \<Rightarrow> bool" where
  "smooth f \<longleftrightarrow> (\<forall>s. \<exists>d. f s = Inr ((), s\<lparr>dev := d\<rparr>))"

text \<open>\<open>smooth_k f g\<close>: \<open>f\<close> always returns, changes the processor by \<open>g\<close> and else nothing but the devices.\<close>

definition smooth_k :: "kop \<Rightarrow> (processor \<Rightarrow> processor) \<Rightarrow> bool" where
  "smooth_k f g \<longleftrightarrow> (\<forall>k. \<exists>d. f k = Inr (k\<lparr>km := (km k)\<lparr>dev := d\<rparr>, proc := g (proc k)\<rparr>))"

definition in_turn :: "('p \<Rightarrow> 'p) list \<Rightarrow> 'p \<Rightarrow> 'p" where
  "in_turn gs = fold (\<lambda>g. g) gs"

named_theorems smooth_intros \<open>steps of the boot sequence that always return\<close>

lemma smooth_talks: "talks f bs \<Longrightarrow> smooth f"
  unfolding talks_def smooth_def by blast

lemma smooth_lift: "smooth (lift_x (upd g))" "smooth (kmsg m)"
proof -
  show u: "smooth (lift_x (upd g))" for g by (auto simp: smooth_def lift_x_def upd_def)
  show "smooth (kmsg m)" unfolding kmsg_def debug_out_def by (rule u)
qed

lemma smooth_start: "smooth serial_start" "smooth syscall_start" "smooth (on_screen g)"
  unfolding serial_start_def syscall_start_def on_screen_def by (rule smooth_lift)+

lemma smooth_pmm: "smooth (pmm_start boot)"
  by (auto simp: smooth_def pmm_start_def updm_def split: prod.split)

lemma smooth_then: "smooth f \<Longrightarrow> smooth g \<Longrightarrow> smooth (thenm f g)"
proof -
  assume f: "smooth f" and g: "smooth g"
  show ?thesis unfolding smooth_def
  proof
    fix s
    obtain d where d: "f s = Inr ((), s\<lparr>dev := d\<rparr>)" using f unfolding smooth_def by blast
    obtain e where "g (s\<lparr>dev := d\<rparr>) = Inr ((), s\<lparr>dev := d\<rparr>\<lparr>dev := e\<rparr>)" using g unfolding smooth_def by blast
    then show "\<exists>d. thenm f g s = Inr ((), s\<lparr>dev := d\<rparr>)" using d by (auto simp: thenm_def bindm_def)
  qed
qed

text \<open>The summary of the memory map: how many regions, and the bytes of the usable ones, capped.\<close>

definition usable_sum :: "MemoryMapEntry list \<Rightarrow> nat" where
  "usable_sum rs = sum_list (map (\<lambda>r. unat (region_length r)) (filter is_usable rs))"

lemma log_regions_totals:
  "\<exists>d. log_regions rs n u s = Inr ((n + of_nat (length rs), of_nat (min (2 ^ 64 - 1) (unat u + usable_sum rs))), s\<lparr>dev := d\<rparr>) \<and>
     talked (concat (map region_line rs)) (dev s) d"
proof (induction rs n u arbitrary: s rule: log_regions.induct)
  case (1 n u)
  have "unat u \<le> 2 ^ 64 - 1" using unsigned_less [of u, where 'a = nat] by simp
  then show ?case using talked_refl [of "dev s"] by (intro exI [of _ "dev s"]) (simp add: retm_def usable_sum_def min_absorb2)
next
  case (2 r rs n u)
  let ?u = "if is_usable r then saturating_add u (region_length r) else u"
  obtain d where d: "out_fmt (region_line r) s = Inr ((), s\<lparr>dev := d\<rparr>)" "talked (region_line r) (dev s) d"
    using talks_at [OF talks_out(1)] by blast
  obtain e where e: "log_regions rs (n + 1) ?u (s\<lparr>dev := d\<rparr>) =
      Inr ((n + 1 + of_nat (length rs), of_nat (min (2 ^ 64 - 1) (unat ?u + usable_sum rs))), s\<lparr>dev := e\<rparr>)"
    "talked (concat (map region_line rs)) d e"
    using "2.IH" [OF refl refl, of "s\<lparr>dev := d\<rparr>"] by auto
  have "min (2 ^ 64 - 1) (unat ?u + usable_sum rs) = min (2 ^ 64 - 1) (unat u + usable_sum (r # rs))"
    by (simp add: unat_saturating_add usable_sum_def min_def)
  then show ?case using d e talked_trans [OF d(2) e(2)] by (auto simp: Let_def thenm_def bindm_def ac_simps)
qed

definition map_report :: "MemoryMapEntry list \<Rightarrow> bytes" where
  "map_report rs =
     concat (map region_line rs) @ str_bytes ''[mem] usable: '' @ dec_digits (min (2 ^ 64 - 1) (usable_sum rs) div 1024) @
     str_bytes '' KiB across '' @ fmt_dec (of_nat (length rs) :: u64) @ str_bytes '' entries'' @ CRLF"

lemma talks_kmsg: "talks (kmsg m) []"
proof -
  have "talked [] d (d\<lparr>xio := outb_all 0xE9 bs (xio d)\<rparr>)" for d bs
    unfolding talked_def
    by (intro exI [of _ "outb_all 0xE9 bs (xio d)"] exI [of _ "con d"])
      (simp add: with_cr_def same_outside_refl com1_sent_def COM1_BASE_def io_simps)
  then show ?thesis by (auto simp: talks_def kmsg_def debug_out_def lift_x_def upd_def)
qed

lemma log_memory_map_report:
  "\<exists>d. log_memory_map boot s = Inr ((), s\<lparr>dev := d\<rparr>) \<and> talked (map_report (iter_entries (ram (dev s)) (memory_map boot))) (dev s) d"
proof -
  let ?rs = "iter_entries (ram (dev s)) (memory_map boot)" and ?u = "of_nat (min (2 ^ 64 - 1) (usable_sum (iter_entries (ram (dev s)) (memory_map boot)))) :: u64"
  let ?tail = "thenm (out_fmt (str_bytes ''[mem] usable: '' @ fmt_dec (?u div 1024) @ str_bytes '' KiB across '' @ fmt_dec (of_nat (length ?rs) :: u64) @
             str_bytes '' entries'' @ CRLF)) (kmsg ''kmain: memmap done'')"
  obtain d where d: "kmsg ''kmain: memmap'' s = Inr ((), s\<lparr>dev := d\<rparr>)" "talked [] (dev s) d" using talks_at [OF talks_kmsg] by blast
  have rs: "iter_entries (ram d) (memory_map boot) = ?rs" using d(2) by (auto simp: talked_def)
  obtain e where e: "log_regions ?rs 0 0 (s\<lparr>dev := d\<rparr>) = Inr ((of_nat (length ?rs), ?u), s\<lparr>dev := e\<rparr>)" "talked (concat (map region_line ?rs)) d e"
    using log_regions_totals [of ?rs 0 0 "s\<lparr>dev := d\<rparr>"] by auto
  have t: "talks ?tail (str_bytes ''[mem] usable: '' @ fmt_dec (?u div 1024) @ str_bytes '' KiB across '' @
      fmt_dec (of_nat (length ?rs) :: u64) @ str_bytes '' entries'' @ CRLF)"
    by (rule talks_text, (rule talks_then talks_out talks_kmsg)+) simp
  obtain g where g: "?tail (s\<lparr>dev := e\<rparr>) = Inr ((), s\<lparr>dev := g\<rparr>)" "talked (str_bytes ''[mem] usable: '' @ fmt_dec (?u div 1024) @ str_bytes '' KiB across '' @
      fmt_dec (of_nat (length ?rs) :: u64) @ str_bytes '' entries'' @ CRLF) e g"
    using talks_at [OF t, of "s\<lparr>dev := e\<rparr>"] by auto
  have "unat (?u div 1024) = min (2 ^ 64 - 1) (usable_sum ?rs) div 1024"
    by (simp add: unat_div unat_of_nat)
  then have "talked (map_report ?rs) (dev s) g"
    using talked_trans [OF d(2) talked_trans [OF e(2) g(2)]] by (simp add: map_report_def fmt_dec_def)
  moreover have "log_memory_map boot s = Inr ((), s\<lparr>dev := g\<rparr>)"
    using d(1) e(1) g(1) rs by (simp add: log_memory_map_def thenm_def bindm_def getm_def Let_def)
  ultimately show ?thesis by blast
qed

lemma smooth_report: "smooth (log_memory_map boot)"
  unfolding smooth_def using log_memory_map_report by blast

section \<open>The default boot\<close>

lemma smooth_k_on: "smooth f \<Longrightarrow> smooth_k (on_k f) id"
proof -
  assume f: "smooth f"
  show ?thesis unfolding smooth_k_def
  proof
    fix k :: kernel
    obtain d where "f (km k) = Inr ((), (km k)\<lparr>dev := d\<rparr>)" using f unfolding smooth_def by blast
    then show "\<exists>d. on_k f k = Inr (k\<lparr>km := (km k)\<lparr>dev := d\<rparr>, proc := id (proc k)\<rparr>)" by (auto simp: on_k_def)
  qed
qed

lemma smooth_k_cpu: "smooth_k (on_cpu g) g"
  unfolding smooth_k_def on_cpu_def by (intro allI, rule_tac x = "dev (km k)" in exI) simp

lemma smooth_k_none: "smooth_k Inr id"
  unfolding smooth_k_def by (intro allI, rule_tac x = "dev (km k)" in exI) simp

lemma smooth_k_skip: "smooth_k (when_k False f) id"
  by (simp add: when_k_def smooth_k_none)

lemma smooth_seqk: "list_all2 smooth_k fs gs \<Longrightarrow> smooth_k (seqk fs) (in_turn gs)"
proof (induction fs gs rule: list_all2_induct)
  case Nil
  then show ?case unfolding smooth_k_def by (intro allI, rule_tac x = "dev (km k)" in exI) (simp add: in_turn_def)
next
  case (Cons f fs g gs)
  show ?case unfolding smooth_k_def
  proof
    fix k :: kernel
    obtain d where d: "f k = Inr (k\<lparr>km := (km k)\<lparr>dev := d\<rparr>, proc := g (proc k)\<rparr>)"
      using Cons(1) unfolding smooth_k_def by blast
    let ?k = "k\<lparr>km := (km k)\<lparr>dev := d\<rparr>, proc := g (proc k)\<rparr>"
    obtain e where "seqk fs ?k = Inr (?k\<lparr>km := (km ?k)\<lparr>dev := e\<rparr>, proc := in_turn gs (proc ?k)\<rparr>)"
      using Cons(3) unfolding smooth_k_def by blast
    then show "\<exists>d. seqk (f # fs) k = Inr (k\<lparr>km := (km k)\<lparr>dev := d\<rparr>, proc := in_turn (g # gs) (proc k)\<rparr>)"
      using d by (auto simp: in_turn_def)
  qed
qed

lemma seqk_append: "seqk (fs @ gs) k = (case seqk fs k of Inl e \<Rightarrow> Inl e | Inr k' \<Rightarrow> seqk gs k')"
  by (induction fs arbitrary: k) (auto split: sum.split)

lemma seqk_around:
  "seqk (fs @ f # gs) k = (case seqk fs k of Inl e \<Rightarrow> Inl e | Inr k' \<Rightarrow> (case f k' of Inl e \<Rightarrow> Inl e | Inr k' \<Rightarrow> seqk gs k'))"
  by (simp add: seqk_append split: sum.split)

lemma kernel_swap: "k\<lparr>proc := l, km := m\<rparr> = k\<lparr>km := m, proc := l\<rparr>"
  by simp

text \<open>What the whole sequence does to the processor, and what each of its steps does.\<close>

definition boot_proc :: "processor \<Rightarrow> processor" where
  "boot_proc p = interrupts_enable (pic_start (idt_load (gdt_start p)))"

definition head_procs :: "(processor \<Rightarrow> processor) list" where
  "head_procs = [id, gdt_start, id, id, id, id, idt_load, id, id, id, id, id, id, id, id, id, id, id, id, pic_start, id, id, id, id]"

definition tail_procs :: "(processor \<Rightarrow> processor) list" where
  "tail_procs = [id, interrupts_enable, id, id, id, id, id]"

lemmas smooth_steps = smooth_k_on smooth_k_cpu smooth_k_skip smooth_k_none smooth_lift smooth_start smooth_pmm smooth_report smooth_talks [OF talks_out(2)]
  smooth_talks [OF talks_vga(1)]

lemma shell_start_smooth: "smooth shell_start"
  unfolding shell_start_def prompt_def by (intro smooth_then smooth_talks [OF talks_out(2)] smooth_start)

lemma default_boot_steps:
  "\<exists>d. (case log_usb_controllers cfg d of
      Inl e \<Rightarrow> kernel_boot default_features acfg cfg boot k = Inl (Failed e)
    | Inr (_, d') \<Rightarrow> \<exists>d''. kernel_boot default_features acfg cfg boot k =
        Inr (k\<lparr>km := (km k)\<lparr>dev := d''\<rparr>, proc := boot_proc (proc k)\<rparr>))"
proof -
  let ?ft = default_features
  define pre where "pre = boot_head ?ft acfg boot @ [on_k (pmm_start boot), on_k (log_memory_map boot)]"
  define post where "post = boot_tail ?ft acfg"
  have ft: "ai_agent ?ft = False" "qemu_exit ?ft = False" "breakpoint_feature ?ft = Inr"
    by (simp_all add: default_features_def breakpoint_feature_def)
  have boot: "kernel_boot ?ft acfg cfg boot = seqk (pre @ on_k (lift_x (log_usb_controllers cfg)) # post)"
    unfolding kernel_boot_def boot_sequence_def pre_def post_def by simp
  let ?mid = "pic_start (idt_load (gdt_start (proc k)))"
  have "smooth_k (seqk pre) (in_turn head_procs)"
    unfolding pre_def boot_head_def append_Cons append_Nil ft head_procs_def
    by (rule smooth_seqk) (simp only: list_all2_Cons list_all2_Nil, intro conjI TrueI refl smooth_steps)
  then obtain d where pre: "seqk pre k = Inr (k\<lparr>km := (km k)\<lparr>dev := d\<rparr>, proc := ?mid\<rparr>)"
    unfolding smooth_k_def by (auto simp: in_turn_def head_procs_def)
  have post: "smooth_k (seqk post) (in_turn tail_procs)"
    unfolding post_def boot_tail_def ft tail_procs_def
    by (rule smooth_seqk) (simp only: list_all2_Cons list_all2_Nil, intro conjI TrueI refl smooth_steps shell_start_smooth)
  have split: "kernel_boot ?ft acfg cfg boot k = (case log_usb_controllers cfg d of Inl e \<Rightarrow> Inl (Failed e)
      | Inr (_, d') \<Rightarrow> seqk post (k\<lparr>km := (km k)\<lparr>dev := d'\<rparr>, proc := ?mid\<rparr>))"
    unfolding boot seqk_around pre by (simp add: on_k_def lift_x_def kernel_swap split: sum.split)
  have "\<exists>e. seqk post (k\<lparr>km := (km k)\<lparr>dev := d'\<rparr>, proc := ?mid\<rparr>) =
      Inr (k\<lparr>km := (km k)\<lparr>dev := e\<rparr>, proc := boot_proc (proc k)\<rparr>)" for d'
    using post [unfolded smooth_k_def, rule_format, of "k\<lparr>km := (km k)\<lparr>dev := d'\<rparr>, proc := ?mid\<rparr>"]
    by (simp add: boot_proc_def in_turn_def tail_procs_def)
  then show ?thesis unfolding split by (intro exI [of _ d]) (auto split: sum.split)
qed

section \<open>The processor during the boot, with any features\<close>

text \<open>\<open>proc_does f g\<close>: when \<open>f\<close> returns it has changed the processor by \<open>g\<close>.\<close>

definition proc_does :: "kop \<Rightarrow> (processor \<Rightarrow> processor) \<Rightarrow> bool" where
  "proc_does f g \<longleftrightarrow> (\<forall>k k'. f k = Inr k' \<longrightarrow> proc k' = g (proc k))"

lemma proc_on: "proc_does (on_k f) id"
  by (auto simp: proc_does_def on_k_def split: sum.splits)

lemma proc_cpu: "proc_does (on_cpu g) g"
  by (auto simp: proc_does_def on_cpu_def)

lemma proc_when: "proc_does f id \<Longrightarrow> proc_does (when_k b f) id"
  by (auto simp: proc_does_def when_k_def)

lemma proc_breakpoint: "proc_does (breakpoint_feature ft) id"
  by (auto simp: proc_does_def breakpoint_feature_def int3_def Let_def split: option.splits handled.splits)

lemma proc_seqk: "list_all2 proc_does fs gs \<Longrightarrow> proc_does (seqk fs) (in_turn gs)"
proof (induction fs gs rule: list_all2_induct)
  case (Cons f fs g gs)
  then show ?case unfolding proc_does_def by (auto simp: in_turn_def split: sum.splits)
qed (simp add: proc_does_def in_turn_def)

lemma boot_procs: "list_all2 proc_does (boot_sequence ft acfg cfg boot) (head_procs @ [id] @ tail_procs)"
  unfolding boot_sequence_def boot_head_def boot_tail_def head_procs_def tail_procs_def append_Cons append_Nil
  by (simp only: list_all2_Cons list_all2_Nil, intro conjI TrueI refl proc_when proc_on proc_cpu proc_breakpoint)

text \<open>After any number of steps: interrupts are on exactly behind the step that enables them, which comes
  after the tables and the interrupt controllers; the tables are loaded from the load of the interrupt
  table on.\<close>

lemma in_turn_append: "in_turn (gs @ hs) p = in_turn hs (in_turn gs p)"
  by (simp add: in_turn_def)

lemma in_turn_ids: "set gs \<subseteq> {id} \<Longrightarrow> in_turn gs p = p"
  by (induction gs arbitrary: p) (auto simp: in_turn_def)

lemma in_turn_keeps: "(\<And>g p. g \<in> set gs \<Longrightarrow> Q p \<Longrightarrow> Q (g p)) \<Longrightarrow> Q p \<Longrightarrow> Q (in_turn gs p)"
  by (induction gs arbitrary: p) (auto simp: in_turn_def)

lemma boot_state_at:
  assumes "at_power_on (proc k)" "seqk (take n (boot_sequence ft acfg cfg boot)) k = Inr k'"
  shows "interrupts_on (proc k') \<longleftrightarrow> 26 < n" "6 < n \<Longrightarrow> tables_loaded (proc k')" "26 < n \<Longrightarrow> proc k' = boot_proc (proc k)"
proof -
  let ?gs = "head_procs @ [id] @ tail_procs" and ?p = "proc k"
  have p: "proc k' = in_turn (take n ?gs) ?p"
    using proc_seqk [OF list_all2_takeI [OF boot_procs]] assms(2) unfolding proc_does_def by blast
  have all: "in_turn (take 27 ?gs) ?p = boot_proc ?p"
    by (simp add: in_turn_def head_procs_def tail_procs_def boot_proc_def eval_nat_numeral)
  have ids: "set (take m (drop 27 ?gs)) \<subseteq> {id}" for m
    by (rule order_trans [OF set_take_subset]) (simp add: head_procs_def tail_procs_def eval_nat_numeral)
  show late: "proc k' = boot_proc ?p" if "26 < n"
  proof -
    have "take n ?gs = take 27 ?gs @ take (n - 27) (drop 27 ?gs)" using that take_add [of 27 "n - 27" ?gs] by simp
    then show ?thesis unfolding p by (simp only: in_turn_append all in_turn_ids [OF ids])
  qed
  have off: "\<not> interrupts_on (proc k')" if "n \<le> 26"
  proof -
    have t: "take n ?gs = take n (take 26 ?gs)" using that by (simp add: min_absorb1 del: take_append)
    have s: "set (take 26 ?gs) \<subseteq> {id, gdt_start, idt_load, pic_start}"
      by (simp add: head_procs_def tail_procs_def eval_nat_numeral)
    have "set (take n ?gs) \<subseteq> {id, gdt_start, idt_load, pic_start}"
      by (subst t) (rule order_trans [OF set_take_subset s])
    then show ?thesis unfolding p
      by (intro in_turn_keeps [where Q = "\<lambda>p. \<not> interrupts_on p"])
        (use assms(1) in \<open>auto simp: gdt_start_def idt_load_def pic_start_def at_power_on_def Let_def\<close>)
  qed
  have "interrupts_on (boot_proc ?p)" by (simp add: boot_proc_def interrupts_enable_def)
  then show "interrupts_on (proc k') \<longleftrightarrow> 26 < n" using late off by (cases "26 < n") auto
  show "tables_loaded (proc k')" if "6 < n"
  proof -
    have "take n ?gs = take 7 ?gs @ take (n - 7) (drop 7 ?gs)" using that take_add [of 7 "n - 7" ?gs] by simp
    moreover have "in_turn (take 7 ?gs) ?p = idt_load (gdt_start ?p)"
      by (simp add: in_turn_def head_procs_def eval_nat_numeral)
    moreover have "set (take (n - 7) (drop 7 ?gs)) \<subseteq> {id, pic_start, interrupts_enable}"
      by (rule order_trans [OF set_take_subset]) (simp add: head_procs_def tail_procs_def eval_nat_numeral)
    ultimately show ?thesis unfolding p in_turn_append [symmetric]
      using tables_load [OF assms(1)] tables_kept
      by (simp only: in_turn_append, intro in_turn_keeps [where Q = tables_loaded]) auto
  qed
qed

text \<open>The breakpoint halts the processor after its report; the boot never goes past it.\<close>

lemma int3_halts:
  assumes "tables_loaded (proc k)"
  shows "\<exists>i. int3 f k = Inl (Halted ((km k)\<lparr>dev := (dev (km k))\<lparr>xio := i\<rparr>\<rparr>)) \<and>
     com1_sent i = com1_sent (xio (dev (km k))) @ (if INITIALIZED (xio (dev (km k))) then with_cr (exception_message breakpoint f) else [])"
proof -
  let ?s = "cpu_view (km k)"
  obtain h i where h: "(breakpoint, h) \<in> set exception_gates" "idt_init (Field breakpoint) = Some \<lparr>handler = h, stack_index = i, privilege_level = 0\<rparr>"
    using idt_exception by blast
  then have "enter_gate (Field breakpoint) f (proc k) ?s = run_gate h f ?s"
    by (simp add: loaded_gate [OF assms] deliver_def)
  moreover have "\<not> blocked ?s" by (simp add: blocked_def cpu_view_def)
  ultimately show ?thesis
    using run_exception_gate [OF h(1), where f = f and s = ?s] exception_message_gate [OF h(1), of f]
    by (auto simp: int3_def cpu_view_def Let_def)
qed

lemma breakpoint_build_never_returns:
  assumes "trigger_breakpoint ft = Some f" "at_power_on (proc k)"
  shows "kernel_boot ft acfg cfg boot k \<noteq> Inr k'"
proof
  let ?b = "boot_sequence ft acfg cfg boot"
  assume r: "kernel_boot ft acfg cfg boot k = Inr k'"
  have split: "?b = take 30 ?b @ breakpoint_feature ft # [when_k (qemu_exit ft) (on_k (exit_machine 0))]"
    by (simp add: boot_sequence_def boot_head_def boot_tail_def)
  then have "seqk (take 30 ?b @ breakpoint_feature ft # [when_k (qemu_exit ft) (on_k (exit_machine 0))]) k = Inr k'"
    using r unfolding kernel_boot_def by simp
  then obtain k1 k2 where k1: "seqk (take 30 ?b) k = Inr k1" "breakpoint_feature ft k1 = Inr k2"
    unfolding seqk_around by (auto split: sum.splits)
  have "tables_loaded (proc k1)" by (rule boot_state_at(2) [OF assms(2) k1(1)]) simp
  from int3_halts [OF this, of f] k1(2) assms(1) show False by (auto simp: breakpoint_feature_def)
qed

section \<open>Properties\<close>

text \<open>A machine without PCI functions.\<close>

lemma no_vendor: "\<not> has_function example_cfg a"
  by (simp add: has_function_def vendor_id_def pci_read_u16_def pci_read_u32_def example_cfg_def)

lemma no_controllers: "\<exists>d'. log_usb_controllers example_cfg d = Inr ((), d')"
proof -
  have "pci_functions example_cfg = []" by (simp add: pci_functions_def present_def no_vendor)
  then have "find_usb_controllers example_cfg (on_usb example_cfg) st = st" for st
    by (simp add: find_usb_controllers_def pci_enumerate_fold)
  then show ?thesis
    by (simp add: log_usb_controllers_def thenx_def bindx_def debug_out_def upd_def say_def log_str_def)
qed

definition example_proc :: processor where
  "example_proc = \<lparr>crate = example_x86, df_stack = 0x10000, kernel_stack = 0x20000, segs = \<lparr>GDT = None, TSS = None, loads = []\<rparr>,
     IDT = None, idtr = None, pics = [], interrupts_on = False\<rparr>"

definition example_chips :: pic_chips where
  "example_chips = \<lparr>line_masked = (\<lambda>cs line. case last cs of PicWriteMasks a b \<Rightarrow> if line < 8 then bit a line else bit b (line - 8) | _ \<Rightarrow> True),
     line_vector = (\<lambda>cs line. if line < 8 then 32 + line else 40 + (line - 8))\<rparr>"

definition example_kernel :: kernel where
  "example_kernel = \<lparr>km = example_mach, proc = example_proc\<rparr>"

definition example_boot_info :: BootInfo where
  "example_boot_info = \<lparr>memory_map_ptr = 0x1000, memory_map_len = 0, memory_map_entry_size = 24, initrd_base = 0, initrd_len = 0\<rparr>"

lemma example_boots:
  "\<exists>d. kernel_boot default_features cfg_default example_cfg boot example_kernel =
     Inr \<lparr>km = example_mach\<lparr>dev := d\<rparr>, proc = boot_proc example_proc\<rparr>"
proof -
  obtain d where "case log_usb_controllers example_cfg d of
      Inl e \<Rightarrow> kernel_boot default_features cfg_default example_cfg boot example_kernel = Inl (Failed e)
    | Inr (_, d') \<Rightarrow> \<exists>d''. kernel_boot default_features cfg_default example_cfg boot example_kernel =
        Inr (example_kernel\<lparr>km := (km example_kernel)\<lparr>dev := d''\<rparr>, proc := boot_proc (proc example_kernel)\<rparr>)"
    using default_boot_steps by blast
  moreover obtain d' where "log_usb_controllers example_cfg d = Inr ((), d')" using no_controllers by blast
  ultimately show ?thesis by (simp add: example_kernel_def)
qed

text \<open>C30: the processor during the boot. Whatever features the kernel is built with, after any number of steps
  of the boot sequence: a request of one of the 16 interrupt lines stays pending up to the step that
  enables interrupts, and behind it the timer's and the keyboard's request run their handlers and the
  other lines stay masked; no request ever meets a missing table, gate, code segment or vector. From the
  load of the interrupt table on every exception enters the gate the kernel installed for it, and the
  double fault has its own stack in the task state segment.\<close>

theorem interrupts_enabled_after_tables:
  assumes "at_power_on (proc k)" and "pic8259 P" and "line < 16"
    and "seqk (take n (boot_sequence ft acfg cfg boot)) k = Inr k'"
  shows "take_interrupt P line f (proc k') (cpu_view (km k')) =
      (if n \<le> 26 then None
       else if line = 0 then Some (run_gate TimerGate f (cpu_view (km k')))
       else if line = 1 then Some (run_gate KeyboardGate f (cpu_view (km k')))
       else None) \<and>
    (6 < n \<longrightarrow> enter_gate (Field e) f (proc k') c = deliver (Field e) f c \<and> enter_gate (Field e) f (proc k') c \<noteq> NoGate \<and>
      (\<exists>t d i. TSS (segs (proc k')) = Some t \<and> idt_init (Field double_fault) = Some d \<and> stack_index d = Some i \<and>
        interrupt_stack_table t ! unat i = df_stack (proc k') + 4096))"
proof (intro conjI impI)
  note at = boot_state_at [OF assms(1,4)]
  show "take_interrupt P line f (proc k') (cpu_view (km k')) =
      (if n \<le> 26 then None
       else if line = 0 then Some (run_gate TimerGate f (cpu_view (km k')))
       else if line = 1 then Some (run_gate KeyboardGate f (cpu_view (km k')))
       else None)"
  proof (cases "n \<le> 26")
    case True
    then show ?thesis using at(1) by (simp add: take_interrupt_def)
  next
    case False
    have "pics (proc k') = pic_init (pics (proc k))"
      using at(3) False by (simp add: boot_proc_def interrupts_enable_def pic_start_def idt_load_def gdt_start_def Let_def)
    with take_requests [OF assms(2) at(2) this _ assms(3)] at(1) False show ?thesis by simp
  qed
  assume "6 < n"
  then have loaded: "tables_loaded (proc k')" by (rule at(2))
  show "enter_gate (Field e) f (proc k') c = deliver (Field e) f c" by (rule loaded_gate [OF loaded])
  show "enter_gate (Field e) f (proc k') c \<noteq> NoGate"
    unfolding loaded_gate [OF loaded] by (rule exception_has_gate)
  obtain d where "idt_init (Field double_fault) = Some d" "stack_index d = Some DOUBLE_FAULT_IST_INDEX"
    using idt_exception [of double_fault] by auto
  then show "\<exists>t d i. TSS (segs (proc k')) = Some t \<and> idt_init (Field double_fault) = Some d \<and> stack_index d = Some i \<and>
      interrupt_stack_table t ! unat i = df_stack (proc k') + 4096"
    using loaded by (auto simp: tables_loaded_def init_tss_def TaskStateSegment_new_def DOUBLE_FAULT_IST_INDEX_def
        DOUBLE_FAULT_STACK_SIZE_def Let_def)
qed

theorem interrupts_enabled_after_tables_witness:
  "\<exists>k'. kernel_boot default_features cfg_default example_cfg example_boot_info example_kernel = Inr k' \<and>
     take_interrupt example_chips 1 example_frame (proc k') (cpu_view (km k')) = Some (run_gate KeyboardGate example_frame (cpu_view (km k'))) \<and>
     take_interrupt example_chips 1 example_frame (proc example_kernel) (cpu_view (km example_kernel)) = None"
proof -
  let ?b = "boot_sequence default_features cfg_default example_cfg example_boot_info"
  obtain k' where r: "kernel_boot default_features cfg_default example_cfg example_boot_info example_kernel = Inr k'"
    using example_boots by blast
  have "length ?b = 32" by (simp add: boot_sequence_def boot_head_def boot_tail_def)
  then have s: "seqk (take 32 ?b) example_kernel = Inr k'" "seqk (take 0 ?b) example_kernel = Inr example_kernel"
    using r by (simp_all add: kernel_boot_def)
  have p: "at_power_on (proc example_kernel)" by (simp add: at_power_on_def example_kernel_def example_proc_def)
  have c: "pic8259 example_chips" by (simp add: pic8259_def example_chips_def PIC_1_OFFSET_def PIC_2_OFFSET_def)
  from interrupts_enabled_after_tables [OF p c _ s(1), where line = 1 and f = example_frame]
    interrupts_enabled_after_tables [OF p c _ s(2), where line = 1 and f = example_frame]
  show ?thesis using r by simp
qed

text \<open>the memory report. For every memory map it returns, having changed only what the consoles
  received: one line per entry of the map, in order, and a summary whose count is the number of
  entries and whose kibibytes are the exact sum of the usable regions' lengths, capped at the largest
  64-bit number, divided by 1024 and rounded down.\<close>

theorem memory_report_exact:
  "\<exists>i c. log_memory_map boot s = Inr ((), s\<lparr>dev := (dev s)\<lparr>xio := i, con := c\<rparr>\<rparr>) \<and>
     com1_sent i = com1_sent (xio (dev s)) @
       (if INITIALIZED (xio (dev s)) then with_cr (map_report (iter_entries (ram (dev s)) (memory_map boot))) else [])"
  using log_memory_map_report [of boot s] unfolding talked_def by blast

end
