(* ===== verification/Usb_Memory.thy ===== *)
theory Usb_Memory
  imports Usb_Probe
begin

text \<open>
  Where the USB driver writes. An arena is a range of physical addresses with the memory and the screen
  as they were at the start. The invariant \<open>confined\<close> says that the allocator hands out blocks of the arena
  only, that the rings and contexts of the installed controller lie inside it, and that outside it no byte
  has changed; every operation of the driver, up to the whole bring-up and the polling of the main loop,
  keeps it, provided the controller's own accesses to memory stay inside the arena too.
\<close>

section \<open>Blocks of an arena\<close>

record arena =
  lower :: nat
  upper :: nat
  mem0 :: mem
  con0 :: Console

definition arena_of :: "arena \<Rightarrow> u64 set" where
  "arena_of A = {x. lower A \<le> unat x \<and> unat x < upper A}"

definition inside :: "arena \<Rightarrow> u64 \<Rightarrow> nat \<Rightarrow> bool" where
  "inside A a n \<longleftrightarrow> lower A \<le> unat a \<and> unat a + n \<le> upper A \<and> upper A \<le> 2 ^ 63"

definition writes_in :: "arena \<Rightarrow> (mem \<Rightarrow> mem) \<Rightarrow> bool" where
  "writes_in A f \<longleftrightarrow> (\<forall>m x. x \<notin> arena_of A \<longrightarrow> f m x = m x)"

lemma block_in_arena:
  assumes "inside A a n" "k + j \<le> n"
  shows "region (a + of_nat k) j \<subseteq> arena_of A"
proof
  fix x assume "x \<in> region (a + of_nat k) j"
  then have d: "unat (x - (a + of_nat k)) < j" by (simp add: region_def)
  have k: "unat (of_nat k :: u64) = k"
    using assms by (simp only: unat_of_nat) (simp add: inside_def take_bit_nat_eq_self)
  have ak: "unat (a + of_nat k) = unat a + k"
    using assms k unat_add_no_wrap [of a "of_nat k"] by (simp add: inside_def)
  have "unat (a + of_nat k) + unat (x - (a + of_nat k)) < 2 ^ LENGTH(64)"
    using assms d ak by (simp add: inside_def)
  from unat_add_no_wrap [OF this] have "unat x = unat a + k + unat (x - (a + of_nat k))" using ak by simp
  then show "x \<in> arena_of A" using assms d by (simp add: arena_of_def inside_def)
qed

named_theorems block_writes \<open>writes that stay inside a block of the arena\<close>

lemma writes_bytes [block_writes]: "inside A a n \<Longrightarrow> k + length bs \<le> n \<Longrightarrow> writes_in A (\<lambda>m. write_bytes m (a + of_nat k) bs)"
  unfolding writes_in_def using block_in_arena [of A a n k "length bs"] read_other_byte by blast

lemma writes_bytes0 [block_writes]: "inside A a n \<Longrightarrow> length bs \<le> n \<Longrightarrow> writes_in A (\<lambda>m. write_bytes m a bs)"
  using writes_bytes [of A a n 0 bs] by simp

lemma writes_trb [block_writes]: "inside A a n \<Longrightarrow> 16 * i + 16 \<le> n \<Longrightarrow> writes_in A (write_trb a i t)"
  using writes_bytes [of A a n "16 * i" "trb_bytes t"] by (simp add: write_trb_def [abs_def] trb_addr_def TRB_SIZE_def)

lemma writes_trbs [block_writes]: "inside A a n \<Longrightarrow> 16 * l \<le> n \<Longrightarrow> writes_in A (zero_trbs a l)"
proof (induction l)
  case (Suc l)
  have "writes_in A (write_trb a l Trb_default)" using Suc.prems by (intro writes_trb [of A a n]) auto
  then show ?case using Suc by (simp add: writes_in_def zero_trbs_def)
qed (simp add: writes_in_def zero_trbs_def)

lemma writes_link [block_writes]: "inside A a n \<Longrightarrow> 16 * l \<le> n \<Longrightarrow> writes_in A (init_link_trb a l b tg)"
proof (cases l)
  case (Suc k)
  assume "inside A a n" "16 * l \<le> n"
  then have "writes_in A (write_trb a k t)" for t using Suc by (intro writes_trb [of A a n]) auto
  then show ?thesis using Suc by (simp add: writes_in_def init_link_trb_def Let_def)
qed (simp add: writes_in_def init_link_trb_def)

lemma writes_erst [block_writes]: "inside A a n \<Longrightarrow> 16 \<le> n \<Longrightarrow> writes_in A (write_erst a e)" "inside A a n \<Longrightarrow> 16 \<le> n \<Longrightarrow> writes_in A (zero_erst a)"
  unfolding zero_erst_def [abs_def] write_erst_def [abs_def] by (rule writes_bytes0; simp)+

section \<open>The invariant\<close>

definition rings_in :: "arena \<Rightarrow> ControllerState \<Rightarrow> bool" where
  "rings_in A c \<longleftrightarrow> inside A (command_ring_phys c) 4096 \<and> inside A (dcbaa_phys c) ((unat (max_slots (info c)) + 1) * 8) \<and>
     (ep0_ring_len c = 64 \<longrightarrow> inside A (ep0_ring_phys c) 1024) \<and> (intr_ring_len c = 128 \<longrightarrow> inside A (intr_ring_phys c) 2048)"

definition placed :: "arena \<Rightarrow> ControllerState \<Rightarrow> bool" where
  "placed A c \<longleftrightarrow> state_ok c \<and> rings_in A c"

definition pmm_in :: "arena \<Rightarrow> pmm \<Rightarrow> bool" where
  "pmm_in A p \<longleftrightarrow> unat (LIMIT p) \<le> upper A \<and> upper A \<le> 2 ^ 63 \<and> (NEXT_FREE p = 0 \<or> lower A \<le> unat (NEXT_FREE p))"

definition confined :: "arena \<Rightarrow> xsys \<Rightarrow> bool" where
  "confined A s \<longleftrightarrow> pmm_in A (xpmm s) \<and> (\<forall>x. x \<notin> arena_of A \<longrightarrow> ram s x = mem0 A x) \<and> (\<forall>n. writes_in A (dma_tape s n)) \<and>
     console_ok (con s) \<and> same_outside (con0 A) (con s) \<and> (\<forall>c. ctl s = Some c \<longrightarrow> placed A c)"

abbreviation tame :: "arena \<Rightarrow> 'a xm \<Rightarrow> bool" where
  "tame A f \<equiv> guards (confined A) (\<lambda>_ _. True) f"

interpretation confined: contract "confined A" "\<lambda>_ _. True" for A
  by unfold_locales (auto simp: confined_def)

lemma alloc_in_arena:
  assumes "pmm_in A p" "alloc_aligned sz 64 p = (r, p')" "unat sz \<le> 2 ^ 63"
  shows "pmm_in A p' \<and> (\<forall>a. r = Some a \<longrightarrow> inside A a (unat sz))"
proof (cases r)
  case None
  then show ?thesis using assms alloc_aligned_NoneD by blast
next
  case (Some a)
  have lim: "unat (LIMIT p) \<le> 2 ^ 63" using assms(1) by (simp add: pmm_in_def)
  note d = alloc_aligned_SomeD [OF assms(2) [unfolded Some] lim]
  have "NEXT_FREE p \<noteq> 0" using assms(2) Some by (auto simp: alloc_aligned_def alloc_attempt_def split: if_splits)
  then have low: "lower A \<le> unat (NEXT_FREE p)" using assms(1) by (simp add: pmm_in_def)
  have "unat sz \<le> unat (adj_size sz 64)" by (rule adj_size_covers(2) [OF d(1) assms(3)])
  then show ?thesis
    using d(2,5,6) low assms(1) Some alloc_aligned_LIMIT [OF assms(2)] by (auto simp: pmm_in_def inside_def)
qed

lemma alloc_or_tame:
  assumes "unat sz \<le> 2 ^ 63" "tame A f" "\<And>p. inside A p (unat sz) \<Longrightarrow> tame A (g p)"
  shows "tame A (alloc_or sz 64 f g)"
proof (rule guardsI)
  fix s a s' assume i: "confined A s" and r: "alloc_or sz 64 f g s = Inr (a, s')"
  obtain q p' where q: "alloc_aligned sz 64 (xpmm s) = (q, p')" by (cases "alloc_aligned sz 64 (xpmm s)")
  have p: "pmm_in A p' \<and> (\<forall>a. q = Some a \<longrightarrow> inside A a (unat sz))"
    using i by (intro alloc_in_arena [OF _ q assms(1)]) (simp add: confined_def)
  then have i': "confined A (s\<lparr>xpmm := p'\<rparr>)" using i by (simp add: confined_def)
  have r': "(case q of None \<Rightarrow> f | Some p \<Rightarrow> g p) (s\<lparr>xpmm := p'\<rparr>) = Inr (a, s')"
    using r q by (simp add: alloc_or_def alloc_def bindx_def)
  show "confined A s' \<and> True"
  proof (cases q)
    case None
    then show ?thesis using guardsD [OF assms(2) i'] r' by simp
  next
    case (Some b)
    then show ?thesis using guardsD [OF assms(3) i', of b] r' p by simp
  qed
qed

lemma alloc_or_nat_tame:
  "n \<le> 2 ^ 63 \<Longrightarrow> tame A f \<Longrightarrow> (\<And>p. inside A p n \<Longrightarrow> tame A (g p)) \<Longrightarrow> tame A (alloc_or (of_nat n) 64 f g)"
  by (rule alloc_or_tame) (simp_all add: unat_of_nat_u64)

lemma in_ram_tame: "writes_in A f \<Longrightarrow> tame A (in_ram f)"
  by (auto simp: guards_def in_ram_def upd_def confined_def writes_in_def)

lemma zero_phys_tame: "inside A p n \<Longrightarrow> tame A (zero_phys p n)"
  unfolding zero_phys_def by (rule in_ram_tame) (simp add: block_writes)

lemma write_u32_tame: "inside A p n \<Longrightarrow> 4 * k + 4 \<le> n \<Longrightarrow> tame A (write_u32 p k v)"
  unfolding write_u32_def by (rule in_ram_tame) (rule writes_bytes, assumption, simp)

lemma make_ring_tame: "inside A p (16 * l) \<Longrightarrow> tame A (make_ring p l)"
  unfolding make_ring_def by (intro confined.then_ok in_ram_tame) (auto intro: block_writes)

lemma write_reg_tame: "tame A (write_reg a v)"
  by (auto simp: guards_def write_reg_def upd_def confined_def)

lemma debug_out_tame: "tame A (debug_out msg)"
  by (auto simp: guards_def debug_out_def upd_def confined_def)

lemma call_once_tame: "placed A c \<Longrightarrow> tame A (call_once c)"
  by (auto simp: guards_def call_once_def upd_def confined_def split: option.splits)

lemma bind_value_tame:
  "tame A f \<Longrightarrow> (\<And>s a s'. confined A s \<Longrightarrow> f s = Inr (a, s') \<Longrightarrow> P a) \<Longrightarrow> (\<And>a. P a \<Longrightarrow> tame A (g a)) \<Longrightarrow> tame A (bindx f g)"
  unfolding guards_def bindx_Inr by meson

lemma case_option_tame: "tame A f \<Longrightarrow> (\<And>x. r = Some x \<Longrightarrow> tame A (g x)) \<Longrightarrow> tame A (case r of None \<Rightarrow> f | Some x \<Rightarrow> g x)"
  by (simp split: option.split)

lemma case_prod_tame: "(\<And>x y. r = (x, y) \<Longrightarrow> tame A (g x y)) \<Longrightarrow> tame A (case r of (x, y) \<Rightarrow> g x y)"
  by (simp split: prod.split)

text \<open>An operation on the controller's state under its lock.\<close>

lemma with_state_run_tame:
  assumes "\<And>c s a c' s'. placed A c \<Longrightarrow> confined A s \<Longrightarrow> ctl s = Some c \<Longrightarrow> held s \<Longrightarrow> b c s = Inr ((a, c'), s') \<Longrightarrow>
    placed A c' \<and> confined A s'"
  shows "tame A (with_state d b)"
proof (rule guardsI)
  fix s a s' assume i: "confined A s" and r: "with_state d b s = Inr (a, s')"
  show "confined A s' \<and> True"
  proof (cases "ctl s")
    case None
    then show ?thesis using r i by (simp add: with_state_def)
  next
    case (Some c)
    then obtain c' t where t: "b c (s\<lparr>held := True\<rparr>) = Inr ((a, c'), t)" "s' = t\<lparr>ctl := Some c', held := False\<rparr>"
      using with_state_InrD [OF r Some] by blast
    have "placed A c' \<and> confined A t"
      using i Some by (intro assms [OF _ _ _ _ t(1)]) (auto simp: confined_def)
    then show ?thesis using t(2) by (simp add: confined_def)
  qed
qed

lemma with_state_tame:
  assumes "\<And>c. placed A c \<Longrightarrow> tame A (b c)" "\<And>c. placed A c \<Longrightarrow> returns (\<lambda>(a, c'). placed A c') (b c)"
  shows "tame A (with_state d b)"
  by (rule with_state_run_tame) (use assms in \<open>fastforce simp: guards_def returns_def\<close>)

section \<open>The driver's operations\<close>

lemmas placed_defs = placed_def rings_in_def state_ok_def advance_def

lemma put_command_tame: "placed A c \<Longrightarrow> tame A (put_command p st ct c)"
proof -
  assume c: "placed A c"
  then have "command_ring_enqueue c mod 255 < 255" by simp
  then have "writes_in A (write_trb (command_ring_phys c) (command_ring_enqueue c mod (command_ring_len c - 1)) t)" for t
    using c by (intro writes_trb [of A _ 4096]) (auto simp: placed_defs)
  then show ?thesis unfolding put_command_def Let_def
    by (auto intro!: confined.structural in_ram_tame split: prod.split)
qed

lemma put_command_placed: "placed A c \<Longrightarrow> returns (placed A) (put_command p st ct c)"
  unfolding put_command_def Let_def
  by (auto intro!: returns_then returns_ret simp: placed_defs Let_def split: prod.split)

lemma put_intr_tame: "placed A c \<Longrightarrow> intr_ring_len c - 1 \<noteq> 0 \<Longrightarrow> tame A (put_intr t c)"
proof -
  assume c: "placed A c" "intr_ring_len c - 1 \<noteq> 0"
  then have "intr_enqueue c mod 127 < 127" by simp
  then have "writes_in A (write_trb (intr_ring_phys c) (intr_enqueue c mod (intr_ring_len c - 1)) t)" for t
    using c by (intro writes_trb [of A _ 2048]) (auto simp: placed_defs)
  then show ?thesis unfolding put_intr_def Let_def
    by (auto intro!: confined.structural in_ram_tame split: prod.split)
qed

lemma put_intr_placed: "placed A c \<Longrightarrow> intr_ring_len c - 1 \<noteq> 0 \<Longrightarrow> returns (placed A) (put_intr t c)"
  unfolding put_intr_def Let_def
  by (auto intro!: returns_then returns_ret simp: placed_defs Let_def split: prod.split)

lemma enqueue_tame: "tame A enqueue_noop_command" "tame A (enqueue_command_trb ty p st)" "tame A (enqueue_command_trb_slot ty p st k)"
  unfolding enqueue_noop_command_def enqueue_command_trb_def enqueue_command_trb_slot_def ring_unusable_def Let_def
  by (rule with_state_tame; auto intro!: confined.structural put_command_tame returns_then returns_ret returns_bind [OF put_command_placed])+

lemma ep0_enqueue_tame: "tame A (ep0_enqueue_trb t)"
  unfolding ep0_enqueue_trb_def Let_def
proof (rule with_state_tame)
  fix c assume c: "placed A c"
  have "writes_in A (write_trb (ep0_ring_phys c) (ep0_enqueue c mod (ep0_ring_len c - 1)) t)" if "ep0_ring_len c \<noteq> 0"
  proof -
    have "ep0_enqueue c mod 63 < 63" by simp
    then show ?thesis using c that by (intro writes_trb [of A _ 1024]) (auto simp: placed_defs)
  qed
  then show "tame A (if ep0_ring_len c = 0 then thenx (log_str (str_bytes ''[xhci] ep0 ring not ready'' @ CRLF)) (ret ((), c))
      else if ep0_ring_len c - 1 = 0 then ret ((), c)
      else case advance (ep0_enqueue c) (ep0_cycle c) (ep0_ring_len c - 1) of (e, cy) \<Rightarrow>
             thenx (in_ram (write_trb (ep0_ring_phys c) (ep0_enqueue c mod (ep0_ring_len c - 1)) t))
               (ret ((), c\<lparr>ep0_enqueue := e, ep0_cycle := cy\<rparr>)))"
    by (auto intro!: confined.structural in_ram_tame split: prod.split)
qed (auto intro!: returns_then returns_ret simp: placed_defs Let_def split: prod.split)

lemma transfer_tame: "tame A ep0_cycle_bit" "tame A intr_cycle_bit" "tame A (ring_doorbell k tg)" "tame A controller_info" "tame A take_completion"
  unfolding ep0_cycle_bit_def intr_cycle_bit_def ring_doorbell_def controller_info_def take_completion_def ring_db_def
  by (rule with_state_tame; auto intro!: confined.structural write_reg_tame returns_then returns_ret returns_option simp: placed_defs)+

lemma intr_enqueue_tame: "tame A (intr_enqueue_trb t)"
  unfolding intr_enqueue_trb_def
  by (rule with_state_tame; auto intro!: confined.structural put_intr_tame returns_ret returns_bind [OF put_intr_placed])

lemma handle_event_tame: "placed A c \<Longrightarrow> tame A (handle_event c ty t)"
  unfolding handle_event_def handle_completion_def handle_transfer_def handle_port_change_def portsc_def Let_def
  by (auto intro!: confined.structural simp: placed_defs)

lemma handle_event_placed: "placed A c \<Longrightarrow> returns (placed A) (handle_event c ty t)"
  unfolding handle_event_def handle_completion_def handle_transfer_def handle_port_change_def Let_def
  by (auto intro!: returns_then returns_ret simp: placed_defs)

lemma finish_event_tame: "tame A (finish_event ir c)"
  unfolding finish_event_def Let_def set_erdp_def write_reg64_def by (auto intro!: confined.structural write_reg_tame split: prod.split)

lemma finish_event_placed: "placed A c \<Longrightarrow> returns (placed A) (finish_event ir c)"
  unfolding finish_event_def Let_def
  by (auto intro!: returns_then returns_ret simp: placed_defs Let_def split: prod.split)

lemma dma_confined: "confined A s \<Longrightarrow> confined A (dma s)"
  by (auto simp: confined_def dma_def writes_in_def)

lemma poll_loop_tame:
  "poll_loop ir c p s = Some r \<Longrightarrow> placed A c \<longrightarrow> confined A s \<longrightarrow> (\<forall>q c' s'. r = Inr ((q, c'), s') \<longrightarrow> placed A c' \<and> confined A s')"
proof (induction ir c p s r rule: poll_loop.raw_induct [rotated, consumes 1, case_names step])
  case (step loop ir c p s0 r)
  let ?t = "read_trb (ram (dma s0)) (event_ring_phys c) (event_ring_dequeue c)"
  let ?b = "bindx (handle_event c (ucast (drop_bit 10 (control ?t) AND 0x3F)) ?t) (finish_event ir)"
  show ?case
  proof (intro impI allI)
    fix q c' s' assume ok: "placed A c" "confined A s0" and r: "r = Inr ((q, c'), s')"
    have b: "returns (placed A) ?b" by (rule returns_bind [OF handle_event_placed [OF ok(1)]]) (rule finish_event_placed)
    have g: "tame A ?b" by (intro confined.bind_ok handle_event_tame ok(1) finish_event_tame)
    have nx: "event_ring_dequeue c < event_ring_len c" using step(2) r by (auto simp: Let_def split: if_splits)
    show "placed A c' \<and> confined A s'"
    proof (cases "(control ?t AND 1 \<noteq> 0) = event_ring_cycle c")
      case False
      then show ?thesis using step(2) r nx ok dma_confined by (auto simp: Let_def)
    next
      case True
      then obtain c1 s1 where e: "?b (dma s0) = Inr (c1, s1)" and l: "loop ir c1 True s1 = Some r"
        using step(2) r nx by (auto simp: Let_def split: sum.splits)
      have "placed A c1" using b e by (auto simp: returns_def)
      moreover have "confined A s1" using guardsD [OF g dma_confined [OF ok(2)] e] by simp
      ultimately show ?thesis using step(1) [OF l] r by simp
    qed
  qed
qed

lemma poll_events_tame: "tame A poll_events"
  unfolding poll_events_def
proof (rule with_state_run_tame)
  fix c s a c' s'
  assume ok: "placed A c" "confined A s" and r: "(if info_base (info c) = 0 then ret (False, c)
      else (\<lambda>s. case poll_loop (interrupter_register_set (info c) 0) c False s of None \<Rightarrow> Inl Diverged | Some r \<Rightarrow> r)) s = Inr ((a, c'), s')"
  then have "poll_loop (interrupter_register_set (info c) 0) c False s = Some (Inr ((a, c'), s'))"
    by (auto simp: placed_defs split: option.splits)
  from poll_loop_tame [OF this] ok show "placed A c' \<and> confined A s'" by blast
qed

lemma await_tame:
  assumes "\<And>code c. placed A c \<Longrightarrow> tame A (fin code c)" "\<And>code c. placed A c \<Longrightarrow> returns (\<lambda>(a, c'). placed A c') (fin code c)"
  shows "tame A (await_transfer n fin d)"
proof (induction n)
  case (Suc n)
  have "tame A (with_state None (\<lambda>c. case last_transfer_code c of None \<Rightarrow> ret (None, c)
      | Some code \<Rightarrow> bindx (fin code (c\<lparr>last_transfer_code := None\<rparr>)) (\<lambda>(a, c). ret (Some a, c))))"
  proof (rule with_state_tame)
    fix c :: ControllerState assume c: "placed A c"
    then have c': "placed A (c\<lparr>last_transfer_code := None\<rparr>)" by (simp add: placed_defs)
    show "tame A (case last_transfer_code c of None \<Rightarrow> ret (None, c)
      | Some code \<Rightarrow> bindx (fin code (c\<lparr>last_transfer_code := None\<rparr>)) (\<lambda>(a, c). ret (Some a, c)))"
      by (intro confined.structural assms(1) c')
    show "returns (\<lambda>(a, c'). placed A c') (case last_transfer_code c of None \<Rightarrow> ret (None, c)
      | Some code \<Rightarrow> bindx (fin code (c\<lparr>last_transfer_code := None\<rparr>)) (\<lambda>(a, c). ret (Some a, c)))"
      using c c' by (auto intro!: returns_option returns_ret returns_bind [OF assms(2)])
  qed
  then show ?case using Suc by (auto intro!: confined.structural poll_events_tame)
qed (simp add: confined.ret_ok)

lemma completion_tame: "tame A (wait_for_command_completion n)"
  by (rule confined.completion_ok [OF poll_events_tame transfer_tame(5)])

lemmas tame_intros = confined.structural write_reg_tame enqueue_tame ep0_enqueue_tame transfer_tame intr_enqueue_tame poll_events_tame
  completion_tame

lemma find_port_tame: "tame A find_first_connected_port"
  unfolding find_first_connected_port_def by (intro tame_intros)

lemma ports_tame: "tame A report_ports" "tame A (reset_port k)" "tame A ensure_first_port_enabled"
proof -
  show "tame A report_ports" unfolding report_ports_def portsc_def by (intro tame_intros)
  show r: "tame A (reset_port k)" for k
    unfolding reset_port_def portsc_def write_portsc_def Let_def by (intro tame_intros)
  show "tame A ensure_first_port_enabled"
    unfolding ensure_first_port_enabled_def portsc_def by (intro tame_intros find_port_tame r)
qed

lemma enable_slot_tame: "tame A enable_slot"
  unfolding enable_slot_def by (intro tame_intros)

lemma context_bound: "unat (context_size i) * 32 \<le> 2 ^ 63" "unat (context_size i) * 3 \<le> 2 ^ 63"
  using context_size_cases [of i] by auto

lemma address_context_tame:
  assumes "inside A ic (ctx * 3)" "ctx = 32 \<or> ctx = 64"
  shows "tame A (fill_address_context ctx ic ep0)"
proof -
  have "tame A port_speed" unfolding port_speed_def portsc_def by (intro tame_intros find_port_tame)
  then show ?thesis unfolding fill_address_context_def Let_def
    by (intro tame_intros write_u32_tame [OF assms(1)]) (use assms(2) in auto)
qed

lemma endpoint_context_tame:
  assumes "inside A ic (ctx * (1 + 1 + unat ep_id))" "ctx = 32 \<or> ctx = 64"
  shows "tame A (fill_endpoint_context ctx ic ep_id maxp ring)"
  unfolding fill_endpoint_context_def Let_def
  by (intro tame_intros write_u32_tame [OF assms(1)]) (use assms(2) in auto)

lemma install_context_tame: "inside A dcbaa (entries * 8) \<Longrightarrow> tame A (install_context dcbaa entries slot dc)"
  unfolding install_context_def
  by (auto intro!: tame_intros in_ram_tame writes_bytes [of A dcbaa "entries * 8" "8 * unat slot", simplified])

lemma address_tame: "tame A (address_device k)"
proof -
  let ?P = "\<lambda>r. case r of None \<Rightarrow> True | Some (i, dcbaa) \<Rightarrow> inside A dcbaa ((unat (max_slots i) + 1) * 8)"
  let ?f = "with_state None (\<lambda>c. ret (Some (info c, dcbaa_phys c), c))"
  have f: "tame A ?f" by (rule with_state_tame) (auto intro!: tame_intros returns_ret)
  have v: "?P r" if "confined A s" "?f s = Inr (r, s')" for s r s'
    using that by (auto simp: with_state_def bindx_def lock_def unlock_def upd_def ret_def confined_def placed_def rings_in_def
        split: option.splits if_splits)
  have g: "tame A (with_state True (\<lambda>c. ret (True, c\<lparr>active_slot := Some k, ep0_ring_phys := ep0,
                           ep0_ring_len := 64, ep0_enqueue := 0, ep0_cycle := True\<rparr>)))" if "inside A ep0 1024" for ep0
    by (rule with_state_tame) (use that in \<open>auto intro!: tame_intros returns_ret simp: placed_defs\<close>)
  show ?thesis unfolding address_device_def Let_def
    by (rule bind_value_tame [where P = ?P, OF f v], assumption+, rule case_option_tame, rule confined.ret_ok, rule case_prod_tame,
      intro tame_intros alloc_or_nat_tame zero_phys_tame install_context_tame make_ring_tame address_context_tame context_size_cases g,
      insert context_bound, simp_all add: TRB_SIZE_def)
qed

lemma control_tame: "tame A (control_in k rt rq v i l d)" "tame A (control_no_data k rt rq v i)"
  unfolding control_in_def control_no_data_def ep0_stage_def ring_ep0_def Let_def
  by (intro tame_intros await_tame; auto intro!: tame_intros returns_then returns_ret simp: placed_defs)+

lemma descriptor_tame: "tame A (get_device_descriptor k)" "tame A (get_configuration_descriptor_header k)"
  "tame A (get_configuration_descriptor k n)" "tame A (set_configuration k v)"
  unfolding get_device_descriptor_def get_configuration_descriptor_header_def get_configuration_descriptor_def set_configuration_def
  by (intro tame_intros alloc_or_tame zero_phys_tame control_tame; use unat_ucast_u16 [of n] in simp)+

lemma configure_tame: "tame A (configure_interrupt_in_endpoint k a mp iv)"
proof -
  have g: "tame A (with_state True (\<lambda>c. ret (True, c\<lparr>intr_ep_addr := a, intr_ep_id := e,
        intr_ring_phys := ring, intr_ring_len := 128, intr_enqueue := 0, intr_cycle := True\<rparr>)))" if "inside A ring 2048" for e ring
    by (rule with_state_tame) (use that in \<open>auto intro!: tame_intros returns_ret simp: placed_defs\<close>)
  have ic: "unat (context_size i) * (1 + 1 + unat e) \<le> 2 ^ 63" for i and e :: u8
  proof -
    have "unat e < 256" using unsigned_less [of e, where 'a = nat] by simp
    then have "unat (context_size i) * (1 + 1 + unat e) \<le> 64 * 257"
      using context_size_cases [of i] by (intro mult_le_mono) auto
    then show ?thesis by simp
  qed
  show ?thesis
    unfolding configure_interrupt_in_endpoint_def Let_def
    by (intro tame_intros alloc_or_nat_tame zero_phys_tame make_ring_tame endpoint_context_tame g ic context_size_cases; simp add: TRB_SIZE_def)
qed

lemma hid_buffer_tame: "tame A (hid_buffer mp c)"
  unfolding hid_buffer_def by (intro tame_intros alloc_or_tame zero_phys_tame; use unat_ucast_u16 [of mp] in simp)

lemma start_hid_tame: "tame A (start_hid_polling k a mp)"
  unfolding start_hid_polling_def
proof (rule with_state_run_tame)
  fix c s x c' s'
  assume ok: "placed A c" "confined A s" and st: "ctl s = Some c" "held s"
    and r: "(if intr_ring_len c = 0 then ret (False, c)
       else bindx (hid_buffer mp c) (\<lambda>r. case r of None \<Rightarrow> ret (False, c)
         | Some c \<Rightarrow> if intr_ring_len c - 1 = 0 then ret (False, c)
             else bindx (put_intr \<lparr>parameter = hid_buf_phys c, status = ucast mp,
                                   control = command_control TRB_TYPE_NORMAL (intr_cycle c)\<rparr> c)
                    (\<lambda>c. thenx (ring_doorbell k (ucast (endpoint_id_from_addr a))) (ret (True, c))))) s = Inr ((x, c'), s')"
  obtain rb sb where hb: "hid_buffer mp c s = Inr (rb, sb)" using hid_buffer_Inr by blast
  have sb: "ctl sb = Some c" "held sb" "rb \<noteq> None \<Longrightarrow> intr_ring_len (the rb) = intr_ring_len c"
    using hid_buffer_cases [OF hb] st by (auto split: option.splits)
  have i: "confined A sb" using guardsD [OF hid_buffer_tame ok(2) hb] by simp
  show "placed A c' \<and> confined A s'"
  proof (cases "intr_ring_len c = 0")
    case True
    then show ?thesis using r ok by (simp add: ret_def)
  next
    case False
    then have len: "intr_ring_len c = 128" using ok(1) by (simp add: placed_defs)
    show ?thesis
      using r hb ok(1) i len sb(3) hid_post_deadlocks [OF sb(1,2)] by (cases rb) (simp_all add: bindx_def ret_def)
  qed
qed

lemma init_tame: "tame A (init_controller i)"
proof (cases "info_base i = 0")
  case True
  then show ?thesis by (simp add: init_controller_def confined.ret_ok)
next
  case False
  have st: "tame A (call_once (initial_state i a b c d))"
    if "inside A a 4096" "inside A b ((unat (max_slots i) + 1) * 8)" for a b c d
    using False that by (intro call_once_tame) (simp add: placed_defs initial_state_def CMD_RING_TRBS_def EVENT_RING_TRBS_def)
  have "unat (max_slots i) < 256" using unsigned_less [of "max_slots i", where 'a = nat] by simp
  then show ?thesis
    unfolding init_controller_def halt_and_reset_def program_registers_def announce_def Let_def
      usbcmd_def set_usbcmd_def usbsts_def clear_usbsts_def crcr_def set_crcr_def set_dcbaap_def set_config_def iman_def set_iman_def
      set_imod_def set_erstsz_def set_erstba_def set_erdp_def write_reg64_def read_reg64_def
    by (intro tame_intros alloc_or_nat_tame alloc_or_tame zero_phys_tame in_ram_tame st;
        auto intro!: block_writes simp: TRB_SIZE_def CMD_RING_TRBS_def EVENT_RING_TRBS_def)
qed

lemma probe_tame: "tame A (probe_usb cfg addr)"
proof -
  have s: "tame A (case r of Inl x \<Rightarrow> f x | Inr x \<Rightarrow> g x)"
    if "\<And>x. tame A (f x)" "\<And>x. tame A (g x)" for r :: "'x + 'y" and f :: "'x \<Rightarrow> unit xm" and g
    using that by (simp split: sum.split)
  show ?thesis
    unfolding probe_usb_def bring_up_controller_def bring_up_device_def configure_device_def find_keyboard_def start_keyboard_def say_def
      inspect_def xhci_read_def expect_def Let_def
    by (intro tame_intros s ports_tame enable_slot_tame address_tame descriptor_tame configure_tame start_hid_tame init_tame)
qed

lemma log_usb_tame: "tame A (log_usb_controllers cfg)"
  unfolding log_usb_controllers_def say_def
  by (intro confined.bind_ok confined.then_ok confined.if_ok confined.ret_ok confined.log_str_ok debug_out_tame scan_guards probe_tame) simp_all

section \<open>Property\<close>

text \<open>The USB driver writes only where the allocator gave it memory. Take a range of addresses below 2 to the 63 that
  contains everything the allocator has left and the rings of an installed controller, and a controller
  whose own accesses to memory stay in that range: whatever the PCI bus and the registers return, the
  bring-up of all controllers and the polling of events change no byte of memory and of the text screen's
  surroundings outside it, and leave the allocator and the rings inside it.\<close>

theorem usb_driver_writes_its_own_memory:
  assumes "pmm_in A (xpmm s)" and "\<forall>n. writes_in A (dma_tape s n)" and "mem0 A = ram s"
    and "console_ok (con s)" and "con0 A = con s" and "\<forall>c. ctl s = Some c \<longrightarrow> state_ok c \<and> rings_in A c"
    and "log_usb_controllers cfg s = Inr ((), s1)" and "poll_events s1 = Inr (b, s2)" and "x \<notin> arena_of A"
  shows "ram s2 x = ram s x \<and> same_outside (con s) (con s2) \<and> pmm_in A (xpmm s2) \<and> (\<forall>c. ctl s2 = Some c \<longrightarrow> state_ok c \<and> rings_in A c)"
proof -
  have "confined A s" using assms(1-6) same_outside_refl by (simp add: confined_def placed_def)
  then have "confined A s1" using guardsD [OF log_usb_tame _ assms(7)] by simp
  then have "confined A s2" using guardsD [OF poll_events_tame _ assms(8)] by simp
  then show ?thesis using assms(3,5,9) by (simp add: confined_def placed_def)
qed

end
