(* ===== verification/Kernel_Invariants.thy ===== *)
theory Kernel_Invariants
  imports Kernel_Main Usb_Memory
begin

text \<open>
  Invariants of the running kernel. The locale \<open>kernel_frame\<close> says what every invariant of the machine must
  survive: the devices changing except for memory, the allocator, the USB driver's state and its lock; the
  tick counter; the task queue; a step of the agent. \<open>boot_invariant\<close> adds the recording of the RAM disk's
  place, and covers the boot up to the set-up of the interrupt controllers; \<open>running_invariant\<close> adds the USB
  probe and the polling of its events: the rest of the boot and any number of iterations of the main loop
  then keep the invariant, whatever commands are typed and whatever interrupts arrive. \<open>machine_invariant\<close> is
  both. They are interpreted for the memory the boot leaves untouched (the first), for the RAM disk's place
  (the second), and, both, for the USB driver's state and lock, the range of the scheduling quantum, and
  the memory and the screen the whole kernel may write.
\<close>

section \<open>Operations that keep an invariant\<close>

definition safe :: "(mach \<Rightarrow> bool) \<Rightarrow> 'a mm \<Rightarrow> bool" where
  "safe I f \<longleftrightarrow> (\<forall>s a s'. I s \<longrightarrow> f s = Inr (a, s') \<longrightarrow> I s')"

lemma safeD: "safe I f \<Longrightarrow> I s \<Longrightarrow> f s = Inr (a, s') \<Longrightarrow> I s'"
  unfolding safe_def by blast

lemma bindm_Inr: "bindm f g s = Inr r \<longleftrightarrow> (\<exists>a s'. f s = Inr (a, s') \<and> g a s' = Inr r)"
  by (auto simp: bindm_def split: sum.splits)

lemma safe_bind: "safe I f \<Longrightarrow> (\<And>a. safe I (g a)) \<Longrightarrow> safe I (bindm f g)"
  unfolding safe_def bindm_Inr by meson

lemma safe_bind_value: "safe I f \<Longrightarrow> (\<And>s a s'. f s = Inr (a, s') \<Longrightarrow> P a) \<Longrightarrow> (\<And>a. P a \<Longrightarrow> safe I (g a)) \<Longrightarrow> safe I (bindm f g)"
  unfolding safe_def bindm_Inr by metis

lemma safe_then: "safe I f \<Longrightarrow> safe I g \<Longrightarrow> safe I (thenm f g)"
  unfolding thenm_def by (rule safe_bind)

lemma safe_simple: "safe I (retm a)" "safe I (getm h)" "safe I (exit_machine c)" "safe I (\<lambda>s. or_stop e (r s) s)"
  by (auto simp: safe_def retm_def getm_def exit_machine_def or_stop_def split: option.splits)

lemma safe_if: "safe I f \<Longrightarrow> safe I g \<Longrightarrow> safe I (if b then f else g)"
  by simp

lemma safe_upd: "(\<And>s. I s \<Longrightarrow> I (g s)) \<Longrightarrow> safe I (updm g)"
  by (auto simp: safe_def updm_def)

lemma on_mach_safe: "safe I f \<Longrightarrow> on_mach f s = Inr s' \<Longrightarrow> I (mach_st s) \<Longrightarrow> I (mach_st s')"
  by (auto simp: on_mach_def split: sum.splits dest: safeD)

definition safe_k :: "(mach \<Rightarrow> bool) \<Rightarrow> kop \<Rightarrow> bool" where
  "safe_k I f \<longleftrightarrow> (\<forall>k k'. I (km k) \<longrightarrow> f k = Inr k' \<longrightarrow> I (km k'))"

lemma safe_k_on: "safe I f \<Longrightarrow> safe_k I (on_k f)"
  unfolding safe_def safe_k_def on_k_def by (auto split: sum.splits)

lemma safe_k_cpu: "safe_k I (on_cpu g)"
  by (auto simp: safe_k_def on_cpu_def)

lemma safe_k_when: "safe_k I f \<Longrightarrow> safe_k I (when_k b f)"
  by (auto simp: safe_k_def when_k_def)

lemma safe_seqk: "list_all (safe_k I) fs \<Longrightarrow> safe_k I (seqk fs)"
proof (induction fs)
  case (Cons f fs)
  then have f: "safe_k I f" and fs: "safe_k I (seqk fs)" by simp_all
  show ?case unfolding safe_k_def
  proof (intro allI impI)
    fix k k' assume k: "I (km k)" and r: "seqk (f # fs) k = Inr k'"
    obtain l where l: "f k = Inr l" "seqk fs l = Inr k'" using r by (cases "f k") auto
    have "I (km l)" using f k l(1) unfolding safe_k_def by blast
    then show "I (km k')" using fs l(2) unfolding safe_k_def by blast
  qed
qed (simp add: safe_k_def)

text \<open>The devices after an operation that has used the ports and the screen only.\<close>

definition outer :: "xsys \<Rightarrow> xsys \<Rightarrow> bool" where
  "outer d d' \<longleftrightarrow> ctl d' = ctl d \<and> held d' = held d \<and> ram d' = ram d \<and> xpmm d' = xpmm d \<and> dma_tape d' = dma_tape d \<and>
     (console_ok (con d) \<longrightarrow> console_ok (con d') \<and> same_outside (con d) (con d'))"

lemma talked_outer: "talked bs d d' \<Longrightarrow> outer d d'"
  by (auto simp: talked_def outer_def)

lemma outer_xio: "outer d (d\<lparr>xio := x\<rparr>)"
  by (simp add: outer_def same_outside_refl)

lemma outer_con: "keeps console_ok same_outside h \<Longrightarrow> outer d (d\<lparr>con := h (con d)\<rparr>)"
  by (simp add: outer_def keeps_def)

lemma handle_scancode_console: "keeps console_ok same_outside (\<lambda>c. snd (snd (handle_scancode sc (k, c))))"
proof -
  note v = keeps_vga_exec [of VBackspace, simplified] keeps_vga_exec [of "VWriteStr m" for m, simplified] keeps_vga_exec [of "VPutChar ch" for ch, simplified]
  show ?thesis using v console.keeps_id
    by (auto simp: keeps_def handle_scancode_def echo_def Let_def split: option.split)
qed

lemma boot_stages:
  assumes "kernel_boot ft acfg cfg boot k = Inr k'"
  shows "\<exists>k1 k2. seqk (boot_head ft acfg boot) k = Inr k1 \<and> on_k (pmm_start boot) k1 = Inr k2 \<and>
    seqk (on_k (log_memory_map boot) # on_k (lift_x (log_usb_controllers cfg)) # boot_tail ft acfg) k2 = Inr k'"
proof -
  let ?rest = "on_k (log_memory_map boot) # on_k (lift_x (log_usb_controllers cfg)) # boot_tail ft acfg"
  have "kernel_boot ft acfg cfg boot k =
    (case seqk (boot_head ft acfg boot) k of Inl e \<Rightarrow> Inl e | Inr k1 \<Rightarrow> (case on_k (pmm_start boot) k1 of Inl e \<Rightarrow> Inl e | Inr k2 \<Rightarrow> seqk ?rest k2))"
    unfolding kernel_boot_def boot_sequence_def by (simp add: seqk_append split: sum.split)
  then show ?thesis using assms by (auto simp del: seqk.simps split: sum.splits)
qed

lemma try_set_model_len: "try_set_model_from_initrd m l = Some l' \<Longrightarrow> INITRD_LEN l' = INITRD_LEN l"
  by (auto simp: try_set_model_from_initrd_def Let_def split: if_splits option.splits)

section \<open>The interface of an invariant\<close>

locale kernel_frame =
  fixes I :: "mach \<Rightarrow> bool"
  assumes devices: "I s \<Longrightarrow> outer (dev s) d \<Longrightarrow> I (s\<lparr>dev := d\<rparr>)"
    and ticks: "I s \<Longrightarrow> I (s\<lparr>act := (act s)\<lparr>sens := c\<rparr>\<rparr>)"
    and ready: "I s \<Longrightarrow> I (s\<lparr>act := set_system_ready (act s)\<rparr>)"
    and queue: "I s \<Longrightarrow> I (s\<lparr>tasks := q\<rparr>)"
    and initrd: "I s \<Longrightarrow> unat (INITRD_LEN (link (agt s))) < 2 ^ 63"
    and agent_task: "safe I (task_run_once acfg)"
begin

lemma safe_talks: "talks f bs \<Longrightarrow> safe I f"
proof (unfold safe_def, intro allI impI)
  fix s a s' assume f: "talks f bs" and s: "I s" "f s = Inr (a, s')"
  obtain d where "f s = Inr ((), s\<lparr>dev := d\<rparr>)" "talked bs (dev s) d" using talks_at [OF f] by blast
  then show "I s'" using s devices talked_outer by auto
qed

lemma safe_dev: "(\<And>d. outer d (g d)) \<Longrightarrow> safe I (lift_x (upd g))"
  by (auto simp: safe_def lift_x_def upd_def intro: devices)

lemma safe_sens: "safe I (set_sens c)"
  unfolding set_sens_def by (rule safe_upd) (rule ticks)

lemma safe_prompt: "safe I prompt"
  unfolding prompt_def by (intro safe_then safe_talks [OF talks_out(2)] safe_talks [OF talks_vga(1)])

lemma safe_screen: "keeps console_ok same_outside h \<Longrightarrow> safe I (on_screen h)"
  unfolding on_screen_def by (intro safe_dev outer_con)

lemma safe_boot_steps: "safe I (kmsg m)" "safe I serial_start" "safe I syscall_start" "safe I (out_str bs)"
  "safe I (log_memory_map boot)" "safe I shell_start" "safe I (updm (\<lambda>s. s\<lparr>act := set_system_ready (act s)\<rparr>))"
proof -
  show "safe I serial_start" "safe I syscall_start"
    unfolding serial_start_def syscall_start_def by (rule safe_dev, rule outer_xio)+
  show "safe I (kmsg m)" "safe I (out_str bs)" by (rule safe_talks, rule talks_kmsg talks_out)+
  show "safe I (log_memory_map boot)"
  proof (unfold safe_def, intro allI impI)
    fix s a s' assume s: "I s" "log_memory_map boot s = Inr (a, s')"
    obtain d bs where "log_memory_map boot s = Inr ((), s\<lparr>dev := d\<rparr>)" "talked bs (dev s) d" using log_memory_map_report by blast
    then show "I s'" using s devices talked_outer by auto
  qed
  show "safe I shell_start" unfolding shell_start_def by (rule safe_prompt)
  show "safe I (updm (\<lambda>s. s\<lparr>act := set_system_ready (act s)\<rparr>))" by (rule safe_upd) (rule ready)
qed

lemma safe_screens: "safe I (on_screen vga_init)" "safe I (on_screen (vga_set_style st))" "safe I (on_screen (vga_write_line m))"
  using keeps_vga_exec [of VInit] keeps_vga_exec [of "VSetStyle st"] keeps_vga_exec [of "VWriteLine m"] by (auto intro: safe_screen)

lemma safe_breakpoint: "safe_k I (breakpoint_feature ft)"
proof (cases "trigger_breakpoint ft")
  case (Some f)
  have "safe_k I (int3 f)"
    by (auto simp: safe_k_def int3_def Let_def intro: devices outer_xio split: handled.splits)
  then show ?thesis using Some by (simp add: breakpoint_feature_def)
qed (simp add: breakpoint_feature_def safe_k_def)

lemma head_rest_safe: "safe_k I (seqk (drop 6 (boot_head ft acfg boot)))"
  by (rule safe_seqk) (simp only: boot_head_def drop_Suc_Cons eval_nat_numeral BitM.simps drop_0 list.pred_inject,
    intro conjI TrueI safe_k_on safe_k_cpu safe_k_when safe_boot_steps safe_screens agent_task)

lemma tail_safe: "safe_k I (seqk (boot_tail ft acfg))"
  unfolding boot_tail_def
  by (rule safe_seqk) (simp only: list.pred_inject,
    intro conjI TrueI safe_k_on safe_k_cpu safe_k_when safe_boot_steps safe_breakpoint safe_simple agent_task)

lemma arrive_safe: "arrive codes s = Inr s' \<Longrightarrow> I (mach_st s) \<Longrightarrow> I (mach_st s')"
proof (induction codes s rule: arrive.induct)
  case (2 sc codes s)
  obtain tr k c where h: "handle_scancode sc (keys s, con (dev (mach_st s))) = (tr, k, c)"
    by (cases "handle_scancode sc (keys s, con (dev (mach_st s)))")
  let ?s = "s\<lparr>keys := k, mach_st := (mach_st s)\<lparr>dev := (dev (mach_st s))\<lparr>con := c\<rparr>\<rparr>\<rparr>"
  have "outer (dev (mach_st s)) ((dev (mach_st s))\<lparr>con := c\<rparr>)"
    using outer_con [OF handle_scancode_console [of sc "keys s"], of "dev (mach_st s)"] h by simp
  then have ok: "I (mach_st ?s)" using devices [OF "2.prems"(2)] by simp
  show ?case
  proof (cases tr)
    case None
    have "arrive codes ?s = Inr s'" using "2.prems"(1) None by (simp add: h)
    then show ?thesis by (rule "2.IH" [OF h [symmetric] refl refl refl None _ ok])
  next
    case (Some combo)
    have "on_mach (thenm (out_fmt (str_bytes ''[KEYBOARD] '' @ str_bytes combo @ CRLF)) (exit_machine 0)) ?s = Inr s'"
      using "2.prems"(1) Some by (simp add: h)
    then show ?thesis using ok on_mach_safe [OF safe_then [OF safe_talks [OF talks_out(1)] safe_simple(3)]] by blast
  qed
qed simp

lemma poll_key_safe: "poll_key s = Inr (b, s') \<Longrightarrow> I (mach_st s) \<Longrightarrow> I (mach_st s')"
  by (auto simp: poll_key_def split: sum.splits prod.splits dest!: arrive_safe)

end

locale boot_invariant = kernel_frame +
  assumes linkage: "I s \<Longrightarrow> unat (INITRD_LEN l) < 2 ^ 63 \<Longrightarrow> I (s\<lparr>agt := (agt s)\<lparr>link := l\<rparr>\<rparr>)"
begin

lemma safe_set_link: "unat (INITRD_LEN l) < 2 ^ 63 \<Longrightarrow> safe I (set_link l)"
  unfolding set_link_def by (rule safe_upd) (rule linkage)

lemma safe_early_agent:
  assumes "unat (initrd_len boot) < 2 ^ 63"
  shows "safe I (early_agent acfg boot)"
proof -
  have model: "safe I (bindm (\<lambda>s. or_stop Diverged (try_set_model_from_initrd (ram (dev s)) l) s) set_link)"
    if "unat (INITRD_LEN l) < 2 ^ 63" for l
  proof (rule safe_bind_value [where P = "\<lambda>l'. INITRD_LEN l' = INITRD_LEN l"])
    show "INITRD_LEN a = INITRD_LEN l" if "or_stop Diverged (try_set_model_from_initrd (ram (dev s)) l) s = Inr (a, s')" for s a s'
      using that by (auto simp: or_stop_def split: option.splits dest: try_set_model_len)
  qed (use that in \<open>simp_all add: safe_simple safe_set_link\<close>)
  have reg: "safe I (updm (\<lambda>s. s\<lparr>tasks := snd (register AgentStep (tasks s))\<rparr>))" by (rule safe_upd) (rule queue)
  show ?thesis unfolding early_agent_def
    by (rule safe_bind_value [where P = "\<lambda>l. INITRD_LEN l = initrd_len boot"])
      (use assms in \<open>auto simp: getm_def intro!: safe_simple safe_then safe_bind safe_if safe_set_link model reg safe_boot_steps agent_task\<close>)
qed

lemma head_safe: "unat (initrd_len boot) < 2 ^ 63 \<Longrightarrow> safe_k I (seqk (boot_head ft acfg boot))"
  unfolding boot_head_def
  by (rule safe_seqk) (simp only: list.pred_inject,
    intro conjI TrueI safe_k_on safe_k_cpu safe_k_when safe_boot_steps safe_screens safe_early_agent agent_task)

end

locale running_invariant = kernel_frame +
  assumes probe: "safe I (lift_x (log_usb_controllers cfg))"
    and polling: "safe I (lift_x poll_events)"
begin

lemma safe_command: "safe I (run_command cfg cmd arg)"
proof -
  consider "cmd = str_bytes ''pci''" | "cmd = str_bytes ''reboot''" | "cmd = str_bytes ''sleep''"
    | (other) "cmd \<noteq> str_bytes ''pci''" "cmd \<noteq> str_bytes ''reboot''" "cmd \<noteq> str_bytes ''sleep''" by blast
  then show ?thesis
  proof cases
    case 1
    then have "run_command cfg cmd arg = lift_x (log_usb_controllers cfg)" by (simp add: run_command_def str_bytes_def)
    then show ?thesis by (simp add: probe)
  next
    case 2
    then have "run_command cfg cmd arg = exit_machine 0" by (simp add: run_command_def str_bytes_def)
    then show ?thesis by (simp add: safe_simple)
  next
    case 3
    then have "run_command cfg cmd arg = (if arg = [] then writeln (str_bytes ''usage: sleep <ms>'')
         else case parse_u64 arg of None \<Rightarrow> retm ()
              | Some ms \<Rightarrow> bindm (\<lambda>s. or_stop Diverged (sleep_ms ms (sens (act s))) s) set_sens)"
      by (simp add: run_command_def str_bytes_def)
    then show ?thesis by (auto intro!: safe_bind safe_simple safe_sens safe_talks [OF talks_write(2)] split: option.split)
  next
    case other
    show ?thesis unfolding safe_def
    proof (intro allI impI)
      fix s a s' assume ok: "I s" and r: "run_command cfg cmd arg s = Inr (a, s')"
      have "unat (INITRD_LEN (initrd_now s)) < 2 ^ 63" using initrd [OF ok] by (simp add: initrd_now_def)
      from command_answer [OF this other, of cfg arg] obtain d c where
        "run_command cfg cmd arg s = Inr ((), s\<lparr>dev := d, act := (act s)\<lparr>sens := c\<rparr>\<rparr>)" and t: "talked (answer s cmd arg) (dev s) d" by blast
      then have s': "s' = s\<lparr>dev := d\<rparr>\<lparr>act := (act (s\<lparr>dev := d\<rparr>))\<lparr>sens := c\<rparr>\<rparr>" using r by simp
      show "I s'" unfolding s' using talked_outer [OF t] by (intro ticks devices ok)
    qed
  qed
qed

lemma on_char_safe:
  assumes "on_char cfg c s = Inr s'" "I (mach_st s)"
  shows "I (mach_st s')"
proof (cases "c = 10")
  case False
  then show ?thesis using assms by (auto simp: on_char_def split: if_splits)
next
  case True
  then obtain t where t: "execute_line cfg s = Inr t" "on_mach prompt (clear_line t) = Inr s'"
    using assms(1) by (auto simp: on_char_def split: sum.splits)
  have "I (mach_st t)" using t(1) on_mach_safe [OF safe_command _ assms(2)] by (auto simp: execute_line_def split: prod.splits)
  then show ?thesis by (intro on_mach_safe [OF safe_prompt t(2)]) (simp add: clear_line_def)
qed

lemma shell_loop_safe: "shell_loop cfg s = Some r \<Longrightarrow> I (mach_st s) \<longrightarrow> (\<forall>s'. r = Inr s' \<longrightarrow> I (mach_st s'))"
proof (induction rule: shell_loop.raw_induct [rotated, consumes 1, case_names step])
  case (step loop cfg s r)
  show ?case
  proof (intro impI allI)
    fix s' assume ok: "I (mach_st s)" and r: "r = Inr s'"
    obtain b t where t: "poll_key s = Inr (b, t)" using step(2) r by (cases "poll_key s") auto
    note p = poll_key_safe [OF t ok]
    show "I (mach_st s')"
    proof (cases b)
      case None
      then show ?thesis using step(2) r t p by simp
    next
      case (Some c)
      then obtain u where u: "on_char cfg c t = Inr u" "loop cfg u = Some (Inr s')"
        using step(2) r t by (auto split: sum.splits)
      show ?thesis using step(1) [OF u(2)] on_char_safe [OF u(1) p] by blast
    qed
  qed
qed

lemma main_iteration_safe:
  assumes "main_iteration ft acfg cfg s = Inr s'" "I (mach_st s)" "shell_ok s"
  shows "I (mach_st s') \<and> shell_ok s'"
proof -
  let ?f = "thenm (lift_x poll_events) (if ai_agent ft then task_run_once acfg else retm ())"
  obtain t where t: "on_mach ?f s = Inr t" "shell_step cfg t = Inr s'"
    using assms(1) by (auto simp: main_iteration_def split: sum.splits)
  have "safe I ?f" by (intro safe_then safe_if safe_simple polling agent_task)
  then have ok: "I (mach_st t)" "shell_ok t" using on_mach_safe [OF _ t(1)] on_mach_ok [OF t(1)] assms(2,3) by auto
  have "shell_loop cfg t = Some (Inr s')" using t(2) by (auto simp: shell_step_def split: option.splits)
  then show ?thesis using shell_loop_safe shell_loop_ok ok by blast
qed

lemma main_loop_safe:
  "main_loop ft acfg cfg n s = Inr s' \<Longrightarrow> I (mach_st s) \<Longrightarrow> shell_ok s \<Longrightarrow> I (mach_st s') \<and> shell_ok s'"
proof (induction n arbitrary: s)
  case (Suc n)
  then show ?case by (auto split: sum.splits dest: main_iteration_safe)
qed simp

text \<open>From the moment the allocator is set up to any iteration of the main loop.\<close>

lemma running_safe:
  assumes "I (km k)" "seqk (on_k (log_memory_map boot) # on_k (lift_x (log_usb_controllers cfg)) # boot_tail ft acfg) k = Inr k'"
    "main_loop ft acfg cfg n (shell_boot tape (km k')) = Inr s"
  shows "I (mach_st s) \<and> shell_ok s"
proof (rule main_loop_safe [OF assms(3)])
  obtain k1 k2 where k1: "on_k (log_memory_map boot) k = Inr k1" and k2: "on_k (lift_x (log_usb_controllers cfg)) k1 = Inr k2"
    and k': "seqk (boot_tail ft acfg) k2 = Inr k'" using assms(2) by (auto split: sum.splits)
  have "I (km k1)" using safe_k_on [OF safe_boot_steps(5)] assms(1) k1 unfolding safe_k_def by blast
  then have "I (km k2)" using safe_k_on [OF probe] k2 unfolding safe_k_def by blast
  then have "I (km k')" using tail_safe k' unfolding safe_k_def by blast
  then show "I (mach_st (shell_boot tape (km k')))" by (simp add: shell_boot_def)
  show "shell_ok (shell_boot tape (km k'))"
    by (simp add: shell_ok_def line_ok_def the_line_def shell_boot_def kbd_ok_static)
qed

end

locale machine_invariant = boot_invariant I + running_invariant I for I :: "mach \<Rightarrow> bool"
begin

lemma kernel_safe:
  assumes "unat (initrd_len boot) < 2 ^ 63" "safe I (pmm_start boot)" "I (km k)" "kernel_boot ft acfg cfg boot k = Inr k'"
    "main_loop ft acfg cfg n (shell_boot tape (km k')) = Inr s"
  shows "I (mach_st s) \<and> shell_ok s"
proof -
  obtain k1 k2 where b: "seqk (boot_head ft acfg boot) k = Inr k1" "on_k (pmm_start boot) k1 = Inr k2"
    "seqk (on_k (log_memory_map boot) # on_k (lift_x (log_usb_controllers cfg)) # boot_tail ft acfg) k2 = Inr k'"
    using boot_stages [OF assms(4)] by blast
  have "I (km k1)" using head_safe [OF assms(1)] assms(3) b(1) unfolding safe_k_def by blast
  then have "I (km k2)" using safe_k_on [OF assms(2)] b(2) unfolding safe_k_def by blast
  then show ?thesis by (rule running_safe [OF _ b(3) assms(5)])
qed

end

section \<open>The USB driver's state and lock\<close>

definition mach_ok :: "mach \<Rightarrow> bool" where
  "mach_ok m \<longleftrightarrow> ctl_ok (dev m) \<and> \<not> held (dev m) \<and> unat (INITRD_LEN (link (agt m))) < 2 ^ 63"

lemma lift_mach_ok: "guards ctl_ok (\<lambda>_ _. True) f \<Longrightarrow> guards (\<lambda>_. True) same_lock f \<Longrightarrow> safe mach_ok (lift_x f)"
proof (unfold safe_def, intro allI impI)
  fix s a s'
  assume g: "guards ctl_ok (\<lambda>_ _. True) f" "guards (\<lambda>_. True) same_lock f" and s: "mach_ok s" "lift_x f s = Inr (a, s')"
  then obtain d where d: "f (dev s) = Inr (a, d)" "s' = s\<lparr>dev := d\<rparr>" by (auto simp: lift_x_def split: sum.splits)
  show "mach_ok s'"
    using guardsD [OF g(1) _ d(1)] guardsD [OF g(2) _ d(1)] s(1) d(2) by (simp add: mach_ok_def same_lock_def)
qed

lemma lift_keeps_rest: "lift_x f s = Inr (a, s') \<Longrightarrow> \<exists>d. s' = s\<lparr>dev := d\<rparr>"
  by (auto simp: lift_x_def split: sum.splits)

lemma agent_step_keeps:
  assumes "agent_step acfg m p q a k = Some (a', k')"
  shows "link a' = link a \<and> (quantum_ok k \<longrightarrow> quantum_ok k')"
proof -
  obtain b a1 c where e: "ensure_init m a (sens k) = (b, a1, c)" by (cases "ensure_init m a (sens k)") auto
  have l: "link a1 = link a" using e by (auto simp: ensure_init_def split: if_splits option.splits prod.splits)
  have "quantum_ok (k\<lparr>sens := c'\<rparr>) = quantum_ok k" for c' by (simp add: quantum_ok_def)
  then show ?thesis using assms e l
    by (auto simp: agent_step_def Let_def bind_eq_Some_conv dest!: propose_step split: if_splits option.splits prod.splits)
qed

lemma task_run_once_cases:
  assumes "task_run_once acfg s = Inr (a, s')"
  shows "(\<exists>q. s' = s\<lparr>tasks := q\<rparr>) \<or> (\<exists>q g k. s' = s\<lparr>tasks := q, agt := g, act := k, dev := (dev s)\<lparr>xio := kio k\<rparr>\<rparr> \<and>
    link g = link (agt s) \<and> (quantum_ok (act s) \<longrightarrow> quantum_ok k))"
proof -
  obtain t q where rq: "run_once (tasks s) = (t, q)" by (cases "run_once (tasks s)")
  show ?thesis
  proof (cases t)
    case None
    then show ?thesis using assms rq by (auto simp: task_run_once_def)
  next
    case (Some u)
    have "u = AgentStep" by (cases u)
    then obtain g k where st: "agent_step acfg (ram (dev s)) (xpmm (dev s)) q (agt s) ((act s)\<lparr>kio := xio (dev s)\<rparr>) = Some (g, k)"
      and s': "s' = s\<lparr>tasks := q, agt := g, act := k, dev := (dev s)\<lparr>xio := kio k\<rparr>\<rparr>"
      using assms rq Some by (auto simp: task_run_once_def split: option.splits)
    have "quantum_ok ((act s)\<lparr>kio := xio (dev s)\<rparr>) = quantum_ok (act s)" by (simp add: quantum_ok_def)
    then show ?thesis using agent_step_keeps [OF st] s' by blast
  qed
qed

lemma task_run_once_safe:
  assumes "\<And>s q. I s \<Longrightarrow> I (s\<lparr>tasks := q\<rparr>)"
    and "\<And>s q g k. I s \<Longrightarrow> link g = link (agt s) \<Longrightarrow> (quantum_ok (act s) \<longrightarrow> quantum_ok k) \<Longrightarrow>
      I (s\<lparr>tasks := q, agt := g, act := k, dev := (dev s)\<lparr>xio := kio k\<rparr>\<rparr>)"
  shows "safe I (task_run_once acfg)"
  unfolding safe_def
proof (intro allI impI)
  fix s a s' assume i: "I s" and r: "task_run_once acfg s = Inr (a, s')"
  then show "I s'" using task_run_once_cases [OF r] assms by metis
qed

interpretation driver: machine_invariant mach_ok
proof unfold_locales
  have "guards (\<lambda>_. True) same_lock poll_events" unfolding poll_events_def by (rule with_state_locking)
  then show "safe mach_ok (lift_x poll_events)" by (rule lift_mach_ok [OF poll_events_sound])
  show "safe mach_ok (lift_x (log_usb_controllers cfg))" for cfg by (rule lift_mach_ok [OF log_usb_sound log_usb_locking])
  show "safe mach_ok (task_run_once acfg)" for acfg by (rule task_run_once_safe) (simp_all add: mach_ok_def ctl_ok_def)
qed (auto simp: mach_ok_def ctl_ok_def outer_def)

lemma driver_pmm: "safe mach_ok (pmm_start boot)"
  unfolding pmm_start_def by (rule safe_upd) (auto simp: mach_ok_def ctl_ok_def Let_def split: prod.split)

section \<open>The quantum\<close>

definition quantum_in_range :: "mach \<Rightarrow> bool" where
  "quantum_in_range m \<longleftrightarrow> quantum_ok (act m) \<and> unat (INITRD_LEN (link (agt m))) < 2 ^ 63"

interpretation quantum: machine_invariant quantum_in_range
proof unfold_locales
  have lift: "safe quantum_in_range (lift_x f)" for f :: "'a xm"
    unfolding safe_def using lift_keeps_rest by (fastforce simp: quantum_in_range_def)
  show "safe quantum_in_range (lift_x poll_events)" "safe quantum_in_range (lift_x (log_usb_controllers cfg))" for cfg
    by (rule lift)+
  show "safe quantum_in_range (task_run_once acfg)" for acfg by (rule task_run_once_safe) (simp_all add: quantum_in_range_def)
qed (auto simp: quantum_in_range_def quantum_ok_def set_system_ready_def)

lemma quantum_pmm: "safe quantum_in_range (pmm_start boot)"
  unfolding pmm_start_def by (rule safe_upd) (auto simp: quantum_in_range_def Let_def split: prod.split)

section \<open>Memory and the screen\<close>

text \<open>Up to the set-up of the allocator nothing touches memory.\<close>

definition untouched :: "xsys \<Rightarrow> mach \<Rightarrow> bool" where
  "untouched d0 m \<longleftrightarrow> ram (dev m) = ram d0 \<and> xpmm (dev m) = xpmm d0 \<and> dma_tape (dev m) = dma_tape d0 \<and> ctl (dev m) = ctl d0 \<and>
     console_ok (con (dev m)) \<and> same_outside (con d0) (con (dev m)) \<and> unat (INITRD_LEN (link (agt m))) < 2 ^ 63"

interpretation untouched: boot_invariant "untouched d0" for d0
proof unfold_locales
  show "safe (untouched d0) (task_run_once acfg)" for acfg by (rule task_run_once_safe) (simp_all add: untouched_def)
qed (auto simp: untouched_def outer_def dest: same_outside_trans)

text \<open>From then on it changes inside the allocator's region only.\<close>

definition mach_confined :: "arena \<Rightarrow> mach \<Rightarrow> bool" where
  "mach_confined A m \<longleftrightarrow> confined A (dev m) \<and> unat (INITRD_LEN (link (agt m))) < 2 ^ 63"

lemma lift_confined: "tame A f \<Longrightarrow> safe (mach_confined A) (lift_x f)"
  unfolding safe_def by (auto simp: mach_confined_def lift_x_def split: sum.splits dest: guardsD)

interpretation region: machine_invariant "mach_confined A" for A
proof unfold_locales
  show "safe (mach_confined A) (lift_x poll_events)" by (rule lift_confined [OF poll_events_tame])
  show "safe (mach_confined A) (lift_x (log_usb_controllers cfg))" for cfg by (rule lift_confined [OF log_usb_tame])
  show "safe (mach_confined A) (task_run_once acfg)" for acfg by (rule task_run_once_safe) (simp_all add: mach_confined_def confined_def)
qed (auto simp: mach_confined_def confined_def outer_def dest: same_outside_trans)

section \<open>The RAM disk's place\<close>

definition linked :: "BootInfo \<Rightarrow> mach \<Rightarrow> bool" where
  "linked boot m \<longleftrightarrow> INITRD_BASE (link (agt m)) = initrd_base boot \<and> INITRD_LEN (link (agt m)) = initrd_len boot \<and>
     unat (initrd_len boot) < 2 ^ 63"

interpretation linked: running_invariant "linked boot" for boot
proof unfold_locales
  have lift: "safe (linked boot) (lift_x f)" for f :: "'a xm"
    unfolding safe_def using lift_keeps_rest by (fastforce simp: linked_def)
  show "safe (linked boot) (lift_x poll_events)" "safe (linked boot) (lift_x (log_usb_controllers cfg))" for cfg
    by (rule lift)+
  show "safe (linked boot) (task_run_once acfg)" for acfg by (rule task_run_once_safe) (simp_all add: linked_def)
qed (auto simp: linked_def)

lemma try_set_model_base: "try_set_model_from_initrd m l = Some l' \<Longrightarrow> INITRD_BASE l' = INITRD_BASE l"
  by (auto simp: try_set_model_from_initrd_def Let_def split: if_splits option.splits)

lemma early_agent_links:
  assumes "early_agent acfg boot s = Inr (a, s')" "unat (initrd_len boot) < 2 ^ 63"
  shows "linked boot s'"
proof -
  let ?l = "(link (agt s))\<lparr>INITRD_BASE := initrd_base boot, INITRD_LEN := initrd_len boot\<rparr>"
  let ?s = "s\<lparr>agt := (agt s)\<lparr>link := ?l\<rparr>\<rparr>"
  have set: "safe (linked boot) (set_link l)" if "INITRD_BASE l = initrd_base boot \<and> INITRD_LEN l = initrd_len boot" for l
    unfolding set_link_def by (rule safe_upd) (use that in \<open>simp add: linked_def\<close>)
  have model: "safe (linked boot) (bindm (\<lambda>s. or_stop Diverged (try_set_model_from_initrd (ram (dev s)) ?l) s) set_link)"
  proof (rule safe_bind_value [where P = "\<lambda>l. INITRD_BASE l = initrd_base boot \<and> INITRD_LEN l = initrd_len boot", OF safe_simple(4) _ set])
    show "INITRD_BASE l = initrd_base boot \<and> INITRD_LEN l = initrd_len boot"
      if "or_stop Diverged (try_set_model_from_initrd (ram (dev u)) ?l) u = Inr (l, u')" for u l u'
      using that by (auto simp: or_stop_def split: option.splits dest: try_set_model_len try_set_model_base)
  qed
  have reg: "safe (linked boot) (updm (\<lambda>s. s\<lparr>tasks := snd (register AgentStep (tasks s))\<rparr>))" by (rule safe_upd) (rule linked.queue)
  define rest where "rest l = thenm (if INITRD_BASE l \<noteq> 0 \<and> INITRD_LEN l > 0
       then bindm (\<lambda>s. or_stop Diverged (try_set_model_from_initrd (ram (dev s)) l) s) set_link else retm ())
     (bindm (getm (\<lambda>s. AI_MODEL_ADDR (link (agt s)))) (\<lambda>addr. if addr \<noteq> 0
        then thenm (out_str (str_bytes ''[ai] early scheduling agent task'' @ CRLF))
            (thenm (updm (\<lambda>s. s\<lparr>tasks := snd (register AgentStep (tasks s))\<rparr>)) (task_run_once acfg))
        else out_str (str_bytes ''[ai] model addr not set; agent inactive'' @ CRLF)))" for l
  have ok: "safe (linked boot) (rest ?l)" unfolding rest_def
    by (intro safe_then safe_bind safe_if safe_simple model reg linked.safe_boot_steps linked.agent_task)
  have "early_agent acfg boot = bindm (getm (\<lambda>s. (link (agt s))\<lparr>INITRD_BASE := initrd_base boot, INITRD_LEN := initrd_len boot\<rparr>))
      (\<lambda>l. thenm (set_link l) (rest l))"
    unfolding early_agent_def rest_def ..
  then have r: "rest ?l ?s = Inr (a, s')" using assms(1) by (simp add: bindm_def thenm_def getm_def set_link_def updm_def)
  have l: "linked boot ?s" using assms(2) by (simp add: linked_def)
  show ?thesis by (rule safeD [OF ok l r])
qed

lemma head_links:
  assumes "seqk (boot_head ft acfg boot) k = Inr k'" "ai_agent ft" "unat (initrd_len boot) < 2 ^ 63"
  shows "linked boot (km k')"
proof -
  have "boot_head ft acfg boot = take 5 (boot_head ft acfg boot) @ on_k (early_agent acfg boot) # drop 6 (boot_head ft acfg boot)"
    using assms(2) by (simp add: boot_head_def when_k_def)
  then obtain hd where "boot_head ft acfg boot = hd @ on_k (early_agent acfg boot) # drop 6 (boot_head ft acfg boot)" by blast
  then have "seqk (hd @ on_k (early_agent acfg boot) # drop 6 (boot_head ft acfg boot)) k = Inr k'" using assms(1) by simp
  then obtain k1 k2 where k2: "on_k (early_agent acfg boot) k1 = Inr k2" "seqk (drop 6 (boot_head ft acfg boot)) k2 = Inr k'"
    unfolding seqk_around by (auto split: sum.splits)
  then have "linked boot (km k2)" using early_agent_links [OF _ assms(3)] by (auto simp: on_k_def split: sum.splits)
  then show ?thesis using linked.head_rest_safe k2(2) unfolding safe_k_def by blast
qed

end
