(* ===== verification/Agent_Boot.thy ===== *)
theory Agent_Boot
  imports Kernel_Main
begin

text \<open>
  The boot with the agent's feature (\<^verbatim>\<open>kernel/src/main.rs\<close>). The early agent looks for a model in the initial
  RAM disk and the scheduler runs its steps while the rest of the kernel is being set up; none of this can
  stop the boot: the search ends, a step of the agent always returns, and an agent that is sound stays so.
\<close>

section \<open>Steps of the boot that return\<close>

definition total_k :: "(mach \<Rightarrow> bool) \<Rightarrow> (mach \<Rightarrow> bool) \<Rightarrow> kop \<Rightarrow> bool" where
  "total_k P Q f \<longleftrightarrow> (\<forall>k. P (km k) \<longrightarrow> (\<exists>k'. f k = Inr k' \<and> Q (km k')))"

definition total_m :: "(mach \<Rightarrow> bool) \<Rightarrow> (mach \<Rightarrow> bool) \<Rightarrow> unit mm \<Rightarrow> bool" where
  "total_m P Q f \<longleftrightarrow> (\<forall>s. P s \<longrightarrow> (\<exists>s'. f s = Inr ((), s') \<and> Q s'))"

lemma total_then: "total_m P Q f \<Longrightarrow> total_m Q R g \<Longrightarrow> total_m P R (thenm f g)"
  unfolding total_m_def thenm_def bindm_def by fastforce

lemma total_on: "total_m P Q f \<Longrightarrow> total_k P Q (on_k f)"
  unfolding total_m_def total_k_def on_k_def by fastforce

lemma total_cpu: "total_k P P (on_cpu g)"
  by (simp add: total_k_def on_cpu_def)

lemma total_when: "total_k P P f \<Longrightarrow> total_k P P (when_k b f)"
  by (simp add: total_k_def when_k_def)

lemma total_none: "total_k P P Inr"
  by (simp add: total_k_def)

lemma total_seqk: "list_all (total_k P P) fs \<Longrightarrow> total_k P P (seqk fs)"
proof (induction fs)
  case (Cons f fs)
  then have f: "total_k P P f" and fs: "total_k P P (seqk fs)" by simp_all
  show ?case unfolding total_k_def
  proof (intro allI impI)
    fix k :: kernel assume "P (km k)"
    then obtain l where l: "f k = Inr l" "P (km l)" using f unfolding total_k_def by blast
    then obtain k' where "seqk fs l = Inr k'" "P (km k')" using fs unfolding total_k_def by blast
    then show "\<exists>k'. seqk (f # fs) k = Inr k' \<and> P (km k')" using l(1) by simp
  qed
qed (simp add: total_k_def)

lemma total_chain: "total_k P Q (seqk fs) \<Longrightarrow> total_k Q R (seqk gs) \<Longrightarrow> total_k P R (seqk (fs @ gs))"
  unfolding total_k_def by (simp add: seqk_append) (metis sum.simps(6))

section \<open>The agent before and after its early start\<close>

definition agent_at_rest :: "mach \<Rightarrow> bool" where
  "agent_at_rest m \<longleftrightarrow> agt m = agent_static ai_link_static"

definition agent_sound :: "mach \<Rightarrow> bool" where
  "agent_sound m \<longleftrightarrow> agent_ok (agt m)"

lemma at_rest_sound: "agent_at_rest m \<Longrightarrow> agent_sound m"
  by (simp add: agent_at_rest_def agent_sound_def agent_ok_def agent_static_def ai_link_static_def)

lemma total_smooth:
  assumes "smooth f"
  shows "total_m agent_at_rest agent_at_rest f" "total_m agent_sound agent_sound f"
proof -
  have "\<exists>d. f s = Inr ((), s\<lparr>dev := d\<rparr>)" for s using assms unfolding smooth_def by blast
  then show "total_m agent_at_rest agent_at_rest f" "total_m agent_sound agent_sound f"
    unfolding total_m_def agent_at_rest_def agent_sound_def by fastforce+
qed

lemma run_once_total:
  assumes "preset acfg"
  shows "total_m agent_sound agent_sound (task_run_once acfg)"
  unfolding total_m_def
proof (intro allI impI)
  fix s assume ok: "agent_sound s"
  show "\<exists>s'. task_run_once acfg s = Inr ((), s') \<and> agent_sound s'"
  proof (cases "run_once (tasks s)")
    case (Pair t q)
    show ?thesis
    proof (cases t)
      case None
      then show ?thesis using Pair ok by (simp add: task_run_once_def agent_sound_def)
    next
      case (Some u)
      obtain a k where "agent_step acfg (ram (dev s)) (xpmm (dev s)) q (agt s) ((act s)\<lparr>kio := xio (dev s)\<rparr>) = Some (a, k)" "agent_ok a"
        using agent_step_total [OF assms, of "agt s"] ok unfolding agent_sound_def by blast
      then show ?thesis using Pair Some by (cases u) (simp add: task_run_once_def agent_sound_def)
    qed
  qed
qed

text \<open>The agent not yet started, with the RAM disk's place recorded.\<close>

definition placed_at :: "ai_link \<Rightarrow> mach \<Rightarrow> bool" where
  "placed_at l m \<longleftrightarrow> AGENT_STATE (agt m) = None \<and> link (agt m) = l"

lemma set_link_total:
  "agent_at_rest s \<Longrightarrow> \<exists>s'. set_link l s = Inr ((), s') \<and> placed_at l s'"
  "AGENT_STATE (agt s) = None \<Longrightarrow> unat (AI_MODEL_ADDR l) + unat (AI_MODEL_LEN l) < 2 ^ 64 \<Longrightarrow> \<exists>s'. set_link l s = Inr ((), s') \<and> agent_sound s'"
  by (simp_all add: set_link_def updm_def placed_at_def agent_at_rest_def agent_sound_def agent_ok_def agent_static_def)

lemma search_total:
  assumes "unat (INITRD_LEN l) < 2 ^ 63" "unat (INITRD_BASE l) + unat (INITRD_LEN l) < 2 ^ 64"
    and "unat (AI_MODEL_ADDR l) + unat (AI_MODEL_LEN l) < 2 ^ 64"
  shows "total_m (placed_at l) agent_sound
    (if INITRD_BASE l \<noteq> 0 \<and> INITRD_LEN l > 0
     then bindm (\<lambda>s. or_stop Diverged (try_set_model_from_initrd (ram (dev s)) l) s) set_link else retm ())"
  unfolding total_m_def
proof (intro allI impI)
  fix s assume p: "placed_at l s"
  obtain l' where l': "try_set_model_from_initrd (ram (dev s)) l = Some l'" "unat (AI_MODEL_ADDR l') + unat (AI_MODEL_LEN l') < 2 ^ 64"
    using installed_model_is_valid [of l "ram (dev s)"] assms by auto
  have "agent_sound s" using p assms(3) by (simp add: placed_at_def agent_sound_def agent_ok_def)
  moreover obtain s' where "set_link l' s = Inr ((), s')" "agent_sound s'"
    using set_link_total(2) [OF _ l'(2)] p by (auto simp: placed_at_def)
  ultimately show "\<exists>s'. (if INITRD_BASE l \<noteq> 0 \<and> INITRD_LEN l > 0
      then bindm (\<lambda>s. or_stop Diverged (try_set_model_from_initrd (ram (dev s)) l) s) set_link else retm ()) s = Inr ((), s') \<and> agent_sound s'"
    using l'(1) by (simp add: bindm_def or_stop_def retm_def)
qed

lemma schedule_total:
  assumes "preset acfg"
  shows "total_m agent_sound agent_sound (bindm (getm h) (\<lambda>addr. if addr \<noteq> (0 :: u64)
      then thenm (out_str m1) (thenm (updm (\<lambda>s. s\<lparr>tasks := snd (register AgentStep (tasks s))\<rparr>)) (task_run_once acfg))
      else out_str m2))"
proof -
  have reg: "total_m agent_sound agent_sound (updm (\<lambda>s. s\<lparr>tasks := snd (register AgentStep (tasks s))\<rparr>))"
    by (simp add: total_m_def updm_def agent_sound_def)
  have str: "total_m agent_sound agent_sound (out_str bs)" for bs by (rule total_smooth [OF smooth_talks [OF talks_out(2)]])
  note go = total_then [OF str [of m1] total_then [OF reg run_once_total [OF assms]]]
  show ?thesis unfolding total_m_def
  proof (intro allI impI)
    fix s assume ok: "agent_sound s"
    show "\<exists>s'. bindm (getm h) (\<lambda>addr. if addr \<noteq> 0
        then thenm (out_str m1) (thenm (updm (\<lambda>s. s\<lparr>tasks := snd (register AgentStep (tasks s))\<rparr>)) (task_run_once acfg))
        else out_str m2) s = Inr ((), s') \<and> agent_sound s'"
      using go [unfolded total_m_def, rule_format, OF ok] str [of m2, unfolded total_m_def, rule_format, OF ok]
      by (simp add: bindm_def [of "getm h"] getm_def)
  qed
qed

lemma early_agent_total:
  assumes "preset acfg" "unat (initrd_len boot) < 2 ^ 63" "unat (initrd_base boot) + unat (initrd_len boot) < 2 ^ 64"
  shows "total_m agent_at_rest agent_sound (early_agent acfg boot)"
proof -
  let ?l = "ai_link_static\<lparr>INITRD_BASE := initrd_base boot, INITRD_LEN := initrd_len boot\<rparr>"
  have set: "total_m agent_at_rest (placed_at ?l) (set_link ?l)" using set_link_total(1) unfolding total_m_def by blast
  have search: "total_m (placed_at ?l) agent_sound (if INITRD_BASE ?l \<noteq> 0 \<and> INITRD_LEN ?l > 0
      then bindm (\<lambda>s. or_stop Diverged (try_set_model_from_initrd (ram (dev s)) ?l) s) set_link else retm ())"
    by (rule search_total) (use assms(2,3) in \<open>simp_all add: ai_link_static_def\<close>)
  define body where "body l = thenm (set_link l) (thenm (if INITRD_BASE l \<noteq> 0 \<and> INITRD_LEN l > 0
      then bindm (\<lambda>s. or_stop Diverged (try_set_model_from_initrd (ram (dev s)) l) s) set_link else retm ())
      (bindm (getm (\<lambda>s. AI_MODEL_ADDR (link (agt s)))) (\<lambda>addr. if addr \<noteq> 0
        then thenm (out_str (str_bytes ''[ai] early scheduling agent task'' @ CRLF))
          (thenm (updm (\<lambda>s. s\<lparr>tasks := snd (register AgentStep (tasks s))\<rparr>)) (task_run_once acfg))
        else out_str (str_bytes ''[ai] model addr not set; agent inactive'' @ CRLF))))" for l
  have total: "total_m agent_at_rest agent_sound (body ?l)"
    unfolding body_def by (rule total_then [OF set total_then [OF search schedule_total [OF assms(1)]]])
  have "early_agent acfg boot = bindm (getm (\<lambda>s. (link (agt s))\<lparr>INITRD_BASE := initrd_base boot, INITRD_LEN := initrd_len boot\<rparr>)) body"
    unfolding early_agent_def body_def ..
  then have "early_agent acfg boot s = body ?l s" if "agent_at_rest s" for s
    using that by (simp add: bindm_def getm_def agent_at_rest_def agent_static_def)
  then show ?thesis using total unfolding total_m_def by simp
qed

section \<open>The whole boot\<close>

definition plain :: "features \<Rightarrow> bool" where
  "plain ft \<longleftrightarrow> trigger_breakpoint ft = None \<and> \<not> qemu_exit ft"

lemmas sound_steps = total_on total_cpu total_when total_none total_smooth smooth_lift smooth_start smooth_pmm smooth_report
  smooth_talks [OF talks_out(2)] shell_start_smooth

lemma head_total:
  assumes "preset acfg" "unat (initrd_len boot) < 2 ^ 63" "unat (initrd_base boot) + unat (initrd_len boot) < 2 ^ 64"
  shows "total_k agent_at_rest agent_sound (seqk (boot_head ft acfg boot @ [on_k (pmm_start boot), on_k (log_memory_map boot)]))"
proof -
  let ?h = "boot_head ft acfg boot @ [on_k (pmm_start boot), on_k (log_memory_map boot)]"
  let ?e = "when_k (ai_agent ft) (on_k (early_agent acfg boot))"
  have split: "?h = take 5 ?h @ [?e] @ drop 6 ?h" by (simp add: boot_head_def)
  have first: "total_k agent_at_rest agent_at_rest (seqk (take 5 ?h))"
    by (rule total_seqk) (simp only: boot_head_def append_Cons take_Suc_Cons eval_nat_numeral BitM.simps take_0 list.pred_inject,
      intro conjI TrueI sound_steps)
  have rest: "total_k agent_sound agent_sound (seqk (drop 6 ?h))"
    by (rule total_seqk) (simp only: boot_head_def append_Cons append_Nil drop_Suc_Cons eval_nat_numeral BitM.simps drop_0 list.pred_inject,
      intro conjI TrueI sound_steps run_once_total assms(1))
  have "total_k agent_at_rest agent_sound ?e"
    using total_on [OF early_agent_total [OF assms]] at_rest_sound by (auto simp: total_k_def when_k_def)
  then have "total_k agent_at_rest agent_sound (seqk [?e])" by (auto simp: total_k_def split: sum.split)
  then show ?thesis by (subst split) (rule total_chain [OF first total_chain [OF _ rest]])
qed

lemma tail_total:
  assumes "preset acfg" "plain ft"
  shows "total_k agent_sound agent_sound (seqk (boot_tail ft acfg))"
proof -
  have b: "breakpoint_feature ft = Inr" "qemu_exit ft = False" using assms(2) by (simp_all add: plain_def breakpoint_feature_def)
  have ready: "total_m agent_sound agent_sound (updm (\<lambda>s. s\<lparr>act := set_system_ready (act s)\<rparr>))"
    by (simp add: total_m_def updm_def agent_sound_def)
  have skip: "total_k agent_sound agent_sound (when_k False f)" for f by (simp add: total_k_def when_k_def)
  show ?thesis unfolding boot_tail_def b
    by (rule total_seqk) (simp only: list.pred_inject, intro conjI TrueI skip sound_steps run_once_total ready assms(1))
qed

lemma boot_steps:
  assumes "preset acfg" and "plain ft" and "agent_at_rest (km k)"
    and "unat (initrd_len boot) < 2 ^ 63" and "unat (initrd_base boot) + unat (initrd_len boot) < 2 ^ 64"
  shows "\<exists>k1. seqk (boot_head ft acfg boot @ [on_k (pmm_start boot), on_k (log_memory_map boot)]) k = Inr k1 \<and>
    (case log_usb_controllers cfg (dev (km k1)) of
       Inl e \<Rightarrow> kernel_boot ft acfg cfg boot k = Inl (Failed e)
     | Inr (_, d) \<Rightarrow> \<exists>k'. seqk (boot_tail ft acfg) (k1\<lparr>km := (km k1)\<lparr>dev := d\<rparr>\<rparr>) = Inr k' \<and>
         kernel_boot ft acfg cfg boot k = Inr k' \<and> agent_sound (km k'))"
proof -
  define pre where "pre = boot_head ft acfg boot @ [on_k (pmm_start boot), on_k (log_memory_map boot)]"
  have boot: "kernel_boot ft acfg cfg boot = seqk (pre @ on_k (lift_x (log_usb_controllers cfg)) # boot_tail ft acfg)"
    unfolding kernel_boot_def boot_sequence_def pre_def by simp
  obtain k1 where k1: "seqk pre k = Inr k1" "agent_sound (km k1)"
    using head_total [OF assms(1,4,5)] assms(3) unfolding total_k_def pre_def by blast
  have run: "kernel_boot ft acfg cfg boot k = (case log_usb_controllers cfg (dev (km k1)) of Inl e \<Rightarrow> Inl (Failed e)
      | Inr (_, d) \<Rightarrow> seqk (boot_tail ft acfg) (k1\<lparr>km := (km k1)\<lparr>dev := d\<rparr>\<rparr>))"
    unfolding boot seqk_around k1(1) by (simp add: on_k_def lift_x_def split: sum.split)
  have "\<exists>k'. seqk (boot_tail ft acfg) (k1\<lparr>km := (km k1)\<lparr>dev := d\<rparr>\<rparr>) = Inr k' \<and> agent_sound (km k')" for d
    using tail_total [OF assms(1,2)] k1(2) unfolding total_k_def by (simp add: agent_sound_def)
  then show ?thesis using k1(1) unfolding run pre_def by (intro exI [of _ k1]) (auto split: sum.split)
qed

text \<open>C26: the boot. With the agent or without (and without the features that end it on purpose), with a preset
  configuration of the agent and an initial RAM disk inside the address space: the steps before the USB
  probe return, the search for a model and the agent's steps included. On the machine they leave, the
  boot stops exactly when the probe stops, with the probe's error; when the probe returns, the steps
  behind it return on the machine the probe left, and the boot ends there with a sound agent.\<close>

theorem boot_stops_only_in_usb_probe:
  assumes "preset acfg" and "plain ft" and "agent_at_rest (km k)"
    and "unat (initrd_len boot) < 2 ^ 63" and "unat (initrd_base boot) + unat (initrd_len boot) < 2 ^ 64"
  shows "\<exists>k1. seqk (boot_head ft acfg boot @ [on_k (pmm_start boot), on_k (log_memory_map boot)]) k = Inr k1 \<and>
    (case log_usb_controllers cfg (dev (km k1)) of
       Inl e \<Rightarrow> kernel_boot ft acfg cfg boot k = Inl (Failed e)
     | Inr (_, d) \<Rightarrow> \<exists>k'. seqk (boot_tail ft acfg) (k1\<lparr>km := (km k1)\<lparr>dev := d\<rparr>\<rparr>) = Inr k' \<and>
         kernel_boot ft acfg cfg boot k = Inr k' \<and> agent_sound (km k'))"
  by (rule boot_steps [OF assms])

theorem boot_stops_only_in_usb_probe_witness:
  "\<exists>k'. kernel_boot \<lparr>ai_agent = True, trigger_breakpoint = None, qemu_exit = False\<rparr> cfg_default example_cfg
      (example_boot_info\<lparr>initrd_base := 0x200000, initrd_len := 260\<rparr>) example_kernel = Inr k' \<and> agent_sound (km k')"
proof -
  let ?boot = "example_boot_info\<lparr>initrd_base := 0x200000, initrd_len := 260\<rparr>"
  let ?ft = "\<lparr>ai_agent = True, trigger_breakpoint = None, qemu_exit = False\<rparr>"
  have h: "preset cfg_default" "plain ?ft" "agent_at_rest (km example_kernel)"
    "unat (initrd_len ?boot) < 2 ^ 63" "unat (initrd_base ?boot) + unat (initrd_len ?boot) < 2 ^ 64"
    by (simp_all add: preset_def plain_def agent_at_rest_def example_kernel_def example_mach_def example_boot_info_def)
  obtain k1 where k1: "case log_usb_controllers example_cfg (dev (km k1)) of
       Inl e \<Rightarrow> kernel_boot ?ft cfg_default example_cfg ?boot example_kernel = Inl (Failed e)
     | Inr (_, d) \<Rightarrow> \<exists>k'. seqk (boot_tail ?ft cfg_default) (k1\<lparr>km := (km k1)\<lparr>dev := d\<rparr>\<rparr>) = Inr k' \<and>
         kernel_boot ?ft cfg_default example_cfg ?boot example_kernel = Inr k' \<and> agent_sound (km k')"
    using boot_stops_only_in_usb_probe [OF h, of example_cfg] by blast
  obtain d' where "log_usb_controllers example_cfg (dev (km k1)) = Inr ((), d')" using no_controllers by blast
  with k1 show ?thesis by auto
qed

end
