(* ===== verification/Typed_Commands.thy ===== *)
theory Typed_Commands
  imports Kernel_Main
begin

text \<open>
  Which commands of the shell (\<^verbatim>\<open>kernel/src/shell.rs\<close>) a user at the PS/2 keyboard can run. The shell and the
  main loop are restated over any interpreter of command lines; with the kernel's own interpreter they are the
  shell and the main loop of the kernel. What the keyboard interrupt never puts into the ring never reaches the
  line, over any number of iterations, so an interpreter that differs only on commands with such letters makes
  no difference.
\<close>

section \<open>The shell over an interpreter of commands\<close>

type_synonym interpreter = "bytes \<Rightarrow> bytes \<Rightarrow> unit mm"

definition execute_line_with :: "interpreter \<Rightarrow> shell \<Rightarrow> fin + shell" where
  "execute_line_with run s = (let (cmd, arg) = split1 (take (LEN s) (LINE s)) in on_mach (run cmd arg) s)"

definition on_char_with :: "interpreter \<Rightarrow> u8 \<Rightarrow> shell \<Rightarrow> fin + shell" where
  "on_char_with run c s =
     (if c = 10 then (case execute_line_with run s of Inl e \<Rightarrow> Inl e | Inr s \<Rightarrow> on_mach prompt (clear_line s))
      else if c = 8 then Inr (if LEN s > 0 then s\<lparr>LEN := LEN s - 1\<rparr> else s)
      else if 32 \<le> c \<and> c < 127 then
        Inr (if LEN s < length (LINE s) then s\<lparr>LINE := (LINE s)[LEN s := c], LEN := LEN s + 1\<rparr> else s)
      else Inr s)"

partial_function (option) shell_loop_with :: "interpreter \<Rightarrow> shell \<Rightarrow> (fin + shell) option" where
  "shell_loop_with run s =
     (case poll_key s of
        Inl e \<Rightarrow> Some (Inl e)
      | Inr (None, s) \<Rightarrow> Some (Inr s)
      | Inr (Some c, s) \<Rightarrow> (case on_char_with run c s of Inl e \<Rightarrow> Some (Inl e) | Inr s \<Rightarrow> shell_loop_with run s))"

definition shell_step_with :: "interpreter \<Rightarrow> shell \<Rightarrow> fin + shell" where
  "shell_step_with run s = (case shell_loop_with run s of None \<Rightarrow> Inl (Failed Diverged) | Some r \<Rightarrow> r)"

definition main_iteration_with :: "features \<Rightarrow> ai_cfg \<Rightarrow> interpreter \<Rightarrow> shell \<Rightarrow> fin + shell" where
  "main_iteration_with ft acfg run s =
     (case on_mach (thenm (lift_x poll_events) (if ai_agent ft then task_run_once acfg else retm ())) s of
        Inl e \<Rightarrow> Inl e
      | Inr s' \<Rightarrow> shell_step_with run s')"

fun main_loop_with :: "features \<Rightarrow> ai_cfg \<Rightarrow> interpreter \<Rightarrow> nat \<Rightarrow> shell \<Rightarrow> fin + shell" where
  "main_loop_with ft acfg run 0 s = Inr s"
| "main_loop_with ft acfg run (Suc n) s =
     (case main_iteration_with ft acfg run s of Inl e \<Rightarrow> Inl e | Inr s' \<Rightarrow> main_loop_with ft acfg run n s')"

section \<open>The ring and the line without c and x\<close>

definition no_cx :: "shell \<Rightarrow> bool" where
  "no_cx s \<longleftrightarrow> shell_ok s \<and> untyped (keys s) \<and> set (the_line s) \<inter> never_typed = {}"

lemma no_cx_mach: "no_cx (s\<lparr>mach_st := m\<rparr>) = no_cx s"
  by (simp add: no_cx_def shell_ok_def line_ok_def the_line_def)

lemma on_mach_no_cx: "on_mach f s = Inr s' \<Longrightarrow> no_cx s \<Longrightarrow> no_cx s'"
  by (auto simp: on_mach_def no_cx_mach split: sum.splits)

lemma arrive_no_cx: "arrive codes s = Inr s' \<Longrightarrow> untyped (keys s) \<Longrightarrow> untyped (keys s') \<and> the_line s' = the_line s"
proof (induction codes s rule: arrive.induct)
  case (2 sc codes s)
  obtain tr k c where h: "handle_scancode sc (keys s, con (dev (mach_st s))) = (tr, k, c)"
    by (cases "handle_scancode sc (keys s, con (dev (mach_st s)))")
  let ?s = "s\<lparr>keys := k, mach_st := (mach_st s)\<lparr>dev := (dev (mach_st s))\<lparr>con := c\<rparr>\<rparr>\<rparr>"
  have ok: "untyped (keys ?s)" "the_line ?s = the_line s"
    using "2.prems"(2) untyped_handle [of "keys s" sc "con (dev (mach_st s))"] h by (simp_all add: the_line_def)
  show ?case
  proof (cases tr)
    case None
    have "arrive codes ?s = Inr s'" using "2.prems"(1) None by (simp add: h)
    then show ?thesis using "2.IH" [OF h [symmetric] refl refl refl None _ ok(1)] ok(2) by simp
  next
    case (Some combo)
    then show ?thesis using "2.prems"(1)
      by (simp add: h on_mach_def thenm_def bindm_def exit_machine_def out_fmt_def lift_x_def log_fmt_def upd_def)
  qed
qed simp

lemma poll_key_no_cx:
  assumes "poll_key s = Inr (b, s')" "no_cx s"
  shows "no_cx s'" "b = Some c \<Longrightarrow> c \<notin> never_typed"
proof -
  obtain t where t: "arrive (key_tape s (key_pos s)) (s\<lparr>key_pos := Suc (key_pos s)\<rparr>) = Inr t"
    "(case poll_char (keys t) of (b, k) \<Rightarrow> (b, t\<lparr>keys := k\<rparr>)) = (b, s')"
    using assms(1) by (auto simp: poll_key_def split: sum.splits prod.splits)
  have u: "untyped (keys t)" "the_line t = the_line s"
    using arrive_no_cx [OF t(1)] assms(2) by (simp_all add: no_cx_def the_line_def)
  then have pop: "case poll_char (keys t) of (b, k) \<Rightarrow> untyped k \<and> (\<forall>c. b = Some c \<longrightarrow> c \<notin> never_typed)"
    using kbuf.pop_items [of "keys t"] by (auto simp: untyped_def split: prod.splits option.splits)
  have "shell_ok s'" using poll_key_ok [OF assms(1)] assms(2) by (simp add: no_cx_def)
  moreover have "the_line s' = the_line s" using t(2) u(2) by (auto simp: the_line_def split: prod.splits)
  ultimately show "no_cx s'" using t(2) pop assms(2) by (auto simp: no_cx_def split: prod.splits)
  show "c \<notin> never_typed" if "b = Some c" using t(2) pop that by (auto split: prod.splits)
qed

lemma on_char_no_cx:
  assumes "on_char cfg c s = Inr s'" "no_cx s" "c \<notin> never_typed"
  shows "no_cx s'"
proof (cases "c = 10")
  case True
  then obtain t where t: "execute_line cfg s = Inr t" "on_mach prompt (clear_line t) = Inr s'"
    using assms(1) by (auto simp: on_char_def split: sum.splits)
  have "no_cx t" using t(1) on_mach_no_cx [OF _ assms(2)] by (auto simp: execute_line_def split: prod.splits)
  then have "no_cx (clear_line t)" using line_ok_clear [of t] by (simp add: no_cx_def shell_ok_def clear_line_def the_line_def)
  then show ?thesis by (rule on_mach_no_cx [OF t(2)])
next
  case False
  have l: "line_ok s" using assms(2) by (simp add: no_cx_def shell_ok_def)
  obtain "the_line s' = edit (the_line s) c" "keys s' = keys s" "shell_ok s'"
    using on_char_edits [OF l False, of cfg] on_char_ok [OF assms(1)] assms(1,2) by (auto simp: no_cx_def)
  then show ?thesis using assms(2,3) set_edit [of "the_line s" c] by (auto simp: no_cx_def)
qed

section \<open>Commands that make no difference\<close>

text \<open>The interpreter does what the kernel's does for every command but the three.\<close>

definition agrees_but :: "bytes set \<Rightarrow> cfg \<Rightarrow> interpreter \<Rightarrow> bool" where
  "agrees_but C cfg run \<longleftrightarrow> (\<forall>cmd arg. cmd \<notin> C \<longrightarrow> run cmd arg = run_command cfg cmd arg)"

definition untypable :: "bytes set" where
  "untypable = {str_bytes ''cat'', str_bytes ''hexdump'', str_bytes ''pci''}"

lemma line_not_untypable: "set l \<inter> never_typed = {} \<Longrightarrow> fst (split1 l) \<notin> untypable"
proof -
  assume "set l \<inter> never_typed = {}"
  then have "set (fst (split1 l)) \<inter> never_typed = {}" using set_split1 [of l] by auto
  moreover have "99 \<in> set (str_bytes ''cat'') \<inter> never_typed" "120 \<in> set (str_bytes ''hexdump'') \<inter> never_typed"
    "99 \<in> set (str_bytes ''pci'') \<inter> never_typed" by (simp_all add: str_bytes_def never_typed_def)
  ultimately show ?thesis by (auto simp: untypable_def)
qed

lemma on_char_same:
  assumes "agrees_but untypable cfg run" "no_cx s"
  shows "on_char_with run c s = on_char cfg c s"
proof -
  have "fst (split1 (take (LEN s) (LINE s))) \<notin> untypable"
    using line_not_untypable [of "the_line s"] assms(2) by (simp add: no_cx_def the_line_def)
  then have "execute_line_with run s = execute_line cfg s"
    using assms(1) by (auto simp: execute_line_with_def execute_line_def agrees_but_def split: prod.splits)
  then show ?thesis by (simp add: on_char_with_def on_char_def)
qed

lemma shell_loop_to:
  "shell_loop cfg s = Some r \<Longrightarrow> agrees_but untypable cfg run \<longrightarrow> no_cx s \<longrightarrow>
    shell_loop_with run s = Some r \<and> (\<forall>s'. r = Inr s' \<longrightarrow> no_cx s')"
proof (induction rule: shell_loop.raw_induct [rotated, consumes 1, case_names step])
  case (step loop cfg s r)
  show ?case
  proof (intro impI)
    assume a: "agrees_but untypable cfg run" and ok: "no_cx s"
    show "shell_loop_with run s = Some r \<and> (\<forall>s'. r = Inr s' \<longrightarrow> no_cx s')"
    proof (cases "poll_key s")
      case (Inl e)
      then show ?thesis using step(2) by (auto simp: shell_loop_with.simps)
    next
      case (Inr p)
      obtain b t where t: "poll_key s = Inr (b, t)" using Inr by (cases p) auto
      note p = poll_key_no_cx [OF t ok]
      show ?thesis
      proof (cases b)
        case None
        then show ?thesis using step(2) t p(1) by (auto simp: shell_loop_with.simps)
      next
        case (Some c)
        note same = on_char_same [OF a p(1), of c]
        show ?thesis
        proof (cases "on_char cfg c t")
          case (Inl e)
          then have "r = Inl e" using step(2) t Some by simp
          then show ?thesis using t Some same Inl by (subst shell_loop_with.simps) simp
        next
          case (Inr u)
          then have "loop cfg u = Some r" using step(2) t Some by simp
          moreover have "no_cx u" by (rule on_char_no_cx [OF Inr p(1) p(2) [OF Some]])
          ultimately have "shell_loop_with run u = Some r \<and> (\<forall>s'. r = Inr s' \<longrightarrow> no_cx s')" using step(1) a by blast
          then show ?thesis using t Some same Inr by (subst shell_loop_with.simps) simp
        qed
      qed
    qed
  qed
qed

lemma shell_loop_from:
  "shell_loop_with run s = Some r \<Longrightarrow> agrees_but untypable cfg run \<longrightarrow> no_cx s \<longrightarrow> shell_loop cfg s = Some r"
proof (induction rule: shell_loop_with.raw_induct [rotated, consumes 1, case_names step])
  case (step loop run s r)
  show ?case
  proof (intro impI)
    assume a: "agrees_but untypable cfg run" and ok: "no_cx s"
    show "shell_loop cfg s = Some r"
    proof (cases "poll_key s")
      case (Inl e)
      then show ?thesis using step(2) by (simp add: shell_loop.simps)
    next
      case (Inr p)
      obtain b t where t: "poll_key s = Inr (b, t)" using Inr by (cases p) auto
      note p = poll_key_no_cx [OF t ok]
      show ?thesis
      proof (cases b)
        case None
        then show ?thesis using step(2) t by (auto simp: shell_loop.simps)
      next
        case (Some c)
        note same = on_char_same [OF a p(1), of c]
        show ?thesis
        proof (cases "on_char cfg c t")
          case (Inl e)
          then have "r = Inl e" using step(2) t Some same by simp
          then show ?thesis using t Some Inl by (subst shell_loop.simps) simp
        next
          case (Inr u)
          then have "loop run u = Some r" using step(2) t Some same by simp
          moreover have "no_cx u" by (rule on_char_no_cx [OF Inr p(1) p(2) [OF Some]])
          ultimately have "shell_loop cfg u = Some r" using step(1) a by blast
          then show ?thesis using t Some Inr by (subst shell_loop.simps) simp
        qed
      qed
    qed
  qed
qed

lemma shell_step_same:
  assumes "agrees_but untypable cfg run" "no_cx s"
  shows "shell_step_with run s = shell_step cfg s" "shell_step cfg s = Inr s' \<Longrightarrow> no_cx s'"
proof -
  show "shell_step_with run s = shell_step cfg s"
  proof (cases "shell_loop cfg s")
    case None
    then have "shell_loop_with run s = None" using shell_loop_from [of run s _ cfg] assms by (cases "shell_loop_with run s") auto
    then show ?thesis using None by (simp add: shell_step_with_def shell_step_def)
  next
    case (Some r)
    then show ?thesis using shell_loop_to [OF Some] assms by (simp add: shell_step_with_def shell_step_def)
  qed
  show "no_cx s'" if "shell_step cfg s = Inr s'"
  proof -
    have "shell_loop cfg s = Some (Inr s')" using that by (auto simp: shell_step_def split: option.splits)
    from shell_loop_to [OF this] assms show ?thesis by blast
  qed
qed

lemma main_iteration_same:
  assumes "agrees_but untypable cfg run" "no_cx s"
  shows "main_iteration_with ft acfg run s = main_iteration ft acfg cfg s" "main_iteration ft acfg cfg s = Inr s' \<Longrightarrow> no_cx s'"
proof -
  let ?f = "on_mach (thenm (lift_x poll_events) (if ai_agent ft then task_run_once acfg else retm ())) s"
  have "no_cx t" if "?f = Inr t" for t using on_mach_no_cx [OF that assms(2)] .
  then show "main_iteration_with ft acfg run s = main_iteration ft acfg cfg s" "main_iteration ft acfg cfg s = Inr s' \<Longrightarrow> no_cx s'"
    using shell_step_same [OF assms(1)] by (auto simp: main_iteration_with_def main_iteration_def split: sum.splits)
qed

lemma main_loop_same:
  "agrees_but untypable cfg run \<Longrightarrow> no_cx s \<Longrightarrow> main_loop_with ft acfg run n s = main_loop ft acfg cfg n s"
proof (induction n arbitrary: s)
  case (Suc n)
  note it = main_iteration_same [OF Suc.prems, of ft acfg]
  show ?case using it Suc.IH [OF Suc.prems(1)] by (auto split: sum.split)
qed simp

lemma shell_boot_no_cx: "no_cx (shell_boot tape m)"
  using kbd_ok_static
  by (simp add: no_cx_def shell_ok_def line_ok_def the_line_def shell_boot_def untyped_def)

section \<open>Properties\<close>

text \<open>C40: no sequence of scancodes of the PS/2 keyboard ever makes the shell run \<^verbatim>\<open>cat\<close>, \<^verbatim>\<open>hexdump\<close> or
  \<^verbatim>\<open>pci\<close>: over any number of iterations of the main loop, with any keyboard interrupts at every poll and
  any machine, the kernel does exactly what it would do if these three commands were replaced by anything
  else, stopping the machine included. The scancode handler treats the keys C and X as halves of the
  shutdown combinations even when control is not held, so the letters c and x never enter the ring.\<close>

theorem typed_commands_exclude_cat:
  assumes "\<And>cmd arg. cmd \<notin> {str_bytes ''cat'', str_bytes ''hexdump'', str_bytes ''pci''} \<Longrightarrow> run cmd arg = run_command cfg cmd arg"
  shows "main_loop_with ft acfg run n (shell_boot tape m) = main_loop ft acfg cfg n (shell_boot tape m)"
  by (rule main_loop_same [OF _ shell_boot_no_cx]) (use assms in \<open>simp add: agrees_but_def untypable_def\<close>)

theorem typed_commands_exclude_cat_witness:
  "main_loop_with default_features cfg_default
      (\<lambda>cmd arg. if cmd = str_bytes ''cat'' \<or> cmd = str_bytes ''hexdump'' \<or> cmd = str_bytes ''pci'' then exit_machine 1
        else run_command example_cfg cmd arg) 3 (shell_boot (\<lambda>_. [0x2E, 0x1E, 0x14, 0x1C]) example_mach) =
   main_loop default_features cfg_default example_cfg 3 (shell_boot (\<lambda>_. [0x2E, 0x1E, 0x14, 0x1C]) example_mach)"
  by (rule typed_commands_exclude_cat) simp

end
