(* ===== verification/Ai_Main.thy ===== *)
theory Ai_Main
  imports Ai_Agent Xhci_Ring
begin

text \<open>
  The two functions of \<^verbatim>\<open>kernel/src/ai_agent.rs\<close> that stand beside the agent's task: the stand-alone loop
  \<^verbatim>\<open>ai_agent_main\<close>, whose rounds are the steps of the task, and the integer matrix product
  \<^verbatim>\<open>matmul_int8\<close> over raw pointers, which may alias.
\<close>

section \<open>The stand-alone loop\<close>

text \<open>The locals of the loop are the fields of an agent's state; \<^verbatim>\<open>hlt\<close> only waits for the next interrupt.\<close>

definition main_round :: "ai_cfg \<Rightarrow> mem \<Rightarrow> pmm \<Rightarrow> 't sched \<Rightarrow> usize \<Rightarrow> AgentState \<Rightarrow> kern \<Rightarrow> (AgentState \<times> kern) option" where
  "main_round cfg m p tasks model_len ag st =
     (let (tel, t, f, c) = gather_telemetry p tasks (prev_ticks ag) (prev_pf ag) (sens st);
          st = st\<lparr>sens := c\<rparr>;
          ag = ag\<lparr>prev_ticks := t, prev_pf := f\<rparr>
      in Option.bind (infer_and_propose cfg m model_len (hdr ag) tel (scratch ag) (model_ptr ag))
           (\<lambda>(action, scr).
              (let ag = ag\<lparr>scratch := scr\<rparr>
               in if flags action AND NEEDS_MANUAL_CONFIRM \<noteq> 0 then Some (ag, st)
                  else Option.bind (ai_propose_action (Some action) (Some ActionOutcome_default) st)
                         (\<lambda>(_, _, st). Some (ag, st)))))"

text \<open>\<open>n\<close> rounds of the loop, none when the agent is not running (nothing in the kernel stores to \<^verbatim>\<open>AI_RUNNING\<close>); without a model the function idles.\<close>

fun main_rounds :: "ai_cfg \<Rightarrow> mem \<Rightarrow> pmm \<Rightarrow> 't sched \<Rightarrow> usize \<Rightarrow> bool \<Rightarrow> nat \<Rightarrow> AgentState \<Rightarrow> kern \<Rightarrow> (AgentState \<times> kern) option" where
  "main_rounds cfg m p tasks model_len running 0 ag st = Some (ag, st)"
| "main_rounds cfg m p tasks model_len running (Suc n) ag st =
     (if running
      then Option.bind (main_round cfg m p tasks model_len ag st) (\<lambda>(ag, st). main_rounds cfg m p tasks model_len running n ag st)
      else Some (ag, st))"

definition ai_agent_main :: "ai_cfg \<Rightarrow> mem \<Rightarrow> pmm \<Rightarrow> 't sched \<Rightarrow> usize \<Rightarrow> bool \<Rightarrow> u64 \<Rightarrow> nat \<Rightarrow> kern \<Rightarrow> (AgentState option \<times> kern) option" where
  "ai_agent_main cfg m p tasks model_len running model_addr n st =
     (case load_model m model_addr of
        None \<Rightarrow> Some (None, st)
      | Some model \<Rightarrow>
          (let (t, c) = timer_ticks (sens st); (f, c) = page_faults c
           in map_option (\<lambda>(ag, st). (Some ag, st))
                (main_rounds cfg m p tasks model_len running n
                   \<lparr>hdr = load_header m model, model_ptr = model, prev_ticks = t, prev_pf = f, scratch = replicate 1024 0\<rparr> (st\<lparr>sens := c\<rparr>))))"

text \<open>The same rounds through the task's entry point.\<close>

fun steps :: "ai_cfg \<Rightarrow> mem \<Rightarrow> pmm \<Rightarrow> 't sched \<Rightarrow> nat \<Rightarrow> agent \<Rightarrow> kern \<Rightarrow> (agent \<times> kern) option" where
  "steps cfg m p tasks 0 a st = Some (a, st)"
| "steps cfg m p tasks (Suc n) a st = Option.bind (agent_step cfg m p tasks a st) (\<lambda>(a, st). steps cfg m p tasks n a st)"

lemma agent_step_round:
  assumes "AGENT_STATE a = Some ag" "AI_RUNNING a"
  shows "agent_step cfg m p tasks a st =
    map_option (\<lambda>(ag', st'). (a\<lparr>AGENT_STATE := Some ag'\<rparr>, st')) (main_round cfg m p tasks (AI_MODEL_LEN (link a)) ag st)"
proof -
  obtain tel t f c where g: "gather_telemetry p tasks (prev_ticks ag) (prev_pf ag) (sens st) = (tel, t, f, c)"
    by (metis prod.exhaust)
  show ?thesis
  proof (cases "infer_and_propose cfg m (AI_MODEL_LEN (link a)) (hdr ag) tel (scratch ag) (model_ptr ag)")
    case None
    then show ?thesis using assms g by (simp add: agent_step_def main_round_def ensure_init_def)
  next
    case (Some r)
    then show ?thesis using assms g
      by (cases r; cases "ai_propose_action (Some (fst r)) (Some ActionOutcome_default) (st\<lparr>sens := c\<rparr>)")
        (auto simp: agent_step_def main_round_def ensure_init_def Let_def)
  qed
qed

lemma steps_rounds:
  "AGENT_STATE a = Some ag \<Longrightarrow> AI_RUNNING a \<Longrightarrow> steps cfg m p tasks n a st =
     map_option (\<lambda>(ag', st'). (a\<lparr>AGENT_STATE := Some ag'\<rparr>, st')) (main_rounds cfg m p tasks (AI_MODEL_LEN (link a)) True n ag st)"
proof (induction n arbitrary: a ag st)
  case 0
  then show ?case by (cases a) simp
next
  case (Suc n)
  show ?case
  proof (cases "main_round cfg m p tasks (AI_MODEL_LEN (link a)) ag st")
    case None
    then show ?thesis using agent_step_round [OF Suc.prems, of cfg m p tasks st] by simp
  next
    case (Some r)
    obtain ag1 st1 where r: "r = (ag1, st1)" by (cases r)
    have "steps cfg m p tasks n (a\<lparr>AGENT_STATE := Some ag1\<rparr>) st1 =
      map_option (\<lambda>(ag', st'). (a\<lparr>AGENT_STATE := Some ag'\<rparr>, st')) (main_rounds cfg m p tasks (AI_MODEL_LEN (link a)) True n ag1 st1)"
      using Suc.IH [of "a\<lparr>AGENT_STATE := Some ag1\<rparr>" ag1 st1] Suc.prems(2) by simp
    then show ?thesis using agent_step_round [OF Suc.prems, of cfg m p tasks st] Some r by simp
  qed
qed

lemma steps_without_model:
  "AGENT_STATE a = None \<Longrightarrow> load_model m (AI_MODEL_ADDR (link a)) = None \<Longrightarrow> steps cfg m p tasks n a st = Some (a, st)"
  by (induction n) (simp_all add: agent_step_def ensure_init_def)

lemma steps_first_init:
  assumes "AGENT_STATE a = None" "load_model m (AI_MODEL_ADDR (link a)) = Some model" "timer_ticks (sens st) = (t, c)" "page_faults c = (f, c')"
  shows "steps cfg m p tasks (Suc n) a st = steps cfg m p tasks (Suc n)
    (a\<lparr>AGENT_STATE := Some \<lparr>hdr = load_header m model, model_ptr = model, prev_ticks = t, prev_pf = f, scratch = replicate 1024 0\<rparr>\<rparr>)
    (st\<lparr>sens := c'\<rparr>)"
  using assms by (simp add: agent_step_def ensure_init_def)

text \<open>
  The stand-alone loop and the scheduled task are the same program: \<open>n + 1\<close> rounds of \<^verbatim>\<open>ai_agent_main\<close> on the
  linked model leave the agent and the kernel as \<open>n + 1\<close> calls of the task's entry point do.
\<close>

theorem ai_agent_main_is_task:
  assumes "AGENT_STATE a = None" "AI_RUNNING a"
  shows "ai_agent_main cfg m p tasks (AI_MODEL_LEN (link a)) True (AI_MODEL_ADDR (link a)) (Suc n) st =
    map_option (\<lambda>(a', st'). (AGENT_STATE a', st')) (steps cfg m p tasks (Suc n) a st)"
proof (cases "load_model m (AI_MODEL_ADDR (link a))")
  case None
  then show ?thesis using steps_without_model [OF assms(1) None, where n = "Suc n" and tasks = tasks] None assms(1) by (simp add: ai_agent_main_def del: steps.simps)
next
  case (Some model)
  obtain t c f c' where r: "timer_ticks (sens st) = (t, c)" "page_faults c = (f, c')" by (metis prod.exhaust)
  let ?ag = "\<lparr>hdr = load_header m model, model_ptr = model, prev_ticks = t, prev_pf = f, scratch = replicate 1024 0\<rparr>"
  have "steps cfg m p tasks (Suc n) a st =
    map_option (\<lambda>(ag', st'). (a\<lparr>AGENT_STATE := Some ag'\<rparr>, st'))
      (main_rounds cfg m p tasks (AI_MODEL_LEN (link a)) True (Suc n) ?ag (st\<lparr>sens := c'\<rparr>))"
    using steps_rounds [of "a\<lparr>AGENT_STATE := Some ?ag\<rparr>" ?ag cfg m p tasks "Suc n" "st\<lparr>sens := c'\<rparr>"] assms
    by (simp add: steps_first_init [OF assms(1) Some r] del: steps.simps main_rounds.simps)
  then show ?thesis using Some r
    by (simp add: ai_agent_main_def option.map_comp comp_def case_prod_beta' del: steps.simps main_rounds.simps)
qed

section \<open>The matrix product\<close>

text \<open>
  The operands are bytes read as \<^verbatim>\<open>i8\<close>, the sum is an \<^verbatim>\<open>i32\<close> that wraps, and each cell is stored as four
  bytes before the next cell is read, so that an output overlapping an operand changes later cells.
\<close>

definition dot :: "mem \<Rightarrow> u64 \<Rightarrow> u64 \<Rightarrow> nat \<Rightarrow> nat \<Rightarrow> nat \<Rightarrow> i32" where
  "dot mm a_row b n j k =
     fold (\<lambda>p acc. acc + scast (mm (a_row + of_nat p)) * scast (mm (b + of_nat (p * n + j)))) [0..<k] 0"

definition matmul_cell :: "u64 \<Rightarrow> u64 \<Rightarrow> u64 \<Rightarrow> nat \<Rightarrow> nat \<Rightarrow> nat \<Rightarrow> nat \<Rightarrow> mem \<Rightarrow> mem" where
  "matmul_cell a b out n k i j mm =
     write_bytes mm (out + of_nat (4 * (i * n + j))) (word_le 4 (dot mm (a + of_nat (i * k)) b n j k))"

definition matmul_int8 :: "u64 \<Rightarrow> u64 \<Rightarrow> u64 \<Rightarrow> nat \<Rightarrow> nat \<Rightarrow> nat \<Rightarrow> mem \<Rightarrow> mem" where
  "matmul_int8 a b out m n k mm = fold (\<lambda>i. fold (matmul_cell a b out n k i) [0..<n]) [0..<m] mm"

text \<open>The entry of the product over the integers, and what a caller reads back from the output.\<close>

definition entry_sum :: "mem \<Rightarrow> u64 \<Rightarrow> u64 \<Rightarrow> nat \<Rightarrow> nat \<Rightarrow> nat \<Rightarrow> nat \<Rightarrow> int" where
  "entry_sum mm a b n k i j = (\<Sum>p < k. sint (mm (a + of_nat (i * k + p))) * sint (mm (b + of_nat (p * n + j))))"

lemma scast_i8: "(scast (w :: u8) :: i32) = of_int (sint w)"
  by simp

lemma dot_sum: "dot mm (a + of_nat (i * k)) b n j k = of_int (entry_sum mm a b n k i j)"
proof -
  let ?f = "\<lambda>p acc. acc + scast (mm (a + of_nat (i * k) + of_nat p)) * scast (mm (b + of_nat (p * n + j))) :: i32"
  have "fold ?f [0..<l] 0 = of_int (\<Sum>p < l. sint (mm (a + of_nat (i * k + p))) * sint (mm (b + of_nat (p * n + j))))" for l
    by (induction l) (simp_all add: algebra_simps)
  then show ?thesis by (simp add: dot_def entry_sum_def)
qed

definition out_cell :: "mem \<Rightarrow> u64 \<Rightarrow> nat \<Rightarrow> i32" where
  "out_cell mm out t = le_word (read_bytes mm (out + of_nat (4 * t)) 4)"

lemma fold_rows: "fold (\<lambda>i. fold (g i) [0..<n]) [0..<m] s = fold (\<lambda>t. g (t div n) (t mod n)) [0..<m * n] s"
proof (induction m)
  case (Suc m)
  have "[0..<Suc m * n] = [0..<m * n] @ map (\<lambda>j. j + m * n) [0..<n]"
    using upt_add_eq_append [of 0 "m * n" n] by (simp add: map_add_upt add.commute)
  moreover have "fold (\<lambda>j. g ((j + m * n) div n) ((j + m * n) mod n)) [0..<n] u = fold (g m) [0..<n] u" for u
    by (rule fold_cong) auto
  ultimately show ?case using Suc.IH by (simp add: fold_map comp_def)
qed simp

lemma below_block:
  assumes "r < s" "s + 4 \<le> 2 ^ 64"
  shows "base + of_nat r \<notin> region (base + of_nat s) 4"
proof
  assume r: "base + of_nat r \<in> region (base + of_nat s) 4"
  define e where "e = (of_nat r - of_nat s :: u64)"
  have e: "unat e < 4" using r by (simp add: region_def e_def)
  have "(of_nat r :: u64) = of_nat (s + unat e)" by (simp add: e_def)
  from arg_cong [OF this, of unat] have "r mod 2 ^ 64 = (s + unat e) mod 2 ^ 64"
    by (simp only: unat_of_nat take_bit_eq_mod) simp
  then show False using assms e by simp
qed

lemma in_block: "r < n \<Longrightarrow> base + of_nat r \<in> region base n"
  using mod_less_eq_dividend [of r "2 ^ 64"] by (simp add: region_def unat_of_nat take_bit_eq_mod)


lemma block_within:
  assumes "s + 4 \<le> n" "n \<le> 2 ^ 64"
  shows "region (base + of_nat s) 4 \<subseteq> region base n"
proof
  fix x assume "x \<in> region (base + of_nat s) 4"
  then have lt: "unat (x - (base + of_nat s)) < 4" by (simp add: region_def)
  have s: "unat (of_nat s :: u64) = s" using assms by (simp only: unat_of_nat) (simp add: take_bit_nat_eq_self)
  have "x - base = (x - (base + of_nat s)) + of_nat s" by simp
  then have "unat (x - base) = unat (x - (base + of_nat s)) + s"
    using unat_add_no_wrap [of "x - (base + of_nat s)" "of_nat s"] lt s assms by (simp only:) simp
  then show "x \<in> region base n" using lt assms(1) by (simp add: region_def)
qed

lemma entry_sum_cong:
  assumes "\<And>x. x \<in> region a (m * k) \<union> region b (k * n) \<Longrightarrow> mm' x = mm x" "i < m" "j < n"
  shows "entry_sum mm' a b n k i j = entry_sum mm a b n k i j"
  unfolding entry_sum_def
proof (rule sum.cong)
  fix p assume "p \<in> {..<k}"
  then have "i * k + p < m * k" "p * n + j < k * n"
    using assms(2,3) mult_le_mono1 [of "Suc i" m k] mult_le_mono1 [of "Suc p" k n] by simp_all
  then show "sint (mm' (a + of_nat (i * k + p))) * sint (mm' (b + of_nat (p * n + j))) =
      sint (mm (a + of_nat (i * k + p))) * sint (mm (b + of_nat (p * n + j)))"
    using assms(1) in_block by (metis UnI1 UnI2)
qed simp

lemma cells_done:
  assumes space: "4 * (m * n) \<le> 2 ^ 64" and sep: "(region a (m * k) \<union> region b (k * n)) \<inter> region out (4 * (m * n)) = {}"
    and "0 < n" "T \<le> m * n"
  shows "(\<forall>x. x \<notin> region out (4 * (m * n)) \<longrightarrow>
      fold (\<lambda>t. matmul_cell a b out n k (t div n) (t mod n)) [0..<T] mm x = mm x) \<and>
    (\<forall>t < T. out_cell (fold (\<lambda>t. matmul_cell a b out n k (t div n) (t mod n)) [0..<T] mm) out t =
      of_int (entry_sum mm a b n k (t div n) (t mod n)))"
  using assms(4)
proof (induction T)
  case (Suc T)
  let ?mm = "fold (\<lambda>t. matmul_cell a b out n k (t div n) (t mod n)) [0..<T] mm"
  let ?i = "T div n" and ?j = "T mod n" and ?o = "out + of_nat (4 * T)"
  have same: "\<forall>x. x \<notin> region out (4 * (m * n)) \<longrightarrow> ?mm x = mm x"
    and cells: "\<forall>t < T. out_cell ?mm out t = of_int (entry_sum mm a b n k (t div n) (t mod n))"
    using Suc by simp_all
  have ij: "?i < m" "?j < n" using Suc.prems assms(3) by (simp_all add: less_mult_imp_div_less)
  have "entry_sum ?mm a b n k ?i ?j = entry_sum mm a b n k ?i ?j"
    by (rule entry_sum_cong [OF _ ij]) (use same sep in blast)
  then have w: "matmul_cell a b out n k ?i ?j ?mm = write_bytes ?mm ?o (word_le 4 (of_int (entry_sum mm a b n k ?i ?j) :: i32))"
    by (simp only: matmul_cell_def dot_sum div_mult_mod_eq)
  have block: "region ?o 4 \<subseteq> region out (4 * (m * n))"
    by (rule block_within) (use Suc.prems space in simp_all)
  have old: "out_cell (write_bytes ?mm ?o (word_le 4 v)) out t = out_cell ?mm out t" if "t < T" for t and v :: i32
  proof -
    have "out + of_nat (4 * t) + of_nat d \<notin> region ?o 4" if "d < 4" for d
      using below_block [of "4 * t + d" "4 * T" out] \<open>t < T\<close> that Suc.prems space by (simp add: add.assoc)
    then show ?thesis unfolding out_cell_def read_bytes_def
      by (intro arg_cong [where f = le_word] map_cong) (simp_all add: read_other_byte)
  qed
  have new: "out_cell (write_bytes ?mm ?o (word_le 4 v)) out T = v" for v :: i32
    using read_bytes_write_same [of "word_le 4 v" 0 4 ?mm ?o] by (simp add: out_cell_def word_le_u32)
  have other: "write_bytes ?mm ?o (word_le 4 v) x = mm x" if "x \<notin> region out (4 * (m * n))" for x and v :: i32
    using that same block read_other_byte [of x ?o "word_le 4 v" ?mm] by (simp del: of_nat_mult) blast
  show ?case
    using cells old new other by (auto simp: w less_Suc_eq)
qed simp

lemma entry_sum_range:
  "- (int k * 2 ^ 14) \<le> entry_sum mm a b n k i j" "entry_sum mm a b n k i j \<le> int k * 2 ^ 14"
proof -
  let ?t = "\<lambda>p. sint (mm (a + of_nat (i * k + p))) * sint (mm (b + of_nat (p * n + j)))"
  have abs: "\<bar>sint (w :: u8)\<bar> \<le> 2 ^ 7" for w using sint_i8_range [of w] by simp
  have "\<bar>?t p\<bar> \<le> 2 ^ 14" for p
    using mult_mono [OF abs abs] by (simp add: abs_mult)
  then have "\<bar>entry_sum mm a b n k i j\<bar> \<le> (\<Sum>p < k. 2 ^ 14)"
    unfolding entry_sum_def by (intro order_trans [OF sum_abs] sum_mono)
  then show "- (int k * 2 ^ 14) \<le> entry_sum mm a b n k i j" "entry_sum mm a b n k i j \<le> int k * 2 ^ 14" by simp_all
qed

text \<open>
  With the output separate from both operands, every cell is the entry of the integer product modulo \<open>2\<^sup>3\<^sup>2\<close>,
  exactly the entry when the inner dimension is below \<open>2\<^sup>1\<^sup>7\<close>, and no byte outside the output changes.
\<close>

lemma matmul_product:
  assumes "4 * (m * n) \<le> 2 ^ 64" "(region a (m * k) \<union> region b (k * n)) \<inter> region out (4 * (m * n)) = {}" "i < m" "j < n"
  shows "out_cell (matmul_int8 a b out m n k mm) out (i * n + j) = of_int (entry_sum mm a b n k i j)"
    and "k < 2 ^ 17 \<Longrightarrow> sint (out_cell (matmul_int8 a b out m n k mm) out (i * n + j)) = entry_sum mm a b n k i j"
    and "x \<notin> region out (4 * (m * n)) \<Longrightarrow> matmul_int8 a b out m n k mm x = mm x"
proof -
  have t: "i * n + j < m * n" using assms(3,4) mult_le_mono1 [of "Suc i" m n] by simp
  note cells = cells_done [OF assms(1,2) _ order_refl, of mm, folded fold_rows [of "matmul_cell a b out n k"], folded matmul_int8_def]
  show e: "out_cell (matmul_int8 a b out m n k mm) out (i * n + j) = of_int (entry_sum mm a b n k i j)"
    using cells t assms(4) by simp
  show "x \<notin> region out (4 * (m * n)) \<Longrightarrow> matmul_int8 a b out m n k mm x = mm x" using cells assms(4) by blast
  assume "k < 2 ^ 17"
  then show "sint (out_cell (matmul_int8 a b out m n k mm) out (i * n + j)) = entry_sum mm a b n k i j"
    unfolding e using entry_sum_range [where k = k and mm = mm and a = a and b = b and n = n and i = i and j = j] by (intro sint_i32) simp_all
qed

end
