(* ===== verification/Preemption.thy ===== *)
theory Preemption
  imports Idt
begin

text \<open>
  The locks of the two consoles (\<^verbatim>\<open>static CONSOLE\<close> in \<^verbatim>\<open>vga.rs\<close>, \<^verbatim>\<open>static SERIAL\<close> in \<^verbatim>\<open>serial.rs\<close>) when
  interrupts are on. The kernel makes any sequence of calls of the two modules; every call takes its
  module's lock, makes its accesses one after the other and lets the lock go; between any two of these
  steps an interrupt may be delivered, whose handler runs to its end because the gates keep interrupts off.
  A handler that needs a lock of the interrupted code waits for ever.

  The reachable states are described by a history of completed calls and interrupts: the calls are atomic,
  and the machine can be brought to a standstill exactly inside the locked sections.
\<close>

section \<open>Calls as sequences of accesses\<close>

datatype console_call = is_Screen: Screen vga_call | SerialStr bytes | SerialFmt bytes

datatype console_access = is_Cells: Cells "Console \<Rightarrow> Console" | SendByte u8 | DebugBytes bytes

fun screen_section :: "vga_call \<Rightarrow> Console \<Rightarrow> (Console \<Rightarrow> Console) list" where
  "screen_section VInit c = map fill_row [0..<BUFFER_HEIGHT] @ [\<lambda>c. c\<lparr>column_position := 0, row_position := 0\<rparr>]"
| "screen_section (VWriteStr m) c = map write_str_byte m"
| "screen_section (VWriteLine m) c = map write_str_byte m @ [new_line]"
| "screen_section (VPutChar ch) c = (if ch = 10 then [new_line] else map Console_write_byte (encode_utf8 ch))"
| "screen_section VBackspace c = [Console_backspace]"
| "screen_section (VSetStyle st) c = [\<lambda>c. c\<lparr>style := st\<rparr>]"
| "screen_section (VFmt m) c = map write_str_byte m"
| "screen_section (VPanic i) c =
     (let saved_style = style c
      in [\<lambda>c. c\<lparr>style := 0x4f\<rparr>] @ map write_str_byte (str_bytes ''panic: '' @ i @ [10]) @ [\<lambda>c. c\<lparr>style := saved_style\<rparr>])"

definition serial_section :: "bytes \<Rightarrow> io \<Rightarrow> console_access list" where
  "serial_section m s = (if \<not> INITIALIZED s then [DebugBytes m] else map SendByte m)"

text \<open>What a call does before its first access: \<^verbatim>\<open>serial::write_str\<close> traces itself on the debug port, then the
  lock is taken, which \<^verbatim>\<open>serial\<close> does only once its port is initialised.\<close>

fun enter_call :: "console_call \<Rightarrow> cpu \<Rightarrow> cpu \<times> console_access list" where
  "enter_call (Screen v) s = (s\<lparr>con_locked := True\<rparr>, map Cells (screen_section v (cpu_con s)))"
| "enter_call (SerialStr m) s =
     (s\<lparr>cpu_io := dbg_str (str_bytes ''serial: write_str'' @ [10]) (cpu_io s), ser_locked := INITIALIZED (cpu_io s)\<rparr>,
      serial_section m (cpu_io s))"
| "enter_call (SerialFmt m) s = (s\<lparr>ser_locked := INITIALIZED (cpu_io s)\<rparr>, serial_section m (cpu_io s))"

fun make_access :: "console_access \<Rightarrow> cpu \<Rightarrow> cpu" where
  "make_access (Cells f) s = s\<lparr>cpu_con := f (cpu_con s)\<rparr>"
| "make_access (SendByte b) s = s\<lparr>cpu_io := SerialPort_write_byte b (cpu_io s)\<rparr>"
| "make_access (DebugBytes m) s = s\<lparr>cpu_io := dbg_fmt m (cpu_io s)\<rparr>"

definition leave_call :: "cpu \<Rightarrow> cpu" where
  "leave_call s = s\<lparr>con_locked := False, ser_locked := False\<rparr>"

section \<open>Interrupts between the accesses\<close>

datatype point = Outside | Inside console_call "console_access list" | Waits | Stops

datatype happening = Called console_call | Interrupted InterruptIndex frame

record interrupted =
  core :: cpu
  point :: point
  happened :: "happening list"

inductive preempt_step :: "interrupted \<Rightarrow> interrupted \<Rightarrow> bool" where
  enter: "point p = Outside \<Longrightarrow> enter_call v (core p) = (s, as) \<Longrightarrow>
    preempt_step p (p\<lparr>core := s, point := Inside v as\<rparr>)"
| access: "point p = Inside v (a # as) \<Longrightarrow>
    preempt_step p (p\<lparr>core := make_access a (core p), point := Inside v as\<rparr>)"
| leave: "point p = Inside v [] \<Longrightarrow>
    preempt_step p (p\<lparr>core := leave_call (core p), point := Outside, happened := happened p @ [Called v]\<rparr>)"
| returns: "point p = Outside \<or> point p = Inside v as \<Longrightarrow> deliver (Vector (as_usize i)) f (core p) = Returns s \<Longrightarrow>
    preempt_step p (p\<lparr>core := s, happened := happened p @ [Interrupted i f]\<rparr>)"
| halts: "point p = Outside \<or> point p = Inside v as \<Longrightarrow> deliver (Vector (as_usize i)) f (core p) = Halts s \<Longrightarrow>
    preempt_step p (p\<lparr>core := s, point := Stops\<rparr>)"
| spins: "point p = Outside \<or> point p = Inside v as \<Longrightarrow> deliver (Vector (as_usize i)) f (core p) = Spins \<Longrightarrow>
    preempt_step p (p\<lparr>point := Waits\<rparr>)"

definition undisturbed :: "cpu \<Rightarrow> interrupted" where
  "undisturbed s = \<lparr>core = s, point = Outside, happened = []\<rparr>"

section \<open>What a history amounts to\<close>

text \<open>The keyboard and the console after an event that nothing interleaves with, and what it sends to COM1.\<close>

fun happening_effect :: "happening \<Rightarrow> kbd \<times> Console \<Rightarrow> kbd \<times> Console" where
  "happening_effect (Called (Screen v)) st = (fst st, vga_exec v (snd st))"
| "happening_effect (Interrupted Keyboard f) st = snd (handle_scancode (port_0x60 f) st)"
| "happening_effect _ st = st"

fun happening_sends :: "happening \<Rightarrow> bytes" where
  "happening_sends (Called (SerialStr m)) = with_cr m"
| "happening_sends (Called (SerialFmt m)) = with_cr m"
| "happening_sends _ = []"

section \<open>Sections run alone\<close>

lemma screen_section_runs: "fold (\<lambda>f. f) (screen_section v c) c = vga_exec v c"
  by (cases v) (simp_all add: vga_init_def Console_clear_def vga_write_str_def Console_write_str_def vga_write_line_def
    vga_put_char_def write_char_def vga_backspace_def vga_set_style_def vga_fmt_def vga_panic_def fold_map Let_def comp_def)

fun bytes_left :: "console_access list \<Rightarrow> bytes" where
  "bytes_left [] = []"
| "bytes_left (SendByte b # as) = with_cr [b] @ bytes_left as"
| "bytes_left (_ # as) = bytes_left as"

fun cells_left :: "console_access list \<Rightarrow> Console \<Rightarrow> Console" where
  "cells_left [] c = c"
| "cells_left (Cells f # as) c = cells_left as (f c)"
| "cells_left (_ # as) c = cells_left as c"

lemma bytes_left_Send: "bytes_left (map SendByte m) = with_cr m"
  by (induction m) (simp_all add: with_cr_def)

lemma cells_left_none: "list_all (\<lambda>a. \<not> is_Cells a) as \<Longrightarrow> cells_left as c = c"
proof (induction as)
  case (Cons a as)
  then show ?case by (cases a) simp_all
qed simp

lemma cells_left_Send: "cells_left (map SendByte m) c = c"
  by (simp add: cells_left_none list_all_iff)

lemma cells_left_Cells: "cells_left (map Cells fs) c = fold (\<lambda>f. f) fs c"
  by (induction fs arbitrary: c) simp_all

lemma bytes_left_Cells: "bytes_left (map Cells fs) = []"
  by (induction fs) simp_all

section \<open>What handlers leave alone\<close>

lemma keys_ignore_console: "fst (snd (handle_scancode sc (k, c))) = fst (snd (handle_scancode sc (k, c')))"
  by (auto simp: handle_scancode_def Let_def echo_def split: option.splits)

lemma non_keyboard_quiet:
  "i \<noteq> Keyboard \<Longrightarrow> run_gate (irq_gate i) f s = Returns s' \<Longrightarrow>
     con_locked s' = con_locked s \<and> ser_locked s' = ser_locked s \<and> INITIALIZED (cpu_io s') = INITIALIZED (cpu_io s)"
  by (cases i) (auto simp: timer_def irq_handler_def notify_end_of_interrupt_def debug_line_def Let_def split: if_splits)

lemma keyboard_quiet:
  assumes "keyboard sc s = Returns s'"
  shows "con_locked s' = con_locked s \<and> ser_locked s' = ser_locked s \<and> cpu_io s' = cpu_io s \<and>
    (con_locked s \<longrightarrow> \<not> locks_console sc (cpu_kbd s))"
  using assms by (auto simp: keyboard_def Let_def notify_end_of_interrupt_def shutdown_via_keyboard_def cpu_fmt_def
    exit_qemu_def split: prod.splits option.splits if_splits)

lemma handler_returns:
  assumes "deliver (Vector (as_usize i)) f s = Returns s'"
  shows "con_locked s' = con_locked s \<and> ser_locked s' = ser_locked s \<and> INITIALIZED (cpu_io s') = INITIALIZED (cpu_io s) \<and>
    com1_sent (cpu_io s') = com1_sent (cpu_io s)"
    and "(cpu_kbd s', cpu_con s') = happening_effect (Interrupted i f) (cpu_kbd s, cpu_con s)"
    and "con_locked s \<Longrightarrow> happening_effect (Interrupted i f) (cpu_kbd s, c) = (cpu_kbd s', c) \<and> cpu_con s' = cpu_con s"
proof -
  have r: "run_gate (irq_gate i) f s = Returns s'" using assms by (simp add: deliver_irq)
  show "con_locked s' = con_locked s \<and> ser_locked s' = ser_locked s \<and> INITIALIZED (cpu_io s') = INITIALIZED (cpu_io s) \<and>
      com1_sent (cpu_io s') = com1_sent (cpu_io s)"
    using r keyboard_quiet [of "port_0x60 f" s s'] non_keyboard_quiet [OF _ r] non_keyboard_irq [of i f s]
    by (cases "i = Keyboard") auto
  show e: "(cpu_kbd s', cpu_con s') = happening_effect (Interrupted i f) (cpu_kbd s, cpu_con s)"
    using r keyboard_irq [of "port_0x60 f" s s'] non_keyboard_irq [of i f s] by (cases i) auto
  show "happening_effect (Interrupted i f) (cpu_kbd s, c) = (cpu_kbd s', c) \<and> cpu_con s' = cpu_con s" if "con_locked s"
  proof (cases "i = Keyboard")
    case True
    then have "\<not> locks_console (port_0x60 f) (cpu_kbd s)" using r that keyboard_quiet [of "port_0x60 f" s s'] by simp
    then have "snd (snd (handle_scancode (port_0x60 f) (cpu_kbd s, c))) = c" for c by (rule console_untouched)
    then show ?thesis using e True keys_ignore_console [of "port_0x60 f" "cpu_kbd s" c "cpu_con s"]
      by (simp add: prod_eq_iff)
  next
    case False
    then show ?thesis using e by (cases i) simp_all
  qed
qed

section \<open>The invariant\<close>

definition sound_at :: "cpu \<Rightarrow> interrupted \<Rightarrow> bool" where
  "sound_at s0 p \<longleftrightarrow>
     (let s = core p; (k, c) = fold happening_effect (happened p) (cpu_kbd s0, cpu_con s0);
          sent = com1_sent (cpu_io s0) @ concat (map happening_sends (happened p))
      in case point p of
           Outside \<Rightarrow> INITIALIZED (cpu_io s) \<and> \<not> con_locked s \<and> \<not> ser_locked s \<and> cpu_kbd s = k \<and> cpu_con s = c \<and> com1_sent (cpu_io s) = sent
         | Inside v as \<Rightarrow> INITIALIZED (cpu_io s) \<and> con_locked s = is_Screen v \<and> ser_locked s = (\<not> is_Screen v) \<and> cpu_kbd s = k \<and>
             list_all (\<lambda>a. is_Cells a = is_Screen v) as \<and> (if is_Screen v then True else cpu_con s = c) \<and>
             cells_left as (cpu_con s) = snd (happening_effect (Called v) (k, c)) \<and>
             com1_sent (cpu_io s) @ bytes_left as = sent @ happening_sends (Called v)
         | _ \<Rightarrow> True)"

lemma enter_sound:
  assumes "sound_at s0 p" "point p = Outside" "enter_call v (core p) = (s, as)"
  shows "sound_at s0 (p\<lparr>core := s, point := Inside v as\<rparr>)"
  using assms by (cases v) (auto simp: sound_at_def Let_def serial_section_def cells_left_Cells bytes_left_Cells cells_left_Send bytes_left_Send
    screen_section_runs list_all_iff split: prod.splits)

lemma access_sound:
  assumes "sound_at s0 p" "point p = Inside v (a # as)"
  shows "sound_at s0 (p\<lparr>core := make_access a (core p), point := Inside v as\<rparr>)"
  using assms by (cases a) (auto simp: sound_at_def Let_def split: prod.splits)

lemma leave_sound:
  assumes "sound_at s0 p" "point p = Inside v []"
  shows "sound_at s0 (p\<lparr>core := leave_call (core p), point := Outside, happened := happened p @ [Called v]\<rparr>)"
  using assms by (cases v) (auto simp: sound_at_def Let_def leave_call_def split: prod.splits)

lemma interrupt_sound:
  assumes "sound_at s0 p" "point p = Outside \<or> point p = Inside v as" "deliver (Vector (as_usize i)) f (core p) = Returns s"
  shows "sound_at s0 (p\<lparr>core := s, happened := happened p @ [Interrupted i f]\<rparr>)"
proof -
  obtain k c where st: "fold happening_effect (happened p) (cpu_kbd s0, cpu_con s0) = (k, c)" by fastforce
  note h = handler_returns [OF assms(3)]
  show ?thesis
  proof (cases "con_locked (core p)")
    case True
    then show ?thesis using h(1) h(3) [OF True, of c] assms(1,2) st by (cases v) (auto simp: sound_at_def Let_def)
  next
    case False
    then show ?thesis using h(1,2) assms(1,2) st by (cases v) (auto simp: sound_at_def Let_def cells_left_none split: prod.splits)
  qed
qed

lemma preempt_step_sound: "preempt_step p q \<Longrightarrow> sound_at s0 p \<Longrightarrow> sound_at s0 q"
proof (induction rule: preempt_step.induct)
  case (halts p v as i f s)
  then show ?case by (simp add: sound_at_def Let_def)
next
  case (spins p v as i f)
  then show ?case by (simp add: sound_at_def Let_def)
qed (blast intro: enter_sound access_sound leave_sound interrupt_sound)+

lemma reachable_sound:
  assumes "preempt_step\<^sup>*\<^sup>* (undisturbed s) p" "INITIALIZED (cpu_io s)" "\<not> con_locked s" "\<not> ser_locked s"
  shows "sound_at s p"
  using assms(1)
proof (induction rule: rtranclp_induct)
  case base
  then show ?case using assms(2-4) by (simp add: sound_at_def undisturbed_def)
qed (rule preempt_step_sound)

section \<open>Standstill\<close>

text \<open>The key that every locked section of the console cannot stand, and the shutdown keys.\<close>

definition key_frame :: "u8 \<Rightarrow> frame" where
  "key_frame sc = \<lparr>frame_text = [], frame_sp = 0, error_code = 0, fault_text = [], port_0x60 = sc\<rparr>"

definition quiet_cpu :: cpu where
  "quiet_cpu = \<lparr>IRQ_COUNT = 0, PAGE_FAULTS = 0, TIMER_TICKS = 0, cpu_io = \<lparr>outs = [], lsr_tape = (\<lambda>_. 0x20), lsr_pos = 0, INITIALIZED = True\<rparr>,
     cpu_kbd = kbd_static, cpu_con = Console_new (\<lambda>_. 0), con_locked = False, ser_locked = False, pic_calls = []\<rparr>"

lemma quiet_cpu_ready: "INITIALIZED (cpu_io quiet_cpu)" "\<not> con_locked quiet_cpu" "\<not> ser_locked quiet_cpu"
  by (simp_all add: quiet_cpu_def)

lemma enter_key_returns: "\<not> con_locked s \<Longrightarrow> \<exists>s'. deliver (Vector (as_usize Keyboard)) (key_frame 0x1C) s = Returns s'"
  by (simp add: deliver_irq key_frame_def keyboard_def handle_scancode_def)

lemma enter_key_locks: "locks_console 0x1C k"
  by (simp add: locks_console_def)

lemma spins_iff:
  "(\<exists>i f. deliver (Vector (as_usize i)) f s = Spins) \<longleftrightarrow>
     con_locked s \<or> INITIALIZED (cpu_io s) \<and> ser_locked s \<and> CTRL_HELD (cpu_kbd s)"
proof
  assume "\<exists>i f. deliver (Vector (as_usize i)) f s = Spins"
  then obtain i f where r: "run_gate (irq_gate i) f s = Spins" by (auto simp: deliver_irq)
  then have "i = Keyboard" using non_keyboard_irq [of i f s] by fastforce
  then have "keyboard (port_0x60 f) s = Spins" using r by simp
  then show "con_locked s \<or> INITIALIZED (cpu_io s) \<and> ser_locked s \<and> CTRL_HELD (cpu_kbd s)"
    using handle_scancode_trigger [of "port_0x60 f" "cpu_kbd s" "cpu_con s"]
    by (auto simp: keyboard_def Let_def shutdown_via_keyboard_def cpu_fmt_def exit_qemu_def notify_end_of_interrupt_def blocked_def
      split: prod.splits option.splits if_splits)
next
  assume l: "con_locked s \<or> INITIALIZED (cpu_io s) \<and> ser_locked s \<and> CTRL_HELD (cpu_kbd s)"
  have "keyboard (if con_locked s then 0x1C else 0x2D) s = Spins"
    using l enter_key_locks [of "cpu_kbd s"] handle_scancode_trigger [of "0x2D" "cpu_kbd s" "cpu_con s"]
    by (auto simp: keyboard_def Let_def shutdown_via_keyboard_def cpu_fmt_def notify_end_of_interrupt_def blocked_def split: prod.splits)
  then have "deliver (Vector (as_usize Keyboard)) (key_frame (if con_locked s then 0x1C else 0x2D)) s = Spins"
    by (simp add: deliver_irq key_frame_def)
  then show "\<exists>i f. deliver (Vector (as_usize i)) f s = Spins" by blast
qed

inductive_cases preempt_stepE: "preempt_step p q"

lemma waits_final: "point p = Waits \<or> point p = Stops \<Longrightarrow> \<not> preempt_step p q"
  by (auto elim: preempt_stepE)

lemma step_to_waits:
  "(\<exists>q. preempt_step p q \<and> point q = Waits) \<longleftrightarrow>
     (point p = Outside \<or> (\<exists>v as. point p = Inside v as)) \<and> (\<exists>i f. deliver (Vector (as_usize i)) f (core p) = Spins)"
proof
  assume "\<exists>q. preempt_step p q \<and> point q = Waits"
  then show "(point p = Outside \<or> (\<exists>v as. point p = Inside v as)) \<and> (\<exists>i f. deliver (Vector (as_usize i)) f (core p) = Spins)"
    by (auto elim!: preempt_stepE)
next
  assume "(point p = Outside \<or> (\<exists>v as. point p = Inside v as)) \<and> (\<exists>i f. deliver (Vector (as_usize i)) f (core p) = Spins)"
  then have "\<exists>q. preempt_step p (q\<lparr>point := Waits\<rparr>)" by (blast intro: spins)
  then show "\<exists>q. preempt_step p q \<and> point q = Waits" by (metis interrupted.select_convs(2) interrupted.surjective interrupted.update_convs(2))
qed

text \<open>Left alone, a call makes its accesses and returns.\<close>

lemma call_finishes: "point p = Inside v as \<Longrightarrow> \<exists>q. (preempt_step ^^ Suc (length as)) p q \<and> point q = Outside"
proof (induction as arbitrary: p)
  case Nil
  then show ?case using leave [of p v] by auto
next
  case (Cons a as)
  let ?p = "p\<lparr>core := make_access a (core p), point := Inside v as\<rparr>"
  obtain q where "(preempt_step ^^ Suc (length as)) ?p q" "point q = Outside" using Cons.IH [of ?p] by auto
  moreover have "preempt_step p ?p" by (rule access) (rule Cons.prems)
  ultimately show ?case by (metis length_Cons relpowp_Suc_I2)
qed

section \<open>Properties\<close>

text \<open>C11: console calls are atomic under interrupts. Interrupts may be delivered between any two accesses of any
  sequence of console and serial calls; whenever the kernel is outside a call again, both locks are free, the
  keyboard and the screen are what the completed calls and the interrupts give when each is carried out
  without interruption, in the order in which they were completed, and COM1 has received the messages one
  after the other, never mixed.\<close>

theorem console_calls_are_atomic:
  assumes "preempt_step\<^sup>*\<^sup>* (undisturbed s) p" and "INITIALIZED (cpu_io s)" and "\<not> con_locked s" and "\<not> ser_locked s"
    and "point p = Outside"
  shows "\<not> con_locked (core p) \<and> \<not> ser_locked (core p) \<and>
    (cpu_kbd (core p), cpu_con (core p)) = fold happening_effect (happened p) (cpu_kbd s, cpu_con s) \<and>
    com1_sent (cpu_io (core p)) = com1_sent (cpu_io s) @ concat (map happening_sends (happened p))"
  using reachable_sound [OF assms(1-4)] assms(5) by (auto simp: sound_at_def Let_def split: prod.splits)

theorem console_calls_are_atomic_witness:
  "\<exists>p. preempt_step\<^sup>*\<^sup>* (undisturbed quiet_cpu) p \<and> happened p = [Interrupted Keyboard (key_frame 0x1C), Called (SerialFmt [65])] \<and>
     cpu_con (core p) = new_line (cpu_con quiet_cpu) \<and> com1_sent (cpu_io (core p)) = [65]"
proof -
  let ?p0 = "undisturbed quiet_cpu"
  let ?p1 = "?p0\<lparr>core := quiet_cpu\<lparr>ser_locked := True\<rparr>, point := Inside (SerialFmt [65]) [SendByte 65]\<rparr>"
  have s1: "preempt_step ?p0 ?p1"
    by (rule enter) (simp_all add: undisturbed_def serial_section_def quiet_cpu_ready)
  obtain s where s: "deliver (Vector (as_usize Keyboard)) (key_frame 0x1C) (core ?p1) = Returns s"
    using enter_key_returns [of "core ?p1"] quiet_cpu_ready by auto
  let ?p2 = "?p1\<lparr>core := s, happened := [Interrupted Keyboard (key_frame 0x1C)]\<rparr>"
  have s2: "preempt_step ?p1 ?p2"
    using returns [OF _ s, of "SerialFmt [65]" "[SendByte 65]"] by (simp add: undisturbed_def)
  let ?p3 = "?p2\<lparr>core := make_access (SendByte 65) (core ?p2), point := Inside (SerialFmt [65]) []\<rparr>"
  have s3: "preempt_step ?p2 ?p3" by (rule access) simp
  let ?p4 = "?p3\<lparr>core := leave_call (core ?p3), point := Outside, happened := happened ?p3 @ [Called (SerialFmt [65])]\<rparr>"
  have s4: "preempt_step ?p3 ?p4" by (rule leave) simp
  have r: "preempt_step\<^sup>*\<^sup>* ?p0 ?p4" using s1 s2 s3 s4 by (meson converse_rtranclp_into_rtranclp r_into_rtranclp)
  have st: "snd (handle_scancode 0x1C (k, c)) = (kbuf_push 10 k, new_line c)" for k c
    by (simp add: handle_scancode_def vga_put_char_def write_char_def)
  show ?thesis using r console_calls_are_atomic [OF r] quiet_cpu_ready
    by (intro exI [of _ ?p4]) (simp add: key_frame_def st with_cr_def quiet_cpu_def com1_sent_def port_bytes_def)
qed

text \<open>C24: where the kernel can be brought to a standstill. In a state reached with interrupts on, there is an
  interrupt whose handler waits for ever on a lock of the code it interrupted exactly when the kernel is
  inside a call of the text console, or inside a call of the serial port while the control key is held; the
  wait is final. Outside the calls no interrupt waits.\<close>

theorem standstill_exactly_in_locked_sections:
  assumes "preempt_step\<^sup>*\<^sup>* (undisturbed s) p" and "INITIALIZED (cpu_io s)" and "\<not> con_locked s" and "\<not> ser_locked s"
  shows "((\<exists>q. preempt_step p q \<and> point q = Waits) \<longleftrightarrow>
      (\<exists>v as. point p = Inside v as \<and> (is_Screen v \<or> CTRL_HELD (cpu_kbd (core p))))) \<and>
    (point p = Waits \<longrightarrow> \<not> preempt_step p q) \<and>
    (\<forall>v as. point p = Inside v as \<longrightarrow> (\<exists>q. (preempt_step ^^ Suc (length as)) p q \<and> point q = Outside))"
proof -
  have "sound_at s p" by (rule reachable_sound [OF assms])
  then have "(\<exists>q. preempt_step p q \<and> point q = Waits) \<longleftrightarrow>
      (\<exists>v as. point p = Inside v as \<and> (is_Screen v \<or> CTRL_HELD (cpu_kbd (core p))))"
    unfolding step_to_waits spins_iff by (cases "point p") (auto simp: sound_at_def Let_def split: prod.splits)
  then show ?thesis using waits_final call_finishes by blast
qed

theorem standstill_exactly_in_locked_sections_witness:
  "\<exists>p q. preempt_step\<^sup>*\<^sup>* (undisturbed quiet_cpu) p \<and> preempt_step p q \<and> point q = Waits"
proof -
  let ?p = "(undisturbed quiet_cpu)\<lparr>core := quiet_cpu\<lparr>con_locked := True\<rparr>, point := Inside (Screen VBackspace) (map Cells [Console_backspace])\<rparr>"
  have "preempt_step (undisturbed quiet_cpu) ?p" by (rule enter) (simp_all add: undisturbed_def)
  then have r: "preempt_step\<^sup>*\<^sup>* (undisturbed quiet_cpu) ?p" by simp
  have "\<exists>v as. point ?p = Inside v as \<and> is_Screen v" by simp
  then show ?thesis using standstill_exactly_in_locked_sections [OF r] quiet_cpu_ready r by blast
qed

end
