(* ===== verification/Spec2Isabelle.thy ===== *)
theory Spec2Isabelle
  imports Kernel_Invariants Agent_Boot Typed_Commands Ai_Main Preemption
begin

text \<open>
  A verification of the kernel of mon-os (the Rust crate under \<^verbatim>\<open>src/kernel/src\<close>), built with
  \<^verbatim>\<open>cargo build --release\<close>: machine integers wrap, indices are checked. A definition has the name of the
  Rust item it translates, with a prefix where two modules use the same name.

  \<^bold>\<open>The program.\<close> The second stage hands over a memory map and an initial RAM disk. \<^verbatim>\<open>kernel_main\<close> sets up
  the segment tables, the serial port, the interrupt table and controllers, the text console and the
  page allocator, reports the memory map, probes the PCI bus for USB controllers and brings up the
  first device of each, enables interrupts and enters the main loop: poll the USB events, run one task
  (with the agent's feature), let the shell consume the keys that the keyboard interrupt has put into a
  ring. The agent, a task of the cooperative scheduler, evaluates a small integer network over weights
  found in the RAM disk and proposes actions that the transactional layer admits, executes, tests and
  commits or rolls back, with a journal on the debug port.

  \<^bold>\<open>The theories, in the order of their imports.\<close>

  \<^item> \<open>Kernel_Prelude\<close>: machine words, saturating and checked arithmetic, number formatting, byte-addressed
    memory; the locales \<open>framed_ops\<close> (operations that keep an invariant and a frame) and \<open>bounded_queue\<close>.
  \<^item> \<open>Serial\<close> (\<^verbatim>\<open>serial.rs\<close>): port writes as one trace, the line status register as an input tape; a write
    ends whatever the line does and COM1 receives exactly the message.
  \<^item> \<open>Bootinfo\<close>, \<open>Pmm\<close> (\<^verbatim>\<open>bootinfo.rs\<close>, \<^verbatim>\<open>pmm.rs\<close>): the memory map iterator; the lock-free bump
    allocator as a function and as a step relation of concurrent callers, one atomic access per step.
  \<^item> \<open>Vga\<close> (\<^verbatim>\<open>vga.rs\<close>): the console over the text buffer refines a scrolling terminal and writes nowhere
    else.
  \<^item> \<open>Keyboard\<close> (\<^verbatim>\<open>keyboard.rs\<close>): the scancode handler; the ring as an interpretation of \<open>bounded_queue\<close>
    and, with the handler interrupting the reader between any two accesses, as a reachable-state
    invariant.
  \<^item> \<open>Journal\<close>, \<open>Apply_Action\<close>, \<open>Task\<close> (\<^verbatim>\<open>journal.rs\<close>, \<^verbatim>\<open>ai_action.rs\<close>, \<^verbatim>\<open>apply_action.rs\<close>,
    \<^verbatim>\<open>task.rs\<close>): actions as transactions, the journal's text, the round-robin scheduler and its fairness.
  \<^item> \<open>Counters\<close>, \<open>Idt\<close> (\<^verbatim>\<open>idt.rs\<close>, \<^verbatim>\<open>pic.rs\<close>, \<^verbatim>\<open>syscall.rs\<close>): the tick counter as polling code reads it
    and as the handlers write it, related by a theorem; the descriptor table and every handler, which
    returns, halts or waits for ever on a lock of the code it interrupted.
  \<^item> \<open>Preemption\<close> (\<^verbatim>\<open>vga.rs\<close>, \<^verbatim>\<open>serial.rs\<close>, \<^verbatim>\<open>idt.rs\<close>): the locks of the two consoles as a step relation, with interrupts
    between any two accesses of a call; the calls are atomic, and where the machine can stand still.
  \<^item> \<open>Gdt\<close> (\<^verbatim>\<open>gdt.rs\<close>): the task state segment and the segment registers.
  \<^item> \<open>Processor\<close> (\<^verbatim>\<open>gdt.rs\<close>, \<^verbatim>\<open>idt.rs\<close>, \<^verbatim>\<open>pic.rs\<close>, \<^verbatim>\<open>main.rs\<close>): the tables the boot loads into the processor, and what
    an exception and a request of an interrupt line find there.
  \<^item> \<open>Pci\<close> (\<^verbatim>\<open>pci.rs\<close>): configuration reads, enumeration with a callback, base address registers.
  \<^item> \<open>Ramfs\<close>, \<open>Ai_Model\<close>, \<open>Ai_Agent\<close>, \<open>Ai_Main\<close> (\<^verbatim>\<open>ramfs.rs\<close>, \<^verbatim>\<open>ai_initrd.rs\<close>, \<^verbatim>\<open>ai_link.rs\<close>, \<^verbatim>\<open>ai_model.rs\<close>,
    \<^verbatim>\<open>ai_agent.rs\<close>): the cpio walkers as partial functions refined from a scan of the image's bytes, with
    an encoder for round trips; the layout of a model; inference against integer arithmetic; the agent's
    step; the stand-alone loop, the same program as the scheduled steps, and the matrix product, exact when
    its output is separate from its operands and the inner dimension is below 131072.
  \<^item> \<open>Xhci_Hid\<close>, \<open>Xhci_Ring\<close>, \<open>Xhci_Regs\<close>, \<open>Xhci_Driver\<close> (\<^verbatim>\<open>xhci.rs\<close>): the descriptor parser; transfer
    rings as a producer, which like the driver never looks whether the ring is full, and a consumer with the
    cycle bit; register access, each write kept with the memory the controller finds at that moment; every operation of the driver
    in a monad whose stops are panics, deadlocks on the driver's spin lock and loops that never end.
    Register reads and the controller's writes to memory come from tapes: the controller is arbitrary.
  \<^item> \<open>Xhci_Contracts\<close>, \<open>Xhci_Events\<close>, \<open>Xhci_Start\<close>: the locales \<open>contract\<close> and \<open>memory_contract\<close> with
    interpretations for the lock, the registers written, the running state and the well-formedness of the
    rings; the enqueue functions as producer steps of the ring; what polling takes, what starting the controller installs, and that the HID polling deadlocks.
  \<^item> \<open>Usb_Probe\<close>, \<open>Usb_Memory\<close> (\<^verbatim>\<open>main.rs\<close>, \<^verbatim>\<open>xhci.rs\<close>): the bring-up of USB controllers; the contract \<open>confined\<close>,
    an interpretation of \<open>contract\<close>: the driver's rings, contexts and buffers lie in blocks of the
    allocator, and nothing is written to memory outside the allocator's region.
  \<^item> \<open>Shell\<close>, \<open>Shell_Spec\<close>, \<open>Kernel_Main\<close> (\<^verbatim>\<open>main.rs\<close>, \<^verbatim>\<open>shell.rs\<close>): the shell with its commands and the abstract editor it refines; the boot sequence, the
    memory report and the main loop, with the cargo features as parameters.
  \<^item> \<open>Typed_Commands\<close> (\<^verbatim>\<open>shell.rs\<close>, \<^verbatim>\<open>keyboard.rs\<close>): the main loop over any interpreter of command lines; the commands
    that cannot be typed make no difference.
  \<^item> \<open>Agent_Boot\<close> (\<^verbatim>\<open>main.rs\<close>): with the agent or without, the boot stops exactly where and when the USB probe does.
  \<^item> \<open>Kernel_Invariants\<close>: the locale \<open>kernel_frame\<close> of what every invariant of the machine must survive, extended
    by \<open>boot_invariant\<close> (kept up to the set-up of the allocator), \<open>running_invariant\<close> (kept from there through any
    iteration of the main loop) and both, \<open>machine_invariant\<close>; interpreted for the USB driver's state and
    lock, for the quantum, for memory as it was at reset, for memory outside the allocator's region and for
    the place of the RAM disk. Their consequences for the whole kernel are the theorems below.

  \<^bold>\<open>Bounds and loops.\<close> Loops with a bound in the code (a million reads of a register, of the line status,
  of the ticks) are recursions on the remaining count. Loops without one are partial functions: the
  cpio walkers, which end for images below 2 to the 63 bytes, the largest object Rust allows; the
  polling of the event ring, which ends when the pending events are taken; the shell's loop, which ends
  when the ring is empty; \<^verbatim>\<open>sleep\<close>, which ends exactly when the ticks reach the deadline. Their theorems
  say when they return, not only what they return.

  \<^bold>\<open>What is abstracted.\<close> Interrupts are delivered between the memory accesses of the ring's reader
  (\<open>Keyboard\<close>), between the accesses of console and serial calls (\<open>Preemption\<close>), between reads of a counter
  (\<open>Counters\<close>) and between the polls of the shell (\<open>Shell\<close>); the other theories take console calls as atomic,
  which \<open>Preemption\<close> justifies for every run that does not stand still. Spin locks are values only where
  they matter: the USB driver's, and in \<open>Idt\<close> and \<open>Preemption\<close> the two consoles'. The
  Debug output of processor structures, the tables of the crate \<^verbatim>\<open>x86_64\<close>, the interrupt controllers behind
  the crate \<^verbatim>\<open>pic8259\<close> (with the documented effect of initialisation and masks as the hypothesis \<open>pic8259\<close>), the
  PCI bridge and the USB controller are parameters. The controller's own writes to memory are placed before
  each look at the event ring, and the \<^verbatim>\<open>hlt\<close> at the end of an iteration of the main loop, which only waits for
  an interrupt, is left out: the next iteration's keyboard interrupts are arbitrary. Physical memory is one array of bytes that the driver,
  the RAM disk and the agent share; the text buffer and the kernel's own variables are separate from it,
  so that what is proved of the variables is proved for a machine on which the allocator's region does
  not contain the kernel's image; the code does not see to that, as the theorem below on starting a USB
  controller shows. What the USB controller writes to memory by itself is arbitrary, except in the
  theorems on memory, which assume that it stays inside the region, where everything the driver tells it about lies. The features
  \<^verbatim>\<open>ai_agent\<close>, \<^verbatim>\<open>trigger_breakpoint\<close> and \<^verbatim>\<open>qemu_exit\<close> are parameters of the boot sequence; the default build
  has none of them, and a build with the second never reaches the main loop.

  \<^bold>\<open>Not modelled.\<close> The boot sector and the second stage (assembly), the unit tests and the
  compiler fences of the driver.
\<close>

section \<open>Properties of the whole kernel\<close>

text \<open>The state at reset: every static as it is declared.\<close>

definition at_reset :: "kernel \<Rightarrow> bool" where
  "at_reset k \<longleftrightarrow> ctl (dev (km k)) = None \<and> \<not> held (dev (km k)) \<and> xpmm (dev (km k)) = pmm_static \<and>
     con (dev (km k)) = Console_new (vram (con (dev (km k)))) \<and> agt (km k) = agent_static ai_link_static \<and>
     QUANTUM_US (act (km k)) = 1000 \<and> \<not> SYSTEM_READY (act (km k)) \<and> tasks (km k) = sched_static"

text \<open>The region that \<^verbatim>\<open>pmm::init\<close> will choose from the boot loader's memory map: its bounds.\<close>

definition region_start :: "kernel \<Rightarrow> BootInfo \<Rightarrow> nat" where
  "region_start k boot = unat (fst (best_region (iter_entries (ram (dev (km k))) (memory_map boot))))"

definition region_end :: "kernel \<Rightarrow> BootInfo \<Rightarrow> nat" where
  "region_end k boot = (let (b, n) = best_region (iter_entries (ram (dev (km k))) (memory_map boot)) in unat (b + n))"

text \<open>A machine at reset with a memory map, no PCI function and a quiet bus.\<close>

definition cold_kernel :: kernel where
  "cold_kernel = \<lparr>km = example_mach\<lparr>dev := (dev example_mach)\<lparr>ram := example_map, xpmm := pmm_static, dma_tape := (\<lambda>_ m. m)\<rparr>\<rparr>, proc = example_proc\<rparr>"

lemma cold_at_reset: "at_reset cold_kernel"
  by (simp add: at_reset_def cold_kernel_def example_mach_def example_sys_def kern_static_def Console_new_def)

lemma bare_machine_boots: "\<exists>k'. kernel_boot default_features acfg example_cfg boot k = Inr k'"
proof -
  obtain d where "case log_usb_controllers example_cfg d of
      Inl e \<Rightarrow> kernel_boot default_features acfg example_cfg boot k = Inl (Failed e)
    | Inr (_, d') \<Rightarrow> \<exists>d''. kernel_boot default_features acfg example_cfg boot k =
        Inr (k\<lparr>km := (km k)\<lparr>dev := d''\<rparr>, proc := boot_proc (proc k)\<rparr>)" using default_boot_steps by blast
  then show ?thesis using no_controllers [of d] by auto
qed

lemma region_confined:
  assumes "at_reset k" "unat (initrd_len boot) < 2 ^ 63" "kernel_boot ft acfg cfg boot k = Inr k'"
    and "main_loop ft acfg cfg n (shell_boot tape (km k')) = Inr s"
    and "A = \<lparr>lower = region_start k boot, upper = region_end k boot, mem0 = ram (dev (km k)), con0 = con (dev (km k))\<rparr>"
    and "upper A \<le> 2 ^ 63" "\<And>i. writes_in A (dma_tape (dev (km k)) i)"
  shows "confined A (dev (mach_st s))"
proof -
  let ?d = "dev (km k)"
  obtain k1 k2 where b: "seqk (boot_head ft acfg boot) k = Inr k1" "on_k (pmm_start boot) k1 = Inr k2"
    "seqk (on_k (log_memory_map boot) # on_k (lift_x (log_usb_controllers cfg)) # boot_tail ft acfg) k2 = Inr k'"
    using boot_stages [OF assms(3)] by blast
  have "con ?d = Console_new (vram (con ?d))" "agt (km k) = agent_static ai_link_static" using assms(1) by (simp_all add: at_reset_def)
  then have "console_ok (con ?d)" "unat (INITRD_LEN (link (agt (km k)))) < 2 ^ 63"
    by (metis (no_types, lifting) Console.select_convs(1,2) Console_new_def console_ok_def zero_le zero_less_numeral,
      simp add: agent_static_def ai_link_static_def)
  then have "untouched ?d (km k)" by (simp add: untouched_def same_outside_refl)
  then have u: "untouched ?d (km k1)" using untouched.head_safe [OF assms(2)] b(1) unfolding safe_k_def by blast
  obtain p i where p: "pmm_init (ram ?d) boot (pmm_static, xio (dev (km k1))) = (p, i)"
    by (cases "pmm_init (ram ?d) boot (pmm_static, xio (dev (km k1)))")
  have k2: "dev (km k2) = (dev (km k1))\<lparr>xpmm := p, xio := i\<rparr>" "agt (km k2) = agt (km k1)"
    using b(2) u p assms(1) by (auto simp: on_k_def pmm_start_def updm_def untouched_def at_reset_def)
  have "pmm_in A p"
    using p assms(5,6) by (auto simp: pmm_in_def pmm_init_def pmm_static_def region_start_def region_end_def split: prod.splits if_splits)
  then have "mach_confined A (km k2)"
    using u k2 assms(1,5,7) by (simp add: mach_confined_def confined_def untouched_def at_reset_def)
  then show ?thesis using region.running_safe [OF _ b(3) assms(4)] by (simp add: mach_confined_def)
qed

text \<open>C1: the running kernel. Take any feature set, any configuration of the agent, any PCI bus, any
  behaviour of the USB controller's registers and memory, any ticks and any keyboard interrupts; if
  the boot sequence has ended from reset (with an initial RAM disk below 2 to the 63 bytes) and the
  main loop has gone round any number of times, then the USB driver's lock is free and its state is
  well formed (ring indices inside their rings), the scheduling quantum lies between 100 and 50000
  microseconds, the shell's line holds at most 256 printable characters and the keyboard ring's
  indices are in range.\<close>

theorem kernel_stays_sound:
  assumes "at_reset k" and "unat (initrd_len boot) < 2 ^ 63" and "kernel_boot ft acfg cfg boot k = Inr k'"
    and "main_loop ft acfg cfg n (shell_boot tape (km k')) = Inr s"
  shows "\<not> held (dev (mach_st s)) \<and> ctl_ok (dev (mach_st s)) \<and> 100 \<le> QUANTUM_US (act (mach_st s)) \<and> QUANTUM_US (act (mach_st s)) \<le> 50000 \<and>
    line_ok s \<and> kbd_ok (keys s)"
proof -
  have len: "unat (INITRD_LEN (link (agt (km k)))) < 2 ^ 63" using assms(1) by (simp add: at_reset_def agent_static_def ai_link_static_def)
  have "mach_ok (km k)" using assms(1) len by (simp add: at_reset_def mach_ok_def ctl_ok_def)
  moreover have "quantum_in_range (km k)" using assms(1) len by (simp add: at_reset_def quantum_in_range_def quantum_ok_def)
  ultimately show ?thesis
    using driver.kernel_safe [OF assms(2) driver_pmm _ assms(3,4)] quantum.kernel_safe [OF assms(2) quantum_pmm _ assms(3,4)]
    by (simp add: mach_ok_def quantum_in_range_def quantum_ok_def shell_ok_def)
qed

theorem kernel_stays_sound_witness:
  "\<exists>k' s. kernel_boot default_features cfg_default example_cfg example_boot cold_kernel = Inr k' \<and>
     main_loop default_features cfg_default example_cfg 0 (shell_boot (\<lambda>_. []) (km k')) = Inr s \<and> ctl_ok (dev (mach_st s)) \<and> line_ok s"
proof -
  obtain k' where b: "kernel_boot default_features cfg_default example_cfg example_boot cold_kernel = Inr k'"
    using bare_machine_boots by blast
  moreover have l: "main_loop default_features cfg_default example_cfg 0 (shell_boot (\<lambda>_. []) (km k')) = Inr (shell_boot (\<lambda>_. []) (km k'))" by simp
  moreover have "unat (initrd_len example_boot) < 2 ^ 63" by (simp add: example_boot_def)
  ultimately show ?thesis using kernel_stays_sound [OF cold_at_reset _ b l] by blast
qed

text \<open>C2: memory safety of the whole kernel. From reset, with any features, any PCI bus, any register values,
  ticks and keyboard interrupts, and a USB controller whose own accesses to memory stay inside the region
  that the allocator was given: after the boot and any number of iterations of the main loop, no byte of
  physical memory outside that region has changed, the cursor of the text console is on the screen, and
  no word of memory outside the 80 by 25 text buffer was written through it.\<close>

theorem kernel_writes_only_its_region:
  assumes "at_reset k" and "unat (initrd_len boot) < 2 ^ 63" and "region_end k boot \<le> 2 ^ 63"
    and "\<forall>i m x. unat x < region_start k boot \<or> region_end k boot \<le> unat x \<longrightarrow> dma_tape (dev (km k)) i m x = m x"
    and "kernel_boot ft acfg cfg boot k = Inr k'" and "main_loop ft acfg cfg n (shell_boot tape (km k')) = Inr s"
  shows "(\<forall>x. unat x < region_start k boot \<or> region_end k boot \<le> unat x \<longrightarrow> ram (dev (mach_st s)) x = ram (dev (km k)) x) \<and>
    console_ok (con (dev (mach_st s))) \<and> same_outside (con (dev (km k))) (con (dev (mach_st s)))"
proof -
  define A where "A = \<lparr>lower = region_start k boot, upper = region_end k boot, mem0 = ram (dev (km k)), con0 = con (dev (km k))\<rparr>"
  have "writes_in A (dma_tape (dev (km k)) i)" for i
    unfolding writes_in_def A_def using assms(4) by (auto simp: arena_of_def)
  then have "confined A (dev (mach_st s))"
    by (intro region_confined [OF assms(1,2,5,6) A_def]) (use assms(3) in \<open>simp_all add: A_def\<close>)
  then show ?thesis by (auto simp: confined_def A_def arena_of_def)
qed

theorem kernel_writes_only_its_region_witness:
  "\<exists>k' s. kernel_boot default_features cfg_default example_cfg example_boot cold_kernel = Inr k' \<and>
     main_loop default_features cfg_default example_cfg 0 (shell_boot (\<lambda>_. []) (km k')) = Inr s \<and>
     (\<forall>x. unat x < 0x101000 \<longrightarrow> ram (dev (mach_st s)) x = example_map x)"
proof -
  have r: "best_region (iter_entries (ram (dev (km cold_kernel))) (memory_map example_boot)) = (0x101000, 0xFF000)"
    by (simp add: cold_kernel_def example_entries best_region_def consider_entry_def is_usable_def align_up_def align_down_def PAGE_SIZE_def Let_def)
  have reg: "region_start cold_kernel example_boot = 0x101000" "region_end cold_kernel example_boot = 0x200000"
    by (simp_all add: region_start_def region_end_def r)
  obtain k' where b: "kernel_boot default_features cfg_default example_cfg example_boot cold_kernel = Inr k'"
    using bare_machine_boots by blast
  have l: "main_loop default_features cfg_default example_cfg 0 (shell_boot (\<lambda>_. []) (km k')) = Inr (shell_boot (\<lambda>_. []) (km k'))" by simp
  have "\<forall>i m x. unat x < region_start cold_kernel example_boot \<or> region_end cold_kernel example_boot \<le> unat x \<longrightarrow>
      dma_tape (dev (km cold_kernel)) i m x = m x" by (simp add: cold_kernel_def)
  moreover have "unat (initrd_len example_boot) < 2 ^ 63" "region_end cold_kernel example_boot \<le> 2 ^ 63" by (simp add: example_boot_def, simp add: reg)
  ultimately have "unat x < 0x101000 \<Longrightarrow> ram (dev (mach_st (shell_boot (\<lambda>_. []) (km k')))) x = ram (dev (km cold_kernel)) x" for x
    using kernel_writes_only_its_region [OF cold_at_reset _ _ _ b l] reg by simp
  then have "\<forall>x. unat x < 0x101000 \<longrightarrow> ram (dev (mach_st (shell_boot (\<lambda>_. []) (km k')))) x = example_map x" by (simp add: cold_kernel_def)
  with b l show ?thesis by blast
qed

text \<open>A memory map as a PC reports it above the first megabyte.\<close>

definition pc_map :: mem where
  "pc_map = write_bytes (\<lambda>_. 0) 0x5000
     [0, 0, 0x10, 0, 0, 0, 0, 0,  0, 0, 0x10, 0, 0, 0, 0, 0,  1, 0, 0, 0,  0, 0, 0, 0]"

lemma pc_region: "best_region (iter_entries pc_map (memory_map example_boot)) = (0x100000, 0x100000)"
proof -
  have "iter_entries pc_map (memory_map example_boot) =
      [\<lparr>base_addr = 0x100000, region_length = 0x100000, region_type = 1, attributes = 0\<rparr>]"
    by (simp add: iter_entries_eq memory_map_def example_boot_def read_entry_def read_bytes_def
        pc_map_def write_bytes_def le_word_def upt_rec MEMORY_MAP_ENTRY_BYTES_def)
  then show ?thesis
    by (simp add: best_region_def consider_entry_def is_usable_def align_up_def align_down_def PAGE_SIZE_def Let_def)
qed

text \<open>C28: the region is not kept clear of the kernel. The allocator is given the largest usable region from its
  first page on; nothing is set aside for the kernel's image, which \<^verbatim>\<open>linker.ld\<close> places at 0x100000, where the
  usable memory above the first megabyte of a PC starts. When the region starts there, the command ring
  of a USB controller that is started successfully is put over the first page of the image.\<close>

theorem controller_start_overwrites_kernel_image:
  assumes "best_region (iter_entries m (memory_map boot)) = (0x100000, len)" and "PAGE_SIZE \<le> len" and "len \<le> 2 ^ 62"
    and "pmm_init m boot (pmm_static, i0) = (p, i1)" and "xpmm s = p" and "ctl s = None"
    and "init_controller i s = Inr (Inr (), s')"
  shows "\<exists>c. ctl s' = Some c \<and> command_ring_phys c = 0x100000"
proof -
  have p: "p = \<lparr>NEXT_FREE = 0x100000, LIMIT = 0x100000 + len\<rparr>" using assms(1,2,4) by (auto simp: pmm_init_def pmm_static_def)
  have "unat len \<le> 2 ^ 62" using assms(3) by (simp add: word_le_nat_alt)
  then have lim: "unat (0x100000 + len) = 0x100000 + unat len" by (intro unat_add_no_wrap [of "0x100000" len, simplified]) simp
  then have "pmm_good p" using \<open>unat len \<le> 2 ^ 62\<close> by (simp add: p pmm_good_nat)
  then obtain c where c: "installed c s'" "blocks_ok (xpmm s) c"
    using init_controller_outcome [OF assms(7,6)] assms(5) by auto
  have "unat (command_ring_phys c) = 0x100000" using c(2) by (simp add: blocks_ok_def assms(5) p round_up_def)
  then have "command_ring_phys c = 0x100000" by (simp add: word_unat_eq_iff)
  then show ?thesis using c(1) by (auto simp: installed_def fixed_part_def)
qed

theorem controller_start_overwrites_kernel_image_witness:
  "\<exists>s' c. init_controller example_info (example_sys None) = Inr (Inr (), s') \<and>
     xpmm (example_sys None) = fst (pmm_init pc_map example_boot (pmm_static, xio (example_sys None))) \<and>
     ctl s' = Some c \<and> command_ring_phys c = 0x100000"
proof -
  obtain s' where s': "init_controller example_info (example_sys None) = Inr (Inr (), s')" using example_starts by blast
  obtain p i where p: "pmm_init pc_map example_boot (pmm_static, xio (example_sys None)) = (p, i)"
    by (cases "pmm_init pc_map example_boot (pmm_static, xio (example_sys None))")
  then have x: "xpmm (example_sys None) = p" by (auto simp: pmm_init_def pc_region pmm_static_def PAGE_SIZE_def example_sys_def)
  have "\<exists>c. ctl s' = Some c \<and> command_ring_phys c = 0x100000"
    by (rule controller_start_overwrites_kernel_image [OF pc_region _ _ p x _ s']) (simp_all add: PAGE_SIZE_def example_sys_def)
  with s' p x show ?thesis by auto
qed

text \<open>After the boot with the agent's feature the RAM disk's place is the boot loader's, for ever.\<close>

lemma ramdisk_linked:
  assumes "ai_agent ft" "unat (initrd_len boot) < 2 ^ 63" "kernel_boot ft acfg cfg boot k = Inr k'"
    and "main_loop ft acfg cfg n (shell_boot tape (km k')) = Inr s"
  shows "linked boot (mach_st s)"
proof -
  obtain k1 k2 where b: "seqk (boot_head ft acfg boot) k = Inr k1" "on_k (pmm_start boot) k1 = Inr k2"
    "seqk (on_k (log_memory_map boot) # on_k (lift_x (log_usb_controllers cfg)) # boot_tail ft acfg) k2 = Inr k'"
    using boot_stages [OF assms(3)] by blast
  have "linked boot (km k1)" by (rule head_links [OF b(1) assms(1,2)])
  then have "linked boot (km k2)" using b(2) by (auto simp: on_k_def pmm_start_def updm_def linked_def split: prod.splits)
  then show ?thesis using linked.running_safe [OF _ b(3) assms(4)] by blast
qed

text \<open>C3: the RAM disk survives. Booted from reset with the agent's feature and a RAM disk that lies outside the
  allocator's region, and with a USB controller whose own accesses stay inside the region: after any
  number of iterations of the main loop the files the shell lists are those of the archive the boot
  loader has left in memory, and every file has the bytes it had then. (The code does not check that the
  RAM disk lies outside the region.)\<close>

theorem ramdisk_survives:
  assumes "at_reset k" and "ai_agent ft" and "unat (initrd_len boot) < 2 ^ 63" and "region_end k boot \<le> 2 ^ 63"
    and "\<forall>x \<in> region (initrd_base boot) (unat (initrd_len boot)). unat x < region_start k boot \<or> region_end k boot \<le> unat x"
    and "\<forall>i m x. unat x < region_start k boot \<or> region_end k boot \<le> unat x \<longrightarrow> dma_tape (dev (km k)) i m x = m x"
    and "kernel_boot ft acfg cfg boot k = Inr k'" and "main_loop ft acfg cfg n (shell_boot tape (km k')) = Inr s"
  shows "files (mach_st s) = initrd_entries (ram (dev (km k))) (initrd_base boot) (initrd_len boot) \<and>
    (\<forall>e \<in> set (files (mach_st s)). \<forall>j. file_bytes (mach_st s) e j = read_bytes (ram (dev (km k))) (entry_data e) (min (unat (entry_size e)) j))"
proof -
  let ?m = "ram (dev (km k))" and ?m' = "ram (dev (mach_st s))" and ?R = "region (initrd_base boot) (unat (initrd_len boot))"
  define A where "A = \<lparr>lower = region_start k boot, upper = region_end k boot, mem0 = ?m, con0 = con (dev (km k))\<rparr>"
  have "writes_in A (dma_tape (dev (km k)) i)" for i
    unfolding writes_in_def A_def using assms(6) by (auto simp: arena_of_def)
  then have "confined A (dev (mach_st s))"
    by (intro region_confined [OF assms(1,3,7,8) A_def]) (use assms(4) in \<open>simp_all add: A_def\<close>)
  then have same: "?m' x = ?m x" if "x \<in> ?R" for x using assms(5) that by (auto simp: confined_def A_def arena_of_def)
  have l: "linked boot (mach_st s)" by (rule ramdisk_linked [OF assms(2,3,7,8)])
  have "initrd_image ?m' (initrd_base boot) (initrd_len boot) = initrd_image ?m (initrd_base boot) (initrd_len boot)"
    by (rule initrd_image_cong) (rule same)
  then have f: "files (mach_st s) = initrd_entries ?m (initrd_base boot) (initrd_len boot)"
    using l by (simp add: files_def initrd_now_def linked_def initrd_entries_def)
  have "file_bytes (mach_st s) e j = read_bytes ?m (entry_data e) (min (unat (entry_size e)) j)" if e: "e \<in> set (files (mach_st s))" for e j
    unfolding file_bytes_def
  proof (rule read_bytes_cong)
    fix x assume "x \<in> region (entry_data e) (min (unat (entry_size e)) j)"
    then have "x \<in> region (entry_data e) (unat (entry_size e))" by (simp add: region_def)
    then show "?m' x = ?m x" using entry_in_region [OF e [unfolded f] assms(3)] same by blast
  qed
  with f show ?thesis by blast
qed

text \<open>A machine whose boot loader has left an archive of one file at 0x300000, above the allocator's region.\<close>

definition disk_boot :: BootInfo where
  "disk_boot = example_boot\<lparr>initrd_base := 0x300000, initrd_len := 260\<rparr>"

definition disk_kernel :: kernel where
  "disk_kernel = cold_kernel\<lparr>km := (km cold_kernel)\<lparr>dev := (dev (km cold_kernel))\<lparr>ram :=
     write_bytes example_map 0x300000 (archive example_files example_trailer [])\<rparr>\<rparr>\<rparr>"

lemma archive_length: "length (archive example_files example_trailer []) = 260"
  using arg_cong [OF example_archive, of length] by simp

lemma disk_kernel_reset: "at_reset disk_kernel" "dma_tape (dev (km disk_kernel)) i m = m"
  using cold_at_reset by (simp_all add: at_reset_def disk_kernel_def cold_kernel_def)

lemma disk_region: "region_start disk_kernel disk_boot = 0x101000" "region_end disk_kernel disk_boot = 0x200000"
proof -
  let ?m = "ram (dev (km disk_kernel))"
  have low: "?m x = example_map x" if "unat x < 0x300000" for x
  proof -
    have "unat (x - 0x300000) = 2 ^ 64 + unat x - 0x300000" using that by (simp add: unat_sub_if_size word_size)
    then have "\<not> unat (x - 0x300000) < length (archive example_files example_trailer [])" using that by (simp add: archive_length)
    then show ?thesis by (simp add: disk_kernel_def write_bytes_def)
  qed
  have "iter_entries ?m (memory_map disk_boot) = iter_entries example_map (memory_map example_boot)"
    by (simp add: iter_entries_eq memory_map_def disk_boot_def example_boot_def read_entry_def read_bytes_def upt_rec low MEMORY_MAP_ENTRY_BYTES_def)
  then have "best_region (iter_entries ?m (memory_map disk_boot)) = (0x101000, 0xFF000)"
    by (simp add: example_entries best_region_def consider_entry_def is_usable_def align_up_def align_down_def PAGE_SIZE_def Let_def)
  then show "region_start disk_kernel disk_boot = 0x101000" "region_end disk_kernel disk_boot = 0x200000"
    by (simp_all add: region_start_def region_end_def)
qed

lemma disk_names: "map entry_name (initrd_entries (ram (dev (km disk_kernel))) (initrd_base disk_boot) (initrd_len disk_boot)) = [str_bytes ''ai.mod'']"
proof -
  let ?m = "ram (dev (km disk_kernel))"
  have "read_bytes ?m 0x300000 260 = archive example_files example_trailer []"
    using read_back [of "archive example_files example_trailer []" example_map "0x300000"] by (simp add: archive_length disk_kernel_def)
  then have "list_all2 (\<lambda>e f. entry_name e = file_name f \<and> read_bytes ?m (entry_data e) (unat (entry_size e)) = cpio_file.contents f)
      (initrd_entries ?m 0x300000 260) example_files"
    by (intro archive_entries [OF _ _ _ example_fits]) simp_all
  then show ?thesis by (auto simp: disk_boot_def example_files_def list_all2_Cons2)
qed

lemma agent_boots:
  assumes "agt (km k) = agent_static ai_link_static" "unat (initrd_len boot) < 2 ^ 63" "unat (initrd_base boot) + unat (initrd_len boot) < 2 ^ 64"
  shows "\<exists>k'. kernel_boot \<lparr>ai_agent = True, trigger_breakpoint = None, qemu_exit = False\<rparr> cfg_default example_cfg boot k = Inr k'"
proof -
  let ?ft = "\<lparr>ai_agent = True, trigger_breakpoint = None, qemu_exit = False\<rparr>"
  have "preset cfg_default" "plain ?ft" "agent_at_rest (km k)" using assms(1) by (simp_all add: preset_def plain_def agent_at_rest_def)
  from boot_steps [OF this assms(2,3), of example_cfg] obtain k1 where "case log_usb_controllers example_cfg (dev (km k1)) of
      Inl e \<Rightarrow> kernel_boot ?ft cfg_default example_cfg boot k = Inl (Failed e)
    | Inr (_, d) \<Rightarrow> \<exists>k'. seqk (boot_tail ?ft cfg_default) (k1\<lparr>km := (km k1)\<lparr>dev := d\<rparr>\<rparr>) = Inr k' \<and>
        kernel_boot ?ft cfg_default example_cfg boot k = Inr k' \<and> agent_sound (km k')" by blast
  then show ?thesis using no_controllers [of "dev (km k1)"] by auto
qed

theorem ramdisk_survives_witness:
  "\<exists>k' s. kernel_boot \<lparr>ai_agent = True, trigger_breakpoint = None, qemu_exit = False\<rparr> cfg_default example_cfg disk_boot disk_kernel = Inr k' \<and>
     main_loop \<lparr>ai_agent = True, trigger_breakpoint = None, qemu_exit = False\<rparr> cfg_default example_cfg 0 (shell_boot (\<lambda>_. []) (km k')) = Inr s \<and>
     map entry_name (files (mach_st s)) = [str_bytes ''ai.mod'']"
proof -
  let ?ft = "\<lparr>ai_agent = True, trigger_breakpoint = None, qemu_exit = False\<rparr>"
  obtain k' where b: "kernel_boot ?ft cfg_default example_cfg disk_boot disk_kernel = Inr k'"
    using agent_boots [of disk_kernel disk_boot] disk_kernel_reset(1) by (auto simp: disk_boot_def at_reset_def)
  have l: "main_loop ?ft cfg_default example_cfg 0 (shell_boot (\<lambda>_. []) (km k')) = Inr (shell_boot (\<lambda>_. []) (km k'))" by simp
  have len: "unat (initrd_len disk_boot) < 2 ^ 63" by (simp add: disk_boot_def)
  have away: "\<forall>x \<in> region (initrd_base disk_boot) (unat (initrd_len disk_boot)).
      unat x < region_start disk_kernel disk_boot \<or> region_end disk_kernel disk_boot \<le> unat x"
  proof
    fix x assume "x \<in> region (initrd_base disk_boot) (unat (initrd_len disk_boot))"
    then have "unat (x - 0x300000) < 260" by (simp add: region_def disk_boot_def)
    then have "unat (0x300000 + (x - 0x300000)) = 0x300000 + unat (x - 0x300000)" using unat_add_no_wrap [of "0x300000" "x - 0x300000"] by simp
    then show "unat x < region_start disk_kernel disk_boot \<or> region_end disk_kernel disk_boot \<le> unat x" by (simp add: disk_region)
  qed
  have "files (mach_st (shell_boot (\<lambda>_. []) (km k'))) =
      initrd_entries (ram (dev (km disk_kernel))) (initrd_base disk_boot) (initrd_len disk_boot)"
    using ramdisk_survives [OF disk_kernel_reset(1) _ _ _ away _ b l] disk_kernel_reset(2) len by (simp add: disk_region)
  then show ?thesis using b l disk_names by auto
qed

text \<open>the default build has no RAM disk. Booted from reset without the agent's feature, the kernel
  never records where the boot loader put the initial RAM disk: whatever the boot information says,
  the archive the shell walks is empty, so \<^verbatim>\<open>ls\<close> lists nothing and no path is found; the system is not
  marked ready either, so no action would be admitted.\<close>

theorem default_build_has_no_ramdisk:
  assumes "at_reset k" and "kernel_boot default_features acfg cfg boot k = Inr k'"
  shows "files (km k') = [] \<and> lookup (km k') path = None \<and> \<not> is_system_ready (act (km k')) \<and> runqueue_len (tasks (km k')) = 0"
proof -
  obtain d where boot: "case log_usb_controllers cfg d of
      Inl e \<Rightarrow> kernel_boot default_features acfg cfg boot k = Inl (Failed e)
    | Inr (_, d') \<Rightarrow> \<exists>d''. kernel_boot default_features acfg cfg boot k =
        Inr (k\<lparr>km := (km k)\<lparr>dev := d''\<rparr>, proc := boot_proc (proc k)\<rparr>)" using default_boot_steps by blast
  obtain d where d: "km k' = (km k)\<lparr>dev := d\<rparr>"
    using boot assms(2) by (cases "log_usb_controllers cfg d") auto
  have "INITRD_LEN (initrd_now (km k')) = 0" using d assms(1) by (simp add: initrd_now_def at_reset_def agent_static_def ai_link_static_def)
  then have "files (km k') = []" by (simp add: files_def initrd_entries_def initrd_image_def cpio_scan.simps)
  then show ?thesis using d assms(1)
    by (simp add: lookup_def is_system_ready_def at_reset_def sched_static_def runqueue_len_def)
qed

theorem default_build_has_no_ramdisk_witness:
  "\<exists>k'. kernel_boot default_features cfg_default example_cfg (example_boot_info\<lparr>initrd_base := 0x200000, initrd_len := 260\<rparr>) cold_kernel = Inr k' \<and>
     files (km k') = []"
proof -
  obtain k' where "kernel_boot default_features cfg_default example_cfg (example_boot_info\<lparr>initrd_base := 0x200000, initrd_len := 260\<rparr>) cold_kernel = Inr k'"
    using bare_machine_boots by blast
  with default_build_has_no_ramdisk [OF cold_at_reset this] show ?thesis by blast
qed

end
